(* ===== verification/Prelude.thy ===== *)
theory Prelude
  imports Complex_Main "HOL-Library.Word" "HOL-Library.List_Lexorder" "HOL-Library.Char_ord"
    "HOL-Library.Multiset" "HOL-Library.Sublist"
    "HOL-Library.Code_Target_Numeral" "HOL-Library.Product_Lexorder"
begin

text \<open>
  Shared vocabulary of the development: the collections of rewrite rules the component
  theories fill, the types every component uses (Go's result pairs as sums, instants in
  nanoseconds) and the generic facts on lists, maps and sorting that several components need.
\<close>

section \<open>Collections\<close>

named_theorems go_simps \<open>rules for the model of Go's standard library\<close>
named_theorems db_simps \<open>rules for the tables of the control plane\<close>
named_theorems route_simps \<open>rules for route plans and routing tables\<close>

section \<open>Types\<close>

text \<open>
  A Go function returning \<open>(T, error)\<close> is modelled by a sum: \<open>Inl\<close> of the error or
  \<open>Inr\<close> of the value. Instants and durations are Go's \<open>time.Duration\<close> and
  \<open>UnixNano\<close>, integers counting nanoseconds.
\<close>

type_synonym nanos = int

abbreviation second :: nanos where "second \<equiv> 1000000000"
abbreviation millisecond :: nanos where "millisecond \<equiv> 1000000"

text \<open>The error of a result, when it has one (Go's \<open>err\<close>, with \<open>nil\<close> as \<open>None\<close>).\<close>

fun err_of :: "'e + 'a \<Rightarrow> 'e option" where
  "err_of (Inl e) = Some e"
| "err_of (Inr _) = None"

section \<open>Lists without duplicates\<close>

text \<open>
  The Go idiom \<open>if !seen[x] { seen[x] = true; out = append(out, x) }\<close>: the first
  occurrence of every element, in order.
\<close>

fun keep_first :: "'a set \<Rightarrow> 'a list \<Rightarrow> 'a list" where
  "keep_first seen [] = []"
| "keep_first seen (x # xs) =
     (if x \<in> seen then keep_first seen xs else x # keep_first (insert x seen) xs)"

lemma set_keep_first [simp]: "set (keep_first seen xs) = set xs - seen"
  by (induction xs arbitrary: seen) auto

lemma distinct_keep_first [simp]: "distinct (keep_first seen xs)"
  by (induction xs arbitrary: seen) auto

lemma keep_first_distinct: "distinct xs \<Longrightarrow> set xs \<inter> seen = {} \<Longrightarrow> keep_first seen xs = xs"
  by (induction xs arbitrary: seen) auto

lemma keep_first_filter: "keep_first seen (filter P xs) = filter P (keep_first seen xs)"
proof (induction xs arbitrary: seen)
  case Nil
  then show ?case by simp
next
  case (Cons x xs)
  have "filter P (keep_first (insert x seen) xs) = filter P (keep_first seen xs)"
    if "\<not> P x" for seen
    using that
  proof (induction xs arbitrary: seen)
    case Nil
    then show ?case by simp
  next
    case (Cons y ys)
    then show ?case by (auto simp: insert_commute)
  qed
  with Cons show ?case by simp
qed

section \<open>Sorting\<close>

text \<open>
  \<open>sort.Strings\<close> and \<open>sort.Slice\<close> on a total order have one possible result on a
  list without equal keys; these facts identify it.
\<close>

lemma sort_distinct_set_eq:
  fixes xs ys :: "'a::linorder list"
  assumes "distinct xs" "distinct ys" "set xs = set ys"
  shows "sort xs = sort ys"
  using assms by (metis sorted_list_of_set_sort_remdups distinct_remdups_id)

lemma sort_eq_iff_mset:
  fixes xs ys :: "'a::linorder list"
  shows "sort xs = sort ys \<longleftrightarrow> mset xs = mset ys"
  by (metis mset_sort properties_for_sort sorted_sort)


section \<open>Maps built from lists\<close>

text \<open>
  A Go map filled by a loop \<open>for _, p := range ps { m[k(p)] = p }\<close>: the last element
  with a key wins.
\<close>

definition last_by :: "('a \<Rightarrow> 'k) \<Rightarrow> 'a list \<Rightarrow> ('k \<rightharpoonup> 'a)" where
  "last_by k xs = foldl (\<lambda>m x. m(k x \<mapsto> x)) Map.empty xs"

lemma last_by_map_of: "last_by k xs = map_of (rev (map (\<lambda>x. (k x, x)) xs))"
proof -
  have "foldl (\<lambda>m x. m(k x \<mapsto> x)) m xs = m ++ map_of (rev (map (\<lambda>x. (k x, x)) xs))" for m
    by (induction xs arbitrary: m) auto
  from this [of Map.empty] show ?thesis by (simp add: last_by_def)
qed

lemma last_by_None [simp]: "last_by k xs q = None \<longleftrightarrow> q \<notin> k ` set xs"
  by (force simp: last_by_map_of map_of_eq_None_iff)

lemma dom_last_by [simp]: "dom (last_by k xs) = k ` set xs"
  by (rule set_eqI) (simp add: domIff)

lemma last_by_SomeD: "last_by k xs q = Some x \<Longrightarrow> x \<in> set xs \<and> k x = q"
  by (auto simp: last_by_map_of dest!: map_of_SomeD)

lemma last_by_distinct:
  "distinct (map k xs) \<Longrightarrow> last_by k xs q = Some x \<longleftrightarrow> x \<in> set xs \<and> k x = q"
proof -
  assume d: "distinct (map k xs)"
  have "distinct (map fst (rev (map (\<lambda>x. (k x, x)) xs)))"
    using d by (simp add: rev_map [symmetric] comp_def)
  then show ?thesis by (auto simp: last_by_map_of map_of_eq_Some_iff)
qed

lemma map_filter_set_iff: "y \<in> set (List.map_filter f xs) \<longleftrightarrow> (\<exists>x \<in> set xs. f x = Some y)"
  by (induction xs) (auto simp: map_filter_simps split: option.splits)

end
