(* ===== verification/Go_Strings.thy ===== *)
theory Go_Strings
  imports Prelude
begin

text \<open>
  Go strings are byte sequences, so a string is a \<open>char list\<close> with one \<open>char\<close> per
  byte and \<open>length\<close> is Go's \<open>len\<close>. This theory models the functions of the packages
  \<open>strings\<close>, \<open>strconv\<close> and \<open>fmt\<close> that the repository calls.
\<close>

section \<open>Bytes\<close>

definition byte_of :: "char \<Rightarrow> nat" where
  "byte_of c = of_char c"

lemma byte_of_less [simp]: "byte_of c < 256"
  by (simp add: byte_of_def)

lemma byte_of_inj: "byte_of c = byte_of d \<longleftrightarrow> c = d"
  by (simp add: byte_of_def)

lemma byte_of_char_of: "n < 256 \<Longrightarrow> byte_of (char_of n) = n"
  by (simp add: byte_of_def)

definition is_digit :: "char \<Rightarrow> bool" where
  "is_digit c \<longleftrightarrow> 48 \<le> byte_of c \<and> byte_of c \<le> 57"

definition digit_val :: "char \<Rightarrow> nat" where
  "digit_val c = byte_of c - 48"

definition digit_char :: "nat \<Rightarrow> char" where
  "digit_char d = char_of (48 + d)"

lemma digit_char_digit [simp]: "d < 10 \<Longrightarrow> is_digit (digit_char d)"
  by (simp add: is_digit_def digit_char_def byte_of_char_of)

lemma digit_val_char [simp]: "d < 10 \<Longrightarrow> digit_val (digit_char d) = d"
  by (simp add: digit_val_def digit_char_def byte_of_char_of)

lemma digit_val_less: "is_digit c \<Longrightarrow> digit_val c < 10"
  by (auto simp: is_digit_def digit_val_def)

lemma not_digit_sep [simp]: "\<not> is_digit (CHR ''.'')" "\<not> is_digit (CHR ''/'')"
  "\<not> is_digit (CHR ''-'')" "\<not> is_digit (CHR '':'')"
  by (simp_all add: is_digit_def byte_of_def)

definition ascii_lower :: "char \<Rightarrow> char" where
  "ascii_lower c = (if 65 \<le> byte_of c \<and> byte_of c \<le> 90 then char_of (byte_of c + 32) else c)"

section \<open>Prefixes, suffixes, cutting\<close>

definition has_prefix :: "string \<Rightarrow> string \<Rightarrow> bool" where
  "has_prefix s p \<longleftrightarrow> take (length p) s = p"

definition has_suffix :: "string \<Rightarrow> string \<Rightarrow> bool" where
  "has_suffix s p \<longleftrightarrow> length p \<le> length s \<and> drop (length s - length p) s = p"

definition trim_prefix :: "string \<Rightarrow> string \<Rightarrow> string" where
  "trim_prefix s p = (if has_prefix s p then drop (length p) s else s)"

definition trim_suffix :: "string \<Rightarrow> string \<Rightarrow> string" where
  "trim_suffix s p = (if has_suffix s p then take (length s - length p) s else s)"

lemma has_prefix_append [simp]: "has_prefix (p @ s) p"
  by (simp add: has_prefix_def)

lemma has_prefix_Cons [simp]: "has_prefix (c # s) (d # p) \<longleftrightarrow> c = d \<and> has_prefix s p"
  by (auto simp: has_prefix_def)

lemma has_prefix_Nil [simp]: "has_prefix s []" "has_prefix [] p \<longleftrightarrow> p = []"
  by (auto simp: has_prefix_def)

lemma trim_prefix_append [simp]: "trim_prefix (p @ s) p = s"
  by (simp add: trim_prefix_def)

text \<open>\<open>strings.IndexByte\<close> as the split it is used for: the part before the first
  occurrence and the part after it (Go's \<open>strings.Cut\<close> on a one-byte separator).\<close>

fun cut :: "char \<Rightarrow> string \<Rightarrow> (string \<times> string) option" where
  "cut c [] = None"
| "cut c (x # s) =
     (if x = c then Some ([], s)
      else case cut c s of None \<Rightarrow> None | Some (a, b) \<Rightarrow> Some (x # a, b))"

lemma cut_None_iff [simp]: "cut c s = None \<longleftrightarrow> c \<notin> set s"
  by (induction s) (auto split: option.splits)

lemma cut_SomeD: "cut c s = Some (a, b) \<Longrightarrow> s = a @ c # b \<and> c \<notin> set a"
  by (induction s arbitrary: a b) (auto split: if_splits option.splits)

lemma cut_append [simp]: "c \<notin> set a \<Longrightarrow> cut c (a @ c # b) = Some (a, b)"
  by (induction a) auto

text \<open>The split at the last occurrence (\<open>bytealg.LastIndexByteString\<close>).\<close>

definition cut_last :: "char \<Rightarrow> string \<Rightarrow> (string \<times> string) option" where
  "cut_last c s = map_option (\<lambda>(a, b). (rev b, rev a)) (cut c (rev s))"

lemma cut_last_append [simp]: "c \<notin> set b \<Longrightarrow> cut_last c (a @ c # b) = Some (a, b)"
  by (simp add: cut_last_def)

lemma cut_last_None_iff [simp]: "cut_last c s = None \<longleftrightarrow> c \<notin> set s"
  by (simp add: cut_last_def)

text \<open>\<open>strings.Split\<close> on a one-byte separator.\<close>

fun split_on :: "char \<Rightarrow> string \<Rightarrow> string list" where
  "split_on c [] = [[]]"
| "split_on c (x # s) =
     (if x = c then [] # split_on c s
      else case split_on c s of [] \<Rightarrow> [[x]] | y # ys \<Rightarrow> (x # y) # ys)"

text \<open>\<open>strings.Join\<close>.\<close>

fun join :: "string \<Rightarrow> string list \<Rightarrow> string" where
  "join sep [] = []"
| "join sep [x] = x"
| "join sep (x # y # ys) = x @ sep @ join sep (y # ys)"

lemma split_on_not_Nil [simp]: "split_on c s \<noteq> []"
  by (induction s) (auto split: list.splits)

lemma split_on_append [simp]: "c \<notin> set a \<Longrightarrow> split_on c (a @ c # b) = a # split_on c b"
  by (induction a) auto

lemma split_on_single [simp]: "c \<notin> set a \<Longrightarrow> split_on c a = [a]"
  by (induction a) auto

lemma split_on_join:
  "xs \<noteq> [] \<Longrightarrow> \<forall>x \<in> set xs. c \<notin> set x \<Longrightarrow> split_on c (join [c] xs) = xs"
  by (induction "[c]" xs rule: join.induct) auto

text \<open>\<open>bufio.ScanLines\<close> drops one carriage return at the end of a line.\<close>

definition drop_cr :: "string \<Rightarrow> string" where
  "drop_cr l = (if l \<noteq> [] \<and> last l = CHR 0x0D then butlast l else l)"

section \<open>Trimming white space\<close>

text \<open>
  \<open>strings.TrimSpace\<close> removes leading and trailing runes for which
  \<open>unicode.IsSpace\<close> holds. In UTF-8 those runes are six one-byte sequences and the
  multi-byte encodings of U+0085, U+00A0, U+1680, U+2000 to U+200A, U+2028, U+2029, U+202F,
  U+205F and U+3000.
\<close>

definition bytes :: "nat list \<Rightarrow> string" where
  "bytes ns = map char_of ns"

definition space_runes :: "string list" where
  "space_runes = map bytes
     ([[9], [10], [11], [12], [13], [32], [0xC2, 0x85], [0xC2, 0xA0], [0xE1, 0x9A, 0x80]]
      @ map (\<lambda>k. [0xE2, 0x80, 0x80 + k]) [0..<11]
      @ [[0xE2, 0x80, 0xA8], [0xE2, 0x80, 0xA9], [0xE2, 0x80, 0xAF], [0xE2, 0x81, 0x9F],
         [0xE3, 0x80, 0x80]])"

definition lead_len :: "string list \<Rightarrow> string \<Rightarrow> nat" where
  "lead_len ps s = (case find (\<lambda>p. p \<noteq> [] \<and> has_prefix s p) ps of None \<Rightarrow> 0 | Some p \<Rightarrow> length p)"

lemma lead_len_pos: "0 < lead_len ps s \<Longrightarrow> s \<noteq> []"
  by (auto simp: lead_len_def find_Some_iff split: option.splits)

function trim_lead :: "string list \<Rightarrow> string \<Rightarrow> string" where
  "trim_lead ps s = (if lead_len ps s = 0 then s else trim_lead ps (drop (lead_len ps s) s))"
  by pat_completeness auto
termination
  by (relation "measure (\<lambda>(ps, s). length s)") (auto intro!: diff_less dest: lead_len_pos)

declare trim_lead.simps [simp del]

definition trim_space :: "string \<Rightarrow> string" where
  "trim_space s = rev (trim_lead (map rev space_runes) (rev (trim_lead space_runes s)))"

lemma trim_lead_idem: "lead_len ps (trim_lead ps s) = 0"
  by (induction ps s rule: trim_lead.induct) (subst trim_lead.simps, simp)

text \<open>A string that starts and ends with a printable ASCII byte is left alone.\<close>

definition printable :: "char \<Rightarrow> bool" where
  "printable c \<longleftrightarrow> 33 \<le> byte_of c \<and> byte_of c \<le> 126"

lemma byte_of_hd_space: "p \<in> set space_runes \<Longrightarrow> p \<noteq> [] \<and> \<not> printable (hd p) \<and> \<not> printable (last p)"
  by (auto simp: space_runes_def bytes_def printable_def byte_of_def)

lemma lead_len_printable:
  "printable c \<Longrightarrow> \<forall>p \<in> set ps. p \<noteq> [] \<and> \<not> printable (hd p) \<Longrightarrow> lead_len ps (c # s) = 0"
proof -
  assume c: "printable c" and ps: "\<forall>p \<in> set ps. p \<noteq> [] \<and> \<not> printable (hd p)"
  have "\<not> has_prefix (c # s) p" if "p \<in> set ps" for p
    using c ps that by (cases p) auto
  then have "find (\<lambda>p. p \<noteq> [] \<and> has_prefix (c # s) p) ps = None"
    by (auto simp: find_None_iff)
  then show ?thesis by (simp add: lead_len_def)
qed

lemma space_runes_shape:
  "\<forall>p \<in> set space_runes. p \<noteq> [] \<and> \<not> printable (hd p)"
  "\<forall>p \<in> set (map rev space_runes). p \<noteq> [] \<and> \<not> printable (hd p)"
  using byte_of_hd_space by (auto simp: hd_rev)

lemma trim_lead_printable:
  assumes "s = [] \<or> printable (hd s)" "\<forall>p \<in> set ps. p \<noteq> [] \<and> \<not> printable (hd p)"
  shows "trim_lead ps s = s"
proof (cases s)
  case Nil
  have "find (\<lambda>p. p \<noteq> [] \<and> has_prefix [] p) ps = None" by (auto simp: find_None_iff)
  then show ?thesis using Nil by (subst trim_lead.simps) (simp add: lead_len_def)
next
  case (Cons c t)
  then show ?thesis using lead_len_printable [OF _ assms(2), of c t] assms(1) by (subst trim_lead.simps) simp
qed

lemma trim_space_printable:
  assumes "s = [] \<or> printable (hd s) \<and> printable (last s)"
  shows "trim_space s = s"
proof -
  have "trim_lead space_runes s = s" "trim_lead (map rev space_runes) (rev s) = rev s"
    using assms by (auto intro!: trim_lead_printable space_runes_shape simp: hd_rev)
  then show ?thesis by (simp add: trim_space_def)
qed

lemma find_SomeD: "find P xs = Some x \<Longrightarrow> x \<in> set xs \<and> P x"
  by (induction xs) (auto split: if_splits)

lemma trim_space_newline:
  assumes "s \<noteq> []" "printable (hd s)" "printable (last s)"
  shows "trim_space (s @ [CHR 0x0A]) = s"
proof -
  have "trim_lead space_runes (s @ [CHR 0x0A]) = s @ [CHR 0x0A]"
    using assms by (intro trim_lead_printable space_runes_shape) simp
  moreover have "lead_len (map rev space_runes) (CHR 0x0A # t) = 1" for t
  proof -
    have nl: "[CHR 0x0A] \<in> set (map rev space_runes)"
      "\<forall>p \<in> set (map rev space_runes). hd p = CHR 0x0A \<longrightarrow> p = [CHR 0x0A]" by code_simp+
    then have "find (\<lambda>p. p \<noteq> [] \<and> has_prefix (CHR 0x0A # t) p) (map rev space_runes) \<noteq> None"
      unfolding find_None_iff by (metis has_prefix_Cons has_prefix_Nil(1) list.distinct(1))
    then obtain p where p: "find (\<lambda>p. p \<noteq> [] \<and> has_prefix (CHR 0x0A # t) p) (map rev space_runes) = Some p" by blast
    note f = find_SomeD [OF p]
    have "hd p = CHR 0x0A" using conjunct2 [OF f] by (cases p) simp_all
    then have "p = [CHR 0x0A]" using nl(2) conjunct1 [OF f] by blast
    then show ?thesis by (simp add: lead_len_def p)
  qed
  then have "trim_lead (map rev space_runes) (CHR 0x0A # rev s) = trim_lead (map rev space_runes) (rev s)"
    by (subst trim_lead.simps) simp
  moreover have "trim_lead (map rev space_runes) (rev s) = rev s"
    using assms by (intro trim_lead_printable space_runes_shape) (simp add: hd_rev)
  ultimately show ?thesis by (simp add: trim_space_def)
qed

lemma printable_digit: "is_digit c \<Longrightarrow> printable c"
  by (simp add: printable_def is_digit_def)

section \<open>Decimal numbers\<close>

text \<open>\<open>strconv.Itoa\<close> and the verb \<open>%d\<close>.\<close>

fun dec :: "nat \<Rightarrow> string" where
  "dec n = (if n < 10 then [digit_char n] else dec (n div 10) @ [digit_char (n mod 10)])"

declare dec.simps [simp del]

definition dec_int :: "int \<Rightarrow> string" where
  "dec_int i = (if i < 0 then ''-'' @ dec (nat (- i)) else dec (nat i))"

text \<open>The value of a digit string, most significant digit first.\<close>

definition digits_val :: "string \<Rightarrow> nat" where
  "digits_val s = foldl (\<lambda>v c. v * 10 + digit_val c) 0 s"

text \<open>A non-empty string of digits, read as a number.\<close>

definition parse_digits :: "string \<Rightarrow> nat option" where
  "parse_digits s = (if s \<noteq> [] \<and> list_all is_digit s then Some (digits_val s) else None)"

lemma dec_not_Nil [simp]: "dec n \<noteq> []"
  by (subst dec.simps) simp

lemma dec_digits [simp]: "list_all is_digit (dec n)"
proof (induction n rule: dec.induct)
  case (1 n)
  then show ?case by (subst dec.simps) simp
qed

lemma set_dec_digit: "c \<in> set (dec n) \<Longrightarrow> is_digit c"
  using dec_digits [of n] by (simp add: list_all_iff)

lemma sep_notin_dec [simp]: "CHR ''.'' \<notin> set (dec n)" "CHR ''/'' \<notin> set (dec n)"
  "CHR '':'' \<notin> set (dec n)"
  using set_dec_digit by fastforce+

lemma digits_val_snoc: "digits_val (s @ [c]) = digits_val s * 10 + digit_val c"
  by (simp add: digits_val_def)

lemma digits_val_dec [simp]: "digits_val (dec n) = n"
proof (induction n rule: dec.induct)
  case (1 n)
  show ?case
  proof (cases "n < 10")
    case True
    then show ?thesis by (subst dec.simps) (simp add: digits_val_def)
  next
    case False
    with 1 show ?thesis by (subst dec.simps) (simp add: digits_val_snoc)
  qed
qed

lemma parse_digits_dec [simp]: "parse_digits (dec n) = Some n"
  by (simp add: parse_digits_def)

lemma dec_inj: "dec m = dec n \<longleftrightarrow> m = n"
  by (metis digits_val_dec)

text \<open>No leading zero except for zero itself.\<close>

lemma dec_hd: "10 \<le> n \<Longrightarrow> hd (dec n) \<noteq> CHR ''0''"
proof (induction n rule: dec.induct)
  case (1 n)
  have z: "digit_char d \<noteq> CHR ''0''" if "0 < d" "d < 10" for d
    using that digit_val_char [of d] by (auto simp: digit_val_def byte_of_def simp del: digit_val_char)
  show ?case
  proof (cases "n div 10 < 10")
    case True
    then have "hd (dec (n div 10)) = digit_char (n div 10)" by (subst dec.simps) simp
    moreover have "0 < n div 10" using 1(2) by simp
    ultimately show ?thesis using 1(2) z [of "n div 10"] True by (subst dec.simps) simp
  next
    case False
    with 1 show ?thesis by (subst dec.simps) simp
  qed
qed

lemma length_dec_1: "n < 10 \<Longrightarrow> length (dec n) = 1"
  by (subst dec.simps) simp

text \<open>\<open>strconv.ParseInt\<close> in base ten for 64 bits: an optional sign, digits, and the range.\<close>

definition parse_int64 :: "string \<Rightarrow> int option" where
  "parse_int64 s =
     (case s of
        [] \<Rightarrow> None
      | c # t \<Rightarrow>
          (case parse_digits (if c = CHR ''-'' \<or> c = CHR ''+'' then t else s) of
             None \<Rightarrow> None
           | Some n \<Rightarrow>
               let i = (if c = CHR ''-'' then - int n else int n) in
               if - (2 ^ 63) \<le> i \<and> i < 2 ^ 63 then Some i else None))"

end
