(* ===== verification/Netip.thy ===== *)
theory Netip
  imports Go_Strings
begin

text \<open>
  Go's \<open>net/netip\<close> (and the parts of \<open>net\<close> built on it) as far as the repository uses it:
  addresses, prefixes, their text form, containment, overlap and order. An IPv4 address is a
  \<open>32 word\<close>, an IPv6 address a \<open>128 word\<close> with its zone; \<open>NoAddr\<close> is the zero
  \<open>netip.Addr\<close>.
\<close>

unbundle bit_operations_syntax

section \<open>Addresses\<close>

datatype addr = NoAddr | V4 "32 word" | V6 "128 word" string

fun is4 :: "addr \<Rightarrow> bool" where
  "is4 (V4 _) = True"
| "is4 _ = False"

fun unmap :: "addr \<Rightarrow> addr" where
  "unmap (V6 w z) = (if drop_bit 32 w = 0xFFFF then V4 (ucast w) else V6 w z)"
| "unmap a = a"

fun addr_zone :: "addr \<Rightarrow> string" where
  "addr_zone (V6 _ z) = z"
| "addr_zone _ = []"

lemma is4_iff: "is4 a \<longleftrightarrow> (\<exists>w. a = V4 w)"
  by (cases a) auto

text \<open>The four octets, most significant first, and \<open>Addr.String\<close> for IPv4.\<close>

definition octet :: "nat \<Rightarrow> 32 word \<Rightarrow> nat" where
  "octet k w = unat (drop_bit (8 * k) w) mod 256"

definition v4_string :: "32 word \<Rightarrow> string" where
  "v4_string w = dec (octet 3 w) @ ''.'' @ dec (octet 2 w) @ ''.'' @ dec (octet 1 w) @ ''.''
     @ dec (octet 0 w)"

definition v4_of_octets :: "nat list \<Rightarrow> 32 word" where
  "v4_of_octets fs = of_nat (foldl (\<lambda>a b. a * 256 + b) 0 fs)"

text \<open>Classes of IPv4 addresses tested by \<open>IsPrivate\<close>, \<open>IsLoopback\<close>,
  \<open>IsLinkLocalUnicast\<close> and \<open>IsMulticast\<close>.\<close>

definition v4_private :: "32 word \<Rightarrow> bool" where
  "v4_private w \<longleftrightarrow> octet 3 w = 10
     \<or> octet 3 w = 172 \<and> octet 2 w div 16 = 1
     \<or> octet 3 w = 192 \<and> octet 2 w = 168"

definition v4_loopback :: "32 word \<Rightarrow> bool" where
  "v4_loopback w \<longleftrightarrow> octet 3 w = 127"

definition v4_link_local :: "32 word \<Rightarrow> bool" where
  "v4_link_local w \<longleftrightarrow> octet 3 w = 169 \<and> octet 2 w = 254"

definition v4_multicast :: "32 word \<Rightarrow> bool" where
  "v4_multicast w \<longleftrightarrow> octet 3 w div 16 = 14"

section \<open>Parsing addresses\<close>

text \<open>\<open>parseIPv4Fields\<close>: the loop over the bytes with the octet read so far, its number
  of digits, the octets finished and the byte before.\<close>

fun v4_fields :: "char option \<Rightarrow> nat \<Rightarrow> nat \<Rightarrow> nat list \<Rightarrow> string \<Rightarrow> nat list option" where
  "v4_fields prev v dl fs [] = (if length fs < 3 then None else Some (fs @ [v]))"
| "v4_fields prev v dl fs (c # s) =
     (if is_digit c then
        if dl = 1 \<and> v = 0 then None
        else let v' = v * 10 + digit_val c in
          if v' > 255 then None else v4_fields (Some c) v' (dl + 1) fs s
      else if c = CHR ''.'' then
        if prev = None \<or> s = [] \<or> prev = Some (CHR ''.'') then None
        else if length fs = 3 then None
        else v4_fields (Some c) 0 0 (fs @ [v]) s
      else None)"

definition parse_v4 :: "string \<Rightarrow> addr option" where
  "parse_v4 s = map_option (V4 \<circ> v4_of_octets) (v4_fields None 0 0 [] s)"

definition hex_val :: "char \<Rightarrow> nat option" where
  "hex_val c =
     (let b = byte_of c in
      if 48 \<le> b \<and> b \<le> 57 then Some (b - 48)
      else if 97 \<le> b \<and> b \<le> 102 then Some (b - 87)
      else if 65 \<le> b \<and> b \<le> 70 then Some (b - 55)
      else None)"

text \<open>One group of hexadecimal digits of an IPv6 address: the number of digits read, their
  value and what follows.\<close>

fun hex_run :: "nat \<Rightarrow> nat \<Rightarrow> string \<Rightarrow> (nat \<times> nat \<times> string) option" where
  "hex_run off acc [] = Some (off, acc, [])"
| "hex_run off acc (c # s) =
     (case hex_val c of None \<Rightarrow> Some (off, acc, c # s)
      | Some v \<Rightarrow>
          let acc' = acc * 16 + v in
          if off > 3 \<or> acc' > 65535 then None else hex_run (off + 1) acc' s)"

text \<open>The main loop of \<open>parseIPv6\<close>: the bytes found so far, the position of the
  ellipsis and the rest of the input.\<close>

function v6_loop :: "nat list \<Rightarrow> nat option \<Rightarrow> string \<Rightarrow> (nat list \<times> nat option \<times> string) option"
where
  "v6_loop ip ell s =
     (if length ip \<ge> 16 then Some (ip, ell, s)
      else case hex_run 0 0 s of None \<Rightarrow> None
      | Some (off, acc, r) \<Rightarrow>
          if off = 0 then None
          else if r \<noteq> [] \<and> hd r = CHR ''.'' then
            if ell = None \<and> length ip \<noteq> 12 then None
            else if length ip + 4 > 16 then None
            else map_option (\<lambda>fs. (ip @ fs, ell, [])) (v4_fields None 0 0 [] s)
          else let ip' = ip @ [acc div 256, acc mod 256] in
            case r of [] \<Rightarrow> Some (ip', ell, [])
            | c # r1 \<Rightarrow>
                if c \<noteq> CHR '':'' then None
                else case r1 of [] \<Rightarrow> None
                  | c2 # r2 \<Rightarrow>
                      if c2 = CHR '':'' then
                        if ell \<noteq> None then None
                        else if r2 = [] then Some (ip', Some (length ip'), [])
                        else v6_loop ip' (Some (length ip')) r2
                      else v6_loop ip' ell r1)"
  by pat_completeness auto
termination
  by (relation "measure (\<lambda>(ip, ell, s). 16 - length ip)") auto

declare v6_loop.simps [simp del]

definition v6_of_bytes :: "nat list \<Rightarrow> 128 word" where
  "v6_of_bytes bs = of_nat (foldl (\<lambda>a b. a * 256 + b) 0 bs)"

definition v6_finish :: "string \<Rightarrow> nat list \<times> nat option \<times> string \<Rightarrow> addr option" where
  "v6_finish zone = (\<lambda>(ip, ell, s).
     if s \<noteq> [] then None
     else if length ip < 16 then
       case ell of None \<Rightarrow> None
       | Some e \<Rightarrow>
           Some (V6 (v6_of_bytes (take e ip @ replicate (16 - length ip) 0 @ drop e ip)) zone)
     else if ell \<noteq> None then None
     else Some (V6 (v6_of_bytes ip) zone))"

definition parse_v6 :: "string \<Rightarrow> addr option" where
  "parse_v6 s =
     (case (case cut (CHR ''%'') s of None \<Rightarrow> Some (s, [])
            | Some (a, z) \<Rightarrow> if z = [] then None else Some (a, z)) of
        None \<Rightarrow> None
      | Some (a, z) \<Rightarrow>
          if has_prefix a ''::'' then
            if drop 2 a = [] then Some (V6 0 z)
            else Option.bind (v6_loop [] (Some 0) (drop 2 a)) (v6_finish z)
          else Option.bind (v6_loop [] None a) (v6_finish z))"

text \<open>\<open>netip.ParseAddr\<close>: the first of the bytes \<open>.\<close>, \<open>:\<close> and \<open>%\<close> decides.\<close>

definition parse_addr :: "string \<Rightarrow> addr option" where
  "parse_addr s =
     (case find (\<lambda>c. c = CHR ''.'' \<or> c = CHR '':'' \<or> c = CHR ''%'') s of
        None \<Rightarrow> None
      | Some c \<Rightarrow>
          if c = CHR ''.'' then parse_v4 s
          else if c = CHR '':'' then parse_v6 s
          else None)"

section \<open>Prefixes\<close>

datatype prefix = Prefix (pfx_addr: addr) (pfx_bits: nat)

fun bit_len :: "addr \<Rightarrow> nat" where
  "bit_len NoAddr = 0"
| "bit_len (V4 _) = 32"
| "bit_len (V6 _ _) = 128"

text \<open>\<open>Prefix.IsValid\<close>; every prefix the repository builds is valid.\<close>

fun pfx_valid :: "prefix \<Rightarrow> bool" where
  "pfx_valid (Prefix NoAddr _) = False"
| "pfx_valid (Prefix (V4 _) b) = (b \<le> 32)"
| "pfx_valid (Prefix (V6 _ z) b) = (b \<le> 128 \<and> z = [])"

definition v4_mask :: "nat \<Rightarrow> 32 word \<Rightarrow> 32 word" where
  "v4_mask b w = w AND NOT (mask (32 - b))"

text \<open>\<open>Prefix.Masked\<close>.\<close>

fun masked :: "prefix \<Rightarrow> prefix" where
  "masked (Prefix NoAddr b) = Prefix NoAddr b"
| "masked (Prefix (V4 w) b) = Prefix (V4 (v4_mask b w)) b"
| "masked (Prefix (V6 w z) b) = Prefix (V6 (w AND NOT (mask (128 - b))) z) b"

text \<open>\<open>Prefix.Contains\<close>: the bits above the host part agree.\<close>

fun contains :: "prefix \<Rightarrow> addr \<Rightarrow> bool" where
  "contains (Prefix (V4 p) b) (V4 a) = (b \<le> 32 \<and> drop_bit (32 - b) (a XOR p) = 0)"
| "contains (Prefix (V6 p z) b) (V6 a z') =
     (b \<le> 128 \<and> z = [] \<and> z' = [] \<and> drop_bit (128 - b) (a XOR p) = 0)"
| "contains _ _ = False"

text \<open>\<open>Prefix.Overlaps\<close>.\<close>

definition overlaps :: "prefix \<Rightarrow> prefix \<Rightarrow> bool" where
  "overlaps p q =
     (if \<not> pfx_valid p \<or> \<not> pfx_valid q then False
      else if p = q then True
      else if is4 (pfx_addr p) \<noteq> is4 (pfx_addr q) then False
      else let m = min (pfx_bits p) (pfx_bits q) in
        if m = 0 then True
        else masked (Prefix (pfx_addr p) m) = masked (Prefix (pfx_addr q) m))"

text \<open>\<open>Addr.Compare\<close>: by length, then by value, then by zone.\<close>

fun addr_key :: "addr \<Rightarrow> nat \<times> nat \<times> string" where
  "addr_key NoAddr = (0, 0, [])"
| "addr_key (V4 w) = (32, unat w, [])"
| "addr_key (V6 w z) = (128, unat w, z)"

text \<open>\<open>Addr.Compare\<close> as the order of the type, and prefixes by address and then by length.\<close>

lemma addr_key_inj: "addr_key a = addr_key b \<longleftrightarrow> a = b"
  by (cases a; cases b) (auto simp: word_unat_eq_iff)

instantiation addr :: linorder
begin

definition less_eq_addr :: "addr \<Rightarrow> addr \<Rightarrow> bool" where
  "less_eq_addr a b \<longleftrightarrow> addr_key a \<le> addr_key b"

definition less_addr :: "addr \<Rightarrow> addr \<Rightarrow> bool" where
  "less_addr a b \<longleftrightarrow> addr_key a < addr_key b"

instance
  by standard (auto simp: less_eq_addr_def less_addr_def addr_key_inj [symmetric])

end

definition pfx_key :: "prefix \<Rightarrow> (nat \<times> nat \<times> string) \<times> nat" where
  "pfx_key p = (addr_key (pfx_addr p), pfx_bits p)"

lemma pfx_key_inj: "pfx_key p = pfx_key q \<longleftrightarrow> p = q"
  by (cases p; cases q) (auto simp: pfx_key_def addr_key_inj)

instantiation prefix :: linorder
begin

definition less_eq_prefix :: "prefix \<Rightarrow> prefix \<Rightarrow> bool" where
  "less_eq_prefix p q \<longleftrightarrow> pfx_key p \<le> pfx_key q"

definition less_prefix :: "prefix \<Rightarrow> prefix \<Rightarrow> bool" where
  "less_prefix p q \<longleftrightarrow> pfx_key p < pfx_key q"

instance
  by standard (auto simp: less_eq_prefix_def less_prefix_def pfx_key_inj [symmetric])

end

lemma sorted_prefixes: "sorted ps \<longleftrightarrow> sorted (map pfx_key ps)"
  by (induction ps) (simp_all add: less_eq_prefix_def)

lemma less_prefix_iff: "p < q \<longleftrightarrow>
    (if pfx_addr p \<noteq> pfx_addr q then pfx_addr p < pfx_addr q else pfx_bits p < pfx_bits q)"
  using addr_key_inj [of "pfx_addr p" "pfx_addr q"]
  by (auto simp: less_prefix_def less_addr_def pfx_key_def le_less)

text \<open>\<open>Addr.String\<close>: IPv6 is written in groups, with the first longest run of at least two
  zero groups left out; an address mapped from IPv4 keeps the dotted form.\<close>

definition hex_digit :: "nat \<Rightarrow> char" where
  "hex_digit d = (if d < 10 then char_of (48 + d) else char_of (87 + d))"

fun hex :: "nat \<Rightarrow> string" where
  "hex n = (if n < 16 then [hex_digit n] else hex (n div 16) @ [hex_digit (n mod 16)])"

declare hex.simps [simp del]

definition v6_groups :: "128 word \<Rightarrow> nat list" where
  "v6_groups w = map (\<lambda>k. unat (drop_bit (16 * (7 - k)) w) mod 65536) [0..<8]"

definition zero_run :: "nat list \<Rightarrow> nat \<times> nat" where
  "zero_run gs = foldl (\<lambda>(s, l) i. let r = length (takeWhile (\<lambda>g. g = 0) (drop i gs)) in
     if r \<ge> 2 \<and> r > l then (i, r) else (s, l)) (0, 0) [0..<length gs]"

definition v6_string :: "128 word \<Rightarrow> string" where
  "v6_string w =
     (if drop_bit 32 w = 0xFFFF then ''::ffff:'' @ v4_string (ucast w)
      else let gs = v6_groups w; (s, l) = zero_run gs; text = (\<lambda>xs. join '':'' (map hex xs)) in
        if l = 0 then text gs else text (take s gs) @ ''::'' @ text (drop (s + l) gs))"

fun addr_string :: "addr \<Rightarrow> string" where
  "addr_string NoAddr = ''invalid IP''"
| "addr_string (V4 w) = v4_string w"
| "addr_string (V6 w z) = v6_string w @ (if z = [] then [] else ''%'' @ z)"

text \<open>\<open>Prefix.String\<close>.\<close>

fun pfx_string :: "prefix \<Rightarrow> string" where
  "pfx_string (Prefix (V4 w) b) = v4_string w @ ''/'' @ dec b"
| "pfx_string (Prefix (V6 w z) b) = addr_string (V6 w z) @ ''/'' @ dec b"
| "pfx_string (Prefix NoAddr b) = ''invalid Prefix''"

text \<open>\<open>netip.ParsePrefix\<close>: no zone, no sign and no leading zero in the length.\<close>

definition parse_prefix :: "string \<Rightarrow> prefix option" where
  "parse_prefix s =
     (case cut_last (CHR ''/'') s of None \<Rightarrow> None
      | Some (a, b) \<Rightarrow>
          case parse_addr a of None \<Rightarrow> None
          | Some ip \<Rightarrow>
              if addr_zone ip \<noteq> [] then None
              else if length b > 1 \<and> (byte_of (hd b) < 49 \<or> byte_of (hd b) > 57) then None
              else case parse_digits b of None \<Rightarrow> None
                | Some n \<Rightarrow> if n > bit_len ip then None else Some (Prefix ip n))"

text \<open>\<open>net.ParseCIDR\<close> as a test: the older package splits at the first slash, reads
  the length with \<open>dtoi\<close> (leading zeros are fine, values from 0xFFFFFF on are not) and
  refuses zones.\<close>

definition parse_cidr :: "string \<Rightarrow> prefix option" where
  "parse_cidr s =
     (case cut (CHR ''/'') s of None \<Rightarrow> None
      | Some (a, b) \<Rightarrow>
          case parse_addr a of None \<Rightarrow> None
          | Some ip \<Rightarrow>
              if addr_zone ip \<noteq> [] then None
              else case parse_digits b of None \<Rightarrow> None
                | Some n \<Rightarrow>
                    if n \<ge> 0xFFFFFF \<or> n > bit_len ip then None else Some (masked (Prefix ip n)))"

section \<open>Facts about IPv4 words\<close>

lemma octet_less [simp]: "octet k w < 256"
  by (simp add: octet_def)

lemma unat_drop_bit_div: "unat (drop_bit k w) = unat w div 2 ^ k"
proof -
  have "unat (drop_bit k w) = drop_bit k (unat w)" by (rule unat_drop_bit_eq)
  also have "\<dots> = unat w div 2 ^ k" by (rule drop_bit_eq_div)
  finally show ?thesis .
qed

lemma v4_of_octets_octets: "v4_of_octets [octet 3 w, octet 2 w, octet 1 w, octet 0 w] = w"
proof -
  let ?n = "unat w"
  have lt: "?n < 2 ^ 32" using unsigned_less [of w, where ?'a = nat] by simp
  have o: "octet k w = ?n div 2 ^ (8 * k) mod 256" for k
    by (simp add: octet_def unat_drop_bit_div)
  have "((octet 3 w * 256 + octet 2 w) * 256 + octet 1 w) * 256 + octet 0 w = ?n"
  proof -
    have step: "m div 256 * 256 + m mod 256 = m" for m :: nat by simp
    have "?n div 16777216 mod 256 = ?n div 65536 div 256" "?n div 65536 = ?n div 256 div 256"
      using lt by (simp_all flip: div_mult2_eq)
    then show ?thesis unfolding o using step [of "?n div 65536"] step [of "?n div 256"] step [of ?n]
      by simp
  qed
  then show ?thesis by (simp add: v4_of_octets_def flip: of_nat_add of_nat_mult)
qed

lemma unat_v4_mask:
  "unat (v4_mask b w) = unat w div 2 ^ (32 - b) * 2 ^ (32 - b)"
proof -
  let ?k = "32 - b"
  have "w AND NOT (mask ?k) = push_bit ?k (drop_bit ?k w)"
    by (rule bit_word_eqI) (auto simp: bit_simps)
  moreover have "unat (push_bit ?k (drop_bit ?k w)) = unat w div 2 ^ ?k * 2 ^ ?k"
  proof -
    have "unat w div 2 ^ ?k * 2 ^ ?k \<le> unat w" by simp
    also have "\<dots> < 2 ^ 32" using unsigned_less [of w, where ?'a = nat] by simp
    finally have "unat w div 2 ^ ?k * 2 ^ ?k < 2 ^ 32" .
    then have "take_bit 32 (unat w div 2 ^ ?k * 2 ^ ?k) = unat w div 2 ^ ?k * 2 ^ ?k"
      by (rule take_bit_nat_eq_self)
    then show ?thesis
      by (simp add: unsigned_push_bit_eq [unfolded push_bit_eq_mult] unat_drop_bit_div push_bit_eq_mult)
  qed
  ultimately show ?thesis by (simp add: v4_mask_def)
qed

lemma xor_eq_zero_word: "(x :: 32 word) XOR y = 0 \<longleftrightarrow> x = y"
proof
  assume "x XOR y = 0"
  then have "(x XOR y) XOR y = y" by simp
  then show "x = y" by (simp add: xor.assoc)
qed simp

lemma contains_V4 [go_simps]:
  "contains (Prefix (V4 p) b) (V4 a) \<longleftrightarrow>
     b \<le> 32 \<and> unat a div 2 ^ (32 - b) = unat p div 2 ^ (32 - b)"
proof -
  have "drop_bit k (a XOR p) = 0 \<longleftrightarrow> drop_bit k a = drop_bit k p" for k
    by (simp add: drop_bit_xor xor_eq_zero_word)
  also have "drop_bit k a = drop_bit k p \<longleftrightarrow> unat a div 2 ^ k = unat p div 2 ^ k" for k
    by (metis unat_drop_bit_div word_unat_eq_iff)
  finally show ?thesis by auto
qed

lemma contains_NoV4 [simp]: "contains (Prefix NoAddr b) a = False" "contains p NoAddr = False"
  by (cases a; simp) (cases "(p, NoAddr)" rule: contains.cases; simp)

section \<open>Printing and parsing\<close>

lemma v4_fields_digits:
  assumes "list_all is_digit ds" "dl = 0 \<or> v \<noteq> 0 \<or> ds = []"
    "foldl (\<lambda>v c. v * 10 + digit_val c) v ds \<le> 255"
    "ds \<noteq> [] \<and> dl = 0 \<longrightarrow> hd ds \<noteq> CHR ''0'' \<or> length ds = 1"
  shows "v4_fields prev v dl fs (ds @ s) =
    v4_fields (if ds = [] then prev else Some (last ds)) (foldl (\<lambda>v c. v * 10 + digit_val c) v ds)
      (dl + length ds) fs s"
  using assms
proof (induction ds arbitrary: prev v dl)
  case Nil
  then show ?case by simp
next
  case (Cons c ds)
  let ?v = "v * 10 + digit_val c"
  have mono: "x \<le> foldl (\<lambda>v c. v * 10 + digit_val c) x ds" for x
  proof (induction ds arbitrary: x)
    case (Cons d ds)
    have "x \<le> x * 10 + digit_val d" by simp
    also have "\<dots> \<le> foldl (\<lambda>v c. v * 10 + digit_val c) (x * 10 + digit_val d) ds" by (rule Cons)
    finally show ?case by simp
  qed simp
  have c: "is_digit c" using Cons.prems(1) by simp
  have le: "?v \<le> 255" using mono [of ?v] Cons.prems(3) by simp
  have nz: "\<not> (dl = 1 \<and> v = 0)" using Cons.prems(2) by auto
  have dz: "digit_val c \<noteq> 0" if "c \<noteq> CHR ''0''"
    using that c byte_of_inj [of c "CHR ''0''"] by (auto simp: digit_val_def is_digit_def byte_of_def)
  have "dl + 1 = 0 \<or> ?v \<noteq> 0 \<or> ds = []"
    using Cons.prems(2,4) dz by (cases "dl = 0") auto
  then have "v4_fields (Some c) ?v (dl + 1) fs (ds @ s) =
    v4_fields (if ds = [] then Some c else Some (last ds))
      (foldl (\<lambda>v c. v * 10 + digit_val c) ?v ds) (dl + 1 + length ds) fs s"
    using Cons.prems by (intro Cons.IH) auto
  then show ?case using c le nz by (auto simp: Let_def)
qed

lemma dec_hd_zero: "hd (dec n) \<noteq> CHR ''0'' \<or> length (dec n) = 1"
  using dec_hd [of n] length_dec_1 [of n] by linarith

lemma v4_fields_dec:
  "n < 256 \<Longrightarrow> v4_fields prev 0 0 fs (dec n @ s) =
     v4_fields (Some (last (dec n))) n (length (dec n)) fs s"
  using v4_fields_digits [of "dec n" 0 0 prev fs s] dec_hd_zero [of n]
  by (auto simp flip: digits_val_def)

lemma last_dec_digit [simp]: "last (dec n) \<noteq> CHR ''.''"
  by (metis dec_not_Nil last_in_set sep_notin_dec(1))

lemma v4_fields_v4_string: "v4_fields None 0 0 [] (v4_string w) =
    Some [octet 3 w, octet 2 w, octet 1 w, octet 0 w]"
  using v4_fields_dec [where s = "[]"] by (simp add: v4_string_def v4_fields_dec)

lemma parse_v4_string [simp]: "parse_v4 (v4_string w) = Some (V4 w)"
  by (simp add: parse_v4_def v4_fields_v4_string v4_of_octets_octets del: One_nat_def)

lemma find_sep_digits:
  "list_all is_digit ds \<Longrightarrow>
     find (\<lambda>c. c = CHR ''.'' \<or> c = CHR '':'' \<or> c = CHR ''%'') (ds @ CHR ''.'' # s) = Some (CHR ''.'')"
proof (induction ds)
  case (Cons d ds)
  have "\<not> is_digit (CHR ''%'')" by (simp add: is_digit_def byte_of_def)
  with Cons show ?case by auto
qed simp

lemma parse_addr_v4_string [simp]: "parse_addr (v4_string w) = Some (V4 w)"
  using find_sep_digits [of "dec (octet 3 w)"] parse_v4_string [of w]
  by (simp add: parse_addr_def v4_string_def del: parse_v4_string)

lemma slash_notin_v4 [simp]: "CHR ''/'' \<notin> set (v4_string w)"
  by (simp add: v4_string_def)

lemma hd_dec_range: "\<not> (length (dec b) > 1 \<and> (byte_of (hd (dec b)) < 49 \<or> byte_of (hd (dec b)) > 57))"
proof -
  have d: "is_digit (hd (dec b))" by (rule set_dec_digit [of _ b]) simp
  have "byte_of (hd (dec b)) \<noteq> 48" if "length (dec b) > 1"
    using that dec_hd_zero [of b] byte_of_inj [of "hd (dec b)" "CHR ''0''"]
    by (auto simp: byte_of_def)
  with d show ?thesis by (auto simp: is_digit_def)
qed

lemma parse_prefix_string [simp]:
  "b \<le> 32 \<Longrightarrow> parse_prefix (pfx_string (Prefix (V4 w) b)) = Some (Prefix (V4 w) b)"
  using hd_dec_range [of b] by (auto simp: parse_prefix_def)

lemma parse_cidr_string [simp]:
  "b \<le> 32 \<Longrightarrow> parse_cidr (pfx_string (Prefix (V4 w) b)) = Some (masked (Prefix (V4 w) b))"
  by (simp add: parse_cidr_def)

lemma parse_prefix_valid: "parse_prefix s = Some p \<Longrightarrow> pfx_valid p \<or> pfx_addr p = NoAddr"
  by (cases "pfx_addr p")
    (auto simp: parse_prefix_def split: option.splits prod.splits if_splits)

lemma parse_prefix_bits: "parse_prefix s = Some (Prefix (V4 w) b) \<Longrightarrow> b \<le> 32"
  by (auto simp: parse_prefix_def split: option.splits prod.splits if_splits)

section \<open>Host and port\<close>

text \<open>\<open>net.SplitHostPort\<close>: the host before the last colon, in brackets when it has colons.\<close>

definition index_of :: "char \<Rightarrow> string \<Rightarrow> nat option" where
  "index_of c s = (case cut c s of None \<Rightarrow> None | Some (a, b) \<Rightarrow> Some (length a))"

definition last_index :: "char \<Rightarrow> string \<Rightarrow> nat option" where
  "last_index c s = (case cut_last c s of None \<Rightarrow> None | Some (a, b) \<Rightarrow> Some (length a))"

definition split_host_port :: "string \<Rightarrow> (string \<times> string) option" where
  "split_host_port s =
     (case last_index (CHR '':'') s of
        None \<Rightarrow> None
      | Some i \<Rightarrow>
          if hd s = CHR ''['' then
            (case index_of (CHR '']'') s of
               None \<Rightarrow> None
             | Some e \<Rightarrow>
                 if e + 1 \<noteq> i then None
                 else if CHR ''['' \<in> set (drop 1 s) \<or> CHR '']'' \<in> set (drop (e + 1) s) then None
                 else Some (drop 1 (take e s), drop (i + 1) s))
          else if CHR '':'' \<in> set (take i s) then None
          else if CHR ''['' \<in> set s \<or> CHR '']'' \<in> set s then None
          else Some (take i s, drop (i + 1) s))"

end
