(* ===== verification/Profile_Build.thy ===== *)
theory Profile_Build
  imports Netip
begin

text \<open>
  \<open>internal/profile/build.go\<close>: how observed addresses become the narrow list of prefixes
  a player's machine routes. The definitions follow \<open>Build\<close> and its helpers; the
  specification is the set of IPv4 addresses a list of prefixes covers.
\<close>

section \<open>Data\<close>

record options =
  MaxPrefixWidth :: int
  NarrowestPrefixWidth :: int
  MaxTotalAddresses :: "64 word"

definition default_options :: options where
  "default_options = \<lparr>MaxPrefixWidth = 20, NarrowestPrefixWidth = 24, MaxTotalAddresses = 131072\<rparr>"

record source =
  src_prefix :: prefix
  src_region :: string
  src_anycast :: bool

record profile_result =
  CIDRs :: "string list"
  Unverified :: "string list"
  AppliedWidth :: int
  TotalAddresses :: "64 word"

datatype profile_error = ErrNoSources | Unreachable

record match =
  m_addr :: addr
  m_source :: source

section \<open>Matching and widening\<close>

text \<open>\<open>matchAddr\<close>: the loop keeps the narrowest source seen so far that contains the
  address.\<close>

fun best_source :: "addr \<Rightarrow> source option \<Rightarrow> source list \<Rightarrow> source option" where
  "best_source a best [] = best"
| "best_source a best (s # ss) =
     (if \<not> contains (src_prefix s) a then best_source a best ss
      else case best of
        None \<Rightarrow> best_source a (Some s) ss
      | Some b \<Rightarrow>
          if pfx_bits (src_prefix s) > pfx_bits (src_prefix b) then best_source a (Some s) ss
          else best_source a best ss)"

definition match_addr :: "addr \<Rightarrow> source list \<Rightarrow> match option" where
  "match_addr a sources =
     map_option (\<lambda>s. \<lparr>m_addr = a, m_source = s\<rparr>) (best_source a None sources)"

definition widen :: "match \<Rightarrow> int \<Rightarrow> prefix" where
  "widen m width =
     (if src_anycast (m_source m) then Prefix (m_addr m) 32
      else let bits = pfx_bits (src_prefix (m_source m));
               bits' = (if int bits < width then nat width else bits)
           in masked (Prefix (m_addr m) bits'))"

definition widen_all :: "match list \<Rightarrow> int \<Rightarrow> prefix list" where
  "widen_all ms width = map (\<lambda>m. widen m width) ms"

section \<open>Compacting\<close>

definition sort_prefixes :: "prefix list \<Rightarrow> prefix list" where
  "sort_prefixes ps = sort ps"

text \<open>The indices \<open>i \<noteq> j\<close> of the source need no mention: a strictly wider prefix is
  another element.\<close>

definition drop_covered :: "prefix list \<Rightarrow> prefix list" where
  "drop_covered ps = filter (\<lambda>p. \<not> (\<exists>q \<in> set ps. pfx_bits q < pfx_bits p \<and> overlaps q p)) ps"

definition siblings :: "prefix \<Rightarrow> prefix \<Rightarrow> bool" where
  "siblings a b \<longleftrightarrow>
     pfx_bits a = pfx_bits b \<and> pfx_bits a > 0 \<and>
     (let parent = masked (Prefix (pfx_addr a) (pfx_bits a - 1)) in
        contains parent (pfx_addr a) \<and> contains parent (pfx_addr b) \<and>
        masked a = a \<and> pfx_addr parent = pfx_addr a)"

fun merge_pass :: "prefix list \<Rightarrow> prefix list \<times> bool" where
  "merge_pass [] = ([], False)"
| "merge_pass [a] = ([a], False)"
| "merge_pass (a # b # rest) =
     (if siblings a b then
        let (out, _) = merge_pass rest in (masked (Prefix (pfx_addr a) (pfx_bits a - 1)) # out, True)
      else let (out, changed) = merge_pass (b # rest) in (a # out, changed))"

definition merge_siblings :: "prefix list \<Rightarrow> prefix list \<times> bool" where
  "merge_siblings ps = merge_pass (sort_prefixes ps)"

lemma length_merge_pass:
  "length (fst (merge_pass ps)) \<le> length ps"
  "snd (merge_pass ps) \<Longrightarrow> length (fst (merge_pass ps)) < length ps"
  by (induction ps rule: merge_pass.induct) (auto simp: Let_def split: prod.splits)

function compact_loop :: "prefix list \<Rightarrow> prefix list" where
  "compact_loop ps =
     (let (merged, changed) = merge_siblings (drop_covered ps) in
      if changed then compact_loop merged else merged)"
  by pat_completeness auto
termination
proof (relation "measure length")
  fix ps :: "prefix list" and x merged changed
  assume x: "x = merge_siblings (drop_covered ps)" "(merged, changed) = x" "changed"
  have "snd (merge_pass (sort_prefixes (drop_covered ps)))"
    using x by (metis merge_siblings_def snd_conv)
  then have "length merged < length (sort_prefixes (drop_covered ps))"
    using x length_merge_pass(2) by (metis fst_conv merge_siblings_def)
  also have "\<dots> \<le> length ps" by (simp add: sort_prefixes_def drop_covered_def)
  finally show "(merged, ps) \<in> measure length" by simp
qed simp

declare compact_loop.simps [simp del]

text \<open>The set \<open>uniq\<close> is filled with the masked prefixes and its keys, in an order Go
  leaves open, are then sorted; the sort makes that order irrelevant.\<close>

definition compact :: "prefix list \<Rightarrow> prefix list" where
  "compact ps = compact_loop (sort_prefixes (remdups (map masked ps)))"

definition count_addresses :: "prefix list \<Rightarrow> 64 word" where
  "count_addresses ps = foldl (\<lambda>n p. n + push_bit (32 - pfx_bits p) 1) 0 ps"

section \<open>Build\<close>

fun matched_of :: "addr list \<Rightarrow> source list \<Rightarrow> match list" where
  "matched_of [] sources = []"
| "matched_of (a # as) sources =
     (if \<not> is4 a then matched_of as sources
      else case match_addr a sources of
        Some m \<Rightarrow> m # matched_of as sources
      | None \<Rightarrow> matched_of as sources)"

fun unverified_of :: "addr list \<Rightarrow> source list \<Rightarrow> string list" where
  "unverified_of [] sources = []"
| "unverified_of (V4 w # as) sources =
     (case match_addr (V4 w) sources of
        Some m \<Rightarrow> unverified_of as sources
      | None \<Rightarrow> v4_string w # unverified_of as sources)"
| "unverified_of (_ # as) sources = unverified_of as sources"

function build_from :: "match list \<Rightarrow> string list \<Rightarrow> options \<Rightarrow> int \<Rightarrow> profile_error + profile_result" where
  "build_from matched unverified opt width =
     (if width \<le> NarrowestPrefixWidth opt then
        let prefixes = compact (widen_all matched width);
            total = count_addresses prefixes in
        if total \<le> MaxTotalAddresses opt \<or> width = NarrowestPrefixWidth opt then
          Inr \<lparr>CIDRs = map pfx_string prefixes, Unverified = unverified, AppliedWidth = width,
               TotalAddresses = total\<rparr>
        else build_from matched unverified opt (width + 1)
      else Inl Unreachable)"
  by pat_completeness auto
termination
  by (relation "measure (\<lambda>(m, u, opt, width). nat (NarrowestPrefixWidth opt - width + 1))") auto

declare build_from.simps [simp del]

definition build :: "addr list \<Rightarrow> source list \<Rightarrow> options \<Rightarrow> profile_error + profile_result" where
  "build observed sources opt =
     (if sources = [] then Inl ErrNoSources
      else build_from (matched_of observed sources) (sort (unverified_of observed sources)) opt
             (MaxPrefixWidth opt))"

text \<open>\<open>Overlaps\<close>: each prefix of a profile with the first address of another game it
  covers (the source prints the pair as "c contains a").\<close>

definition profile_overlaps :: "string list \<Rightarrow> addr list \<Rightarrow> (string \<times> addr) list" where
  "profile_overlaps cidrs other =
     List.map_filter
       (\<lambda>c. case parse_prefix c of None \<Rightarrow> None
            | Some p \<Rightarrow> map_option (\<lambda>a. (c, a)) (find (contains p) other))
       cidrs"

end
