(* ===== verification/Profile_Cover.thy ===== *)
theory Profile_Cover
  imports Profile_Build
begin

text \<open>
  The specification of \<open>Profile_Build\<close>: the addresses a list of prefixes covers, canonical
  prefixes as aligned blocks of addresses, and the facts that \<open>drop_covered\<close>,
  \<open>merge_pass\<close> and the loop around them keep the covered set and end in its unique
  minimal description.
\<close>

section \<open>Prefixes as blocks\<close>

definition cov :: "prefix \<Rightarrow> 32 word set" where
  "cov p = {w. contains p (V4 w)}"

definition covered :: "prefix list \<Rightarrow> 32 word set" where
  "covered ps = (\<Union>p \<in> set ps. cov p)"

fun v4p :: "prefix \<Rightarrow> bool" where
  "v4p (Prefix (V4 _) b) = (b \<le> 32)"
| "v4p _ = False"

definition canon :: "prefix \<Rightarrow> bool" where
  "canon p \<longleftrightarrow> v4p p \<and> masked p = p"

definition hostb :: "prefix \<Rightarrow> nat" where
  "hostb p = 32 - pfx_bits p"

fun base :: "prefix \<Rightarrow> nat" where
  "base (Prefix (V4 w) _) = unat w"
| "base _ = 0"

definition blk :: "prefix \<Rightarrow> nat" where
  "blk p = base p div 2 ^ hostb p"

lemma v4p_iff: "v4p p \<longleftrightarrow> (\<exists>w b. p = Prefix (V4 w) b \<and> b \<le> 32)"
  by (cases p rule: v4p.cases) auto

lemma canon_v4p [simp]: "canon p \<Longrightarrow> v4p p"
  by (simp add: canon_def)

lemma v4p_bits: "v4p p \<Longrightarrow> pfx_bits p \<le> 32"
  by (auto simp: v4p_iff)

lemma hostb_eq_iff: "v4p p \<Longrightarrow> v4p q \<Longrightarrow> hostb p = hostb q \<longleftrightarrow> pfx_bits p = pfx_bits q"
  by (auto simp: hostb_def dest!: v4p_bits)

lemma unat32_less: "unat (w :: 32 word) < 2 ^ 32"
  using unsigned_less [of w, where ?'a = nat] by simp

lemma base_less: "base p < 2 ^ 32"
  using unat32_less by (cases p rule: base.cases) auto

lemma div_pow_Suc: "n div 2 ^ Suc k = n div 2 ^ k div (2 :: nat)"
  by (simp add: power_Suc2 div_mult2_eq del: power_Suc)

lemma mem_cov: "v4p p \<Longrightarrow> w \<in> cov p \<longleftrightarrow> unat w div 2 ^ hostb p = blk p"
  by (auto simp: cov_def v4p_iff contains_V4 blk_def hostb_def simp del: contains.simps)

lemma canon_base: "canon p \<Longrightarrow> base p = blk p * 2 ^ hostb p"
  by (auto simp: canon_def v4p_iff blk_def hostb_def unat_v4_mask dest!: arg_cong [where f = unat])

lemma canonI: "v4p p \<Longrightarrow> base p = blk p * 2 ^ hostb p \<Longrightarrow> canon p"
  by (auto simp: canon_def v4p_iff blk_def hostb_def unat_v4_mask word_unat_eq_iff)

lemma canon_eqI: "canon p \<Longrightarrow> canon q \<Longrightarrow> pfx_bits p = pfx_bits q \<Longrightarrow> base p = base q \<Longrightarrow> p = q"
  by (auto simp: canon_def v4p_iff word_unat_eq_iff)

lemma canon_eqI2: "canon p \<Longrightarrow> canon q \<Longrightarrow> hostb p = hostb q \<Longrightarrow> blk p = blk q \<Longrightarrow> p = q"
  by (rule canon_eqI) (simp_all add: canon_base hostb_eq_iff)

lemma masked_base: "v4p p \<Longrightarrow> base (masked p) = blk p * 2 ^ hostb p"
  by (auto simp: v4p_iff blk_def hostb_def unat_v4_mask)

lemma masked_bits [simp]: "pfx_bits (masked p) = pfx_bits p"
  by (cases p rule: masked.cases) auto

lemma masked_v4p [simp]: "v4p p \<Longrightarrow> v4p (masked p)"
  by (auto simp: v4p_iff)

lemma masked_hostb [simp]: "hostb (masked p) = hostb p"
  by (simp add: hostb_def)

lemma masked_blk [simp]: "v4p p \<Longrightarrow> blk (masked p) = blk p"
  using masked_base [of p] by (simp add: blk_def)

lemma masked_canon [simp]: "v4p p \<Longrightarrow> canon (masked p)"
  by (rule canonI) (simp_all add: masked_base)

lemma masked_cov [simp]: "v4p p \<Longrightarrow> cov (masked p) = cov p"
  by (auto simp: mem_cov)

lemma base_in_cov: "canon p \<Longrightarrow> word_of_nat (base p) \<in> cov p"
  using base_less [of p] by (simp add: mem_cov unat_of_nat blk_def)

lemma cov_not_empty: "canon p \<Longrightarrow> cov p \<noteq> {}"
  using base_in_cov by blast

lemma unat_mem_cov:
  "canon p \<Longrightarrow> w \<in> cov p \<longleftrightarrow> base p \<le> unat w \<and> unat w < base p + 2 ^ hostb p"
proof -
  assume c: "canon p"
  have "n div k = m \<longleftrightarrow> m * k \<le> n \<and> n < m * k + k" if "0 < k" for n m k :: nat
    using that by (metis add.commute div_nat_eqI div_times_less_eq_dividend dividend_less_div_times
        mult.commute mult_Suc_right)
  from this [of "2 ^ hostb p"] c show ?thesis by (simp add: mem_cov canon_base)
qed

text \<open>Two blocks are nested or disjoint.\<close>

lemma blocks_meet:
  assumes "canon p" "canon q" "hostb p \<le> hostb q"
  shows "cov p \<inter> cov q \<noteq> {} \<longleftrightarrow> cov p \<subseteq> cov q"
    and "cov p \<subseteq> cov q \<longleftrightarrow> base p div 2 ^ hostb q = blk q"
proof -
  have split: "n div 2 ^ hostb q = n div 2 ^ hostb p div 2 ^ (hostb q - hostb p)" for n :: nat
    using assms(3) by (simp add: div_mult2_eq [symmetric] flip: power_add)
  have sub: "cov p \<subseteq> cov q" if "w \<in> cov p" "w \<in> cov q" for w
  proof
    fix v assume "v \<in> cov p"
    then have "unat v div 2 ^ hostb p = unat w div 2 ^ hostb p" using that assms(1) by (simp add: mem_cov)
    then have "unat v div 2 ^ hostb q = unat w div 2 ^ hostb q" by (simp add: split)
    then show "v \<in> cov q" using that(2) assms(2) by (simp add: mem_cov)
  qed
  show "cov p \<inter> cov q \<noteq> {} \<longleftrightarrow> cov p \<subseteq> cov q"
    using sub cov_not_empty [OF assms(1)] by blast
  have b: "unat (word_of_nat (base p) :: 32 word) = base p"
    using base_less [of p] by (simp add: unat_of_nat)
  have "cov p \<subseteq> cov q \<longleftrightarrow> word_of_nat (base p) \<in> cov q"
    using sub base_in_cov [OF assms(1)] by blast
  also have "\<dots> \<longleftrightarrow> base p div 2 ^ hostb q = blk q" using assms(2) b by (simp add: mem_cov)
  finally show "cov p \<subseteq> cov q \<longleftrightarrow> base p div 2 ^ hostb q = blk q" .
qed

lemma same_size_meet:
  "canon p \<Longrightarrow> canon q \<Longrightarrow> hostb p = hostb q \<Longrightarrow> cov p \<inter> cov q \<noteq> {} \<Longrightarrow> p = q"
  using blocks_meet [of p q] by (intro canon_eqI2) (auto simp: blk_def)

lemma overlaps_canon:
  assumes "canon p" "canon q" "pfx_bits q < pfx_bits p"
  shows "overlaps q p \<longleftrightarrow> cov p \<inter> cov q \<noteq> {}"
proof -
  obtain w b v c where pq: "p = Prefix (V4 w) b" "q = Prefix (V4 v) c" "b \<le> 32" "c \<le> 32"
    using assms by (auto simp: canon_def v4p_iff)
  have lt: "c < b" using assms(3) pq by simp
  have le: "hostb p \<le> hostb q" using lt pq by (simp add: hostb_def)
  have "unat w div 2 ^ 32 = 0" "unat v div 2 ^ 32 = 0"
    using unat32_less [of w] unat32_less [of v] by simp_all
  then have "overlaps q p \<longleftrightarrow> unat w div 2 ^ hostb q = blk q"
    using pq lt by (auto simp: overlaps_def blk_def hostb_def Let_def min_def word_unat_eq_iff
        unat_v4_mask)
  then show ?thesis using blocks_meet [OF assms(1,2) le] pq by simp
qed

section \<open>Siblings\<close>

definition parent :: "prefix \<Rightarrow> prefix" where
  "parent a = masked (Prefix (pfx_addr a) (pfx_bits a - 1))"

lemma parent_facts:
  assumes "canon a" "0 < pfx_bits a"
  shows "canon (parent a)" "hostb (parent a) = hostb a + 1" "blk (parent a) = blk a div 2"
proof -
  obtain w b where a: "a = Prefix (V4 w) b" "b \<le> 32" "0 < b"
    using assms by (auto simp: canon_def v4p_iff)
  have v: "v4p (Prefix (V4 w) (b - 1))" using a by simp
  show "canon (parent a)" using a v by (simp add: parent_def del: masked.simps)
  show h: "hostb (parent a) = hostb a + 1" using a by (simp add: parent_def hostb_def)
  have "blk (parent a) = blk (Prefix (V4 w) (b - 1))"
    using a v by (simp add: parent_def del: masked.simps)
  also have "\<dots> = unat w div 2 ^ Suc (hostb a)"
  proof -
    have "32 - (b - 1) = Suc (32 - b)" using a by simp
    then show ?thesis using a by (simp only: blk_def hostb_def prefix.sel base.simps)
  qed
  also have "\<dots> = blk a div 2" using a by (simp only: blk_def div_pow_Suc base.simps)
  finally show "blk (parent a) = blk a div 2" .
qed

lemma siblings_iff:
  assumes "canon a" "canon b"
  shows "siblings a b \<longleftrightarrow>
    pfx_bits a = pfx_bits b \<and> 0 < pfx_bits a \<and> even (blk a) \<and> blk b div 2 = blk a div 2"
proof (cases "pfx_bits a = pfx_bits b \<and> 0 < pfx_bits a")
  case False
  then show ?thesis by (auto simp: siblings_def)
next
  case True
  obtain w k v where ab: "a = Prefix (V4 w) k" "b = Prefix (V4 v) k" "k \<le> 32" "0 < k"
    using assms True by (auto simp: canon_def v4p_iff)
  note pf = parent_facts [of a] and ca = canon_base [OF assms(1)]
  have h: "hostb a = hostb b" using True by (simp add: hostb_def)
  have c: "contains (parent a) (V4 x) \<longleftrightarrow> unat x div 2 ^ hostb a div 2 = blk a div 2" for x
  proof -
    have "contains (parent a) (V4 x) \<longleftrightarrow> x \<in> cov (parent a)" by (simp add: cov_def)
    also have "\<dots> \<longleftrightarrow> unat x div 2 ^ (hostb a + 1) = blk a div 2"
      using pf assms True by (simp add: mem_cov)
    also have "unat x div 2 ^ (hostb a + 1) = unat x div 2 ^ hostb a div 2"
      by (simp add: div_pow_Suc del: power_Suc)
    finally show ?thesis .
  qed
  have p: "pfx_addr (parent a) = pfx_addr a \<longleftrightarrow> even (blk a)"
  proof -
    have "pfx_addr (parent a) = pfx_addr a \<longleftrightarrow> base (parent a) = base a"
      using ab by (simp add: parent_def word_unat_eq_iff)
    also have "\<dots> \<longleftrightarrow> blk a div 2 * 2 * 2 ^ hostb a = blk a * 2 ^ hostb a"
      using pf assms True ca by (simp add: canon_base)
    also have "\<dots> \<longleftrightarrow> blk a div 2 * 2 = blk a" by simp
    also have "\<dots> \<longleftrightarrow> even (blk a)" by presburger
    finally show ?thesis .
  qed
  have "contains (parent a) (pfx_addr a)" using c [of w] ab by (simp add: blk_def)
  moreover have "contains (parent a) (pfx_addr b) \<longleftrightarrow> blk b div 2 = blk a div 2"
    using c [of v] ab h by (simp add: blk_def)
  moreover have "masked a = a" using assms(1) by (simp add: canon_def)
  ultimately show ?thesis
    unfolding siblings_def parent_def [symmetric] Let_def using True p by auto
qed

lemma siblings_blk:
  assumes "canon a" "canon b" "a \<noteq> b" "siblings a b"
  shows "hostb b = hostb a" "blk b = blk a + 1" "even (blk a)"
proof -
  from assms(4) have s: "pfx_bits a = pfx_bits b" "even (blk a)" "blk b div 2 = blk a div 2"
    by (simp_all add: siblings_iff [OF assms(1,2)])
  then show h: "hostb b = hostb a" and "even (blk a)" by (simp_all add: hostb_def)
  have "blk b \<noteq> blk a" using canon_eqI2 assms h by metis
  then show "blk b = blk a + 1" using s(2,3) by presburger
qed

lemma siblings_cov:
  assumes "canon a" "canon b" "a \<noteq> b" "siblings a b"
  shows "cov (parent a) = cov a \<union> cov b"
proof -
  from assms(4) have "0 < pfx_bits a" by (simp add: siblings_def)
  note pf = parent_facts [OF assms(1) this] and sb = siblings_blk [OF assms]
  have "m div 2 = blk a div 2 \<longleftrightarrow> m = blk a \<or> m = blk a + 1" for m
    using sb(3) by presburger
  then have "w \<in> cov (parent a) \<longleftrightarrow> w \<in> cov a \<union> cov b" for w
    using assms(1,2) pf sb(1,2) by (simp add: mem_cov div_pow_Suc del: power_Suc)
  then show ?thesis by blast
qed

section \<open>Disjoint lists\<close>

fun disj :: "prefix list \<Rightarrow> bool" where
  "disj [] = True"
| "disj (p # ps) = (canon p \<and> cov p \<inter> covered ps = {} \<and> disj ps)"

lemma covered_simps [simp]: "covered [] = {}" "covered (p # ps) = cov p \<union> covered ps"
  by (auto simp: covered_def)

lemma covered_set_eq: "set ps = set qs \<Longrightarrow> covered ps = covered qs"
  by (simp add: covered_def)

lemma disj_iff:
  "disj ps \<longleftrightarrow> distinct ps \<and> (\<forall>p \<in> set ps. canon p) \<and>
     (\<forall>p \<in> set ps. \<forall>q \<in> set ps. p \<noteq> q \<longrightarrow> cov p \<inter> cov q = {})"
proof (induction ps)
  case (Cons p ps)
  have "p \<notin> set ps" if "canon p" "cov p \<inter> covered ps = {}"
    using that cov_not_empty [OF that(1)] by (auto simp: covered_def)
  then show ?case using Cons by (fastforce simp: covered_def)
qed simp

lemma disj_meet: "disj ps \<Longrightarrow> p \<in> set ps \<Longrightarrow> q \<in> set ps \<Longrightarrow> cov p \<inter> cov q \<noteq> {} \<Longrightarrow> p = q"
  by (auto simp: disj_iff)

lemma disj_perm: "distinct qs \<Longrightarrow> set ps = set qs \<Longrightarrow> disj ps \<Longrightarrow> disj qs"
  by (simp add: disj_iff)

lemma set_sort_prefixes [simp]: "set (sort_prefixes ps) = set ps"
  "distinct (sort_prefixes ps) = distinct ps"
  by (simp_all add: sort_prefixes_def)

lemma disj_sort [simp]: "disj ps \<Longrightarrow> disj (sort_prefixes ps)"
  by (rule disj_perm [of _ ps]) (simp_all add: disj_iff)

lemma drop_covered_spec:
  assumes can: "\<forall>p \<in> set ps. canon p" and d: "distinct ps"
  shows "disj (drop_covered ps)" "covered (drop_covered ps) = covered ps"
proof -
  let ?wider = "\<lambda>p. \<exists>q \<in> set ps. pfx_bits q < pfx_bits p \<and> overlaps q p"
  have kept: "set (drop_covered ps) = {p \<in> set ps. \<not> ?wider p}"
    by (auto simp: drop_covered_def)
  have same: "p = q" if "p \<in> set (drop_covered ps)" "q \<in> set (drop_covered ps)" "cov p \<inter> cov q \<noteq> {}" for p q
  proof (rule ccontr)
    assume ne: "p \<noteq> q"
    have c: "canon p" "canon q" using that can kept by auto
    consider "pfx_bits p = pfx_bits q" | "pfx_bits q < pfx_bits p" | "pfx_bits p < pfx_bits q" by linarith
    then show False
    proof cases
      case 1
      then show False using same_size_meet [OF c] that(3) ne by (simp add: hostb_def)
    next
      case 2
      then show False using overlaps_canon [OF c 2] that kept by auto
    next
      case 3
      then show False using overlaps_canon [OF c(2,1) 3] that kept by auto
    qed
  qed
  show "disj (drop_covered ps)"
    using d can same by (auto simp: disj_iff kept) (auto simp: drop_covered_def)
  have "w \<in> covered (drop_covered ps)" if "w \<in> covered ps" for w
  proof -
    define P where "P p \<longleftrightarrow> p \<in> set ps \<and> w \<in> cov p" for p
    from that obtain p0 where "P p0" by (auto simp: covered_def P_def)
    then obtain p where p: "P p" "\<And>q. P q \<Longrightarrow> pfx_bits p \<le> pfx_bits q"
      using ex_has_least_nat [of P p0 pfx_bits] by blast
    have "\<not> ?wider p"
    proof
      assume "?wider p"
      then obtain q where q: "q \<in> set ps" "pfx_bits q < pfx_bits p" "overlaps q p" by auto
      have c: "canon p" "canon q" using p(1) q(1) can by (auto simp: P_def)
      have "hostb p \<le> hostb q" using q(2) by (simp add: hostb_def)
      then have "cov p \<subseteq> cov q" using overlaps_canon [OF c q(2)] q(3) blocks_meet(1) [OF c] by blast
      then have "P q" using p(1) q(1) by (auto simp: P_def)
      then show False using p(2) q(2) by fastforce
    qed
    then show ?thesis using p(1) by (auto simp: covered_def kept P_def)
  qed
  then show "covered (drop_covered ps) = covered ps" by (auto simp: covered_def kept)
qed

lemma merge_pass_siblings:
  "siblings a b \<Longrightarrow> merge_pass (a # b # rest) = (parent a # fst (merge_pass rest), True)"
  by (simp add: parent_def split: prod.splits)

lemma merge_pass_spec:
  "disj ps \<Longrightarrow> disj (fst (merge_pass ps)) \<and> covered (fst (merge_pass ps)) = covered ps"
proof (induction ps rule: merge_pass.induct)
  case (3 a b rest)
  then have c: "canon a" "canon b" "cov a \<inter> cov b = {}" by auto
  then have ab: "a \<noteq> b" using cov_not_empty by blast
  show ?case
  proof (cases "siblings a b")
    case True
    have IH: "disj (fst (merge_pass rest))" "covered (fst (merge_pass rest)) = covered rest"
      using 3 True by auto
    have "0 < pfx_bits a" using True by (simp add: siblings_def)
    then have "canon (parent a)" by (rule parent_facts(1) [OF c(1)])
    then show ?thesis
      using IH 3(3) siblings_cov [OF c(1,2) ab True] unfolding merge_pass_siblings [OF True] by auto
  next
    case False
    then show ?thesis using 3 by (auto split: prod.splits)
  qed
qed simp_all

lemma merge_pass_unchanged:
  "\<not> snd (merge_pass ps) \<Longrightarrow>
     fst (merge_pass ps) = ps \<and> (\<forall>i. Suc i < length ps \<longrightarrow> \<not> siblings (ps ! i) (ps ! Suc i))"
proof (induction ps rule: merge_pass.induct)
  case (3 a b rest)
  then have "\<not> siblings a b" "\<not> snd (merge_pass (b # rest))"
    by (auto split: if_splits prod.splits)
  then show ?case using 3(2) by (auto split: prod.splits simp: nth_Cons' less_Suc_eq_0_disj)
qed simp_all

text \<open>In a sorted disjoint list two siblings are neighbours.\<close>

lemma pfx_key_canon: "canon p \<Longrightarrow> pfx_key p = ((32, base p, []), pfx_bits p)"
  by (auto simp: pfx_key_def canon_def v4p_iff)

lemma sorted_base:
  assumes "sorted (map pfx_key ps)" "\<forall>p \<in> set ps. canon p" "i \<le> j" "j < length ps"
  shows "base (ps ! i) \<le> base (ps ! j)"
proof -
  have "pfx_key (ps ! i) \<le> pfx_key (ps ! j)"
    using sorted_nth_mono [OF assms(1), of i j] assms(3,4) by simp
  then show ?thesis using assms by (auto simp: pfx_key_canon)
qed

lemma siblings_adjacent:
  assumes s: "sorted (map pfx_key ps)" and d: "disj ps"
    and pq: "p \<in> set ps" "q \<in> set ps" "p \<noteq> q" "siblings p q"
  shows "\<exists>i. Suc i < length ps \<and> ps ! i = p \<and> ps ! Suc i = q"
proof -
  have can: "\<forall>p \<in> set ps. canon p" and dist: "distinct ps" using d by (auto simp: disj_iff)
  obtain i j where ij: "i < length ps" "ps ! i = p" "j < length ps" "ps ! j = q"
    using pq by (auto simp: in_set_conv_nth)
  have c: "canon p" "canon q" using can pq by auto
  note sb = siblings_blk [OF c pq(3,4)]
  have bq: "base q = base p + 2 ^ hostb p" using sb c by (simp add: canon_base)
  have "i < j"
  proof (rule ccontr)
    assume "\<not> i < j"
    then have "base q \<le> base p" using sorted_base [OF s can, of j i] ij by simp
    then show False using bq by simp
  qed
  moreover have "j = Suc i"
  proof (rule ccontr)
    assume "j \<noteq> Suc i"
    then have lt: "Suc i < j" using \<open>i < j\<close> by simp
    let ?r = "ps ! Suc i"
    have r: "?r \<in> set ps" "?r \<noteq> p" "?r \<noteq> q"
      using lt ij dist by (auto simp: nth_eq_iff_index_eq)
    have "base p \<le> base ?r" "base ?r \<le> base q"
      using sorted_base [OF s can, of i "Suc i"] sorted_base [OF s can, of "Suc i" j] lt ij by auto
    moreover have "word_of_nat (base ?r) \<notin> cov p" "word_of_nat (base ?r) \<notin> cov q"
      using base_in_cov [of ?r] can r pq d by (auto simp: disj_iff)
    moreover have "unat (word_of_nat (base ?r) :: 32 word) = base ?r"
      using base_less [of ?r] by (simp add: unat_of_nat)
    ultimately show False using c bq by (simp add: unat_mem_cov)
  qed
  ultimately show ?thesis using ij by auto
qed

section \<open>The loop\<close>

definition minimal :: "prefix list \<Rightarrow> bool" where
  "minimal ps \<longleftrightarrow> sorted (map pfx_key ps) \<and> disj ps \<and>
     (\<forall>p \<in> set ps. \<forall>q \<in> set ps. p \<noteq> q \<longrightarrow> \<not> siblings p q)"

lemma disj_distinct: "disj ps \<Longrightarrow> distinct ps"
  by (simp add: disj_iff)

lemma disj_canon: "disj ps \<Longrightarrow> p \<in> set ps \<Longrightarrow> canon p"
  by (simp add: disj_iff)

lemma compact_loop_spec:
  "\<forall>p \<in> set ps. canon p \<Longrightarrow> distinct ps \<Longrightarrow>
     minimal (compact_loop ps) \<and> covered (compact_loop ps) = covered ps"
proof (induction ps rule: compact_loop.induct)
  case (1 ps)
  let ?l = "sort_prefixes (drop_covered ps)"
  have l: "disj ?l" "covered ?l = covered ps"
    using drop_covered_spec [OF 1(2,3)] covered_set_eq [of ?l "drop_covered ps"] by simp_all
  note m = merge_pass_spec [OF l(1)]
  obtain merged changed where mc: "merge_pass ?l = (merged, changed)" by fastforce
  have unf: "compact_loop ps = (if changed then compact_loop merged else merged)"
    using mc by (subst compact_loop.simps) (simp add: merge_siblings_def)
  show ?case
  proof (cases changed)
    case True
    have "minimal (compact_loop merged) \<and> covered (compact_loop merged) = covered merged"
      using m mc True disj_canon disj_distinct
      by (intro "1.IH" [OF _ _ True]) (auto simp: merge_siblings_def)
    then show ?thesis using unf True m mc l by simp
  next
    case False
    then have u: "merged = ?l" "\<forall>i. Suc i < length ?l \<longrightarrow> \<not> siblings (?l ! i) (?l ! Suc i)"
      using merge_pass_unchanged [of ?l] mc by simp_all
    have s: "sorted (map pfx_key ?l)" by (simp add: sort_prefixes_def flip: sorted_prefixes)
    have "minimal ?l" unfolding minimal_def
      using s l(1) u(2) siblings_adjacent [OF s l(1)] by metis
    then show ?thesis using unf False u l by simp
  qed
qed

lemma covered_masked: "\<forall>p \<in> set ps. v4p p \<Longrightarrow> covered (map masked ps) = covered ps"
  by (auto simp: covered_def)

lemma compact_spec:
  assumes "\<forall>p \<in> set ps. v4p p"
  shows "minimal (compact ps)" "covered (compact ps) = covered ps"
proof -
  let ?l = "sort_prefixes (remdups (map masked ps))"
  have "\<forall>p \<in> set ?l. canon p" "distinct ?l" using assms by auto
  note sp = compact_loop_spec [OF this]
  then show "minimal (compact ps)" by (simp add: compact_def)
  have "covered ?l = covered ps"
    using covered_masked [OF assms] covered_set_eq [of ?l "map masked ps"] by simp
  then show "covered (compact ps) = covered ps" using sp by (simp add: compact_def)
qed

section \<open>Sizes\<close>

lemma base_bound: "canon p \<Longrightarrow> base p + 2 ^ hostb p \<le> 2 ^ 32"
proof -
  assume c: "canon p"
  have h: "hostb p \<le> 32" by (simp add: hostb_def)
  have "(2 :: nat) ^ 32 = 2 ^ (32 - hostb p) * 2 ^ hostb p" using h by (simp flip: power_add)
  moreover have "blk p * 2 ^ hostb p < 2 ^ 32" using base_less [of p] canon_base [OF c] by simp
  ultimately have "blk p * 2 ^ hostb p < 2 ^ (32 - hostb p) * 2 ^ hostb p" by simp
  then have "blk p < 2 ^ (32 - hostb p)" by (simp del: mult_less_cancel2 add: mult_less_cancel2 [of _ "2 ^ hostb p"])
  then have "blk p + 1 \<le> 2 ^ (32 - hostb p)" by simp
  then have "(blk p + 1) * 2 ^ hostb p \<le> 2 ^ (32 - hostb p) * 2 ^ hostb p" by (rule mult_le_mono1)
  then show ?thesis using canon_base [OF c] \<open>2 ^ 32 = _\<close> by (simp add: algebra_simps)
qed

lemma card_cov: "canon p \<Longrightarrow> card (cov p) = 2 ^ hostb p"
proof -
  assume c: "canon p"
  have "n \<in> unat ` cov p" if "base p \<le> n" "n < base p + 2 ^ hostb p" for n
  proof -
    have "n < 2 ^ 32" using that base_bound [OF c] by simp
    then have "unat (word_of_nat n :: 32 word) = n" by (simp add: unat_of_nat)
    then show ?thesis using that c by (intro image_eqI [of _ _ "word_of_nat n"]) (auto simp: unat_mem_cov)
  qed
  then have "unat ` cov p = {base p ..< base p + 2 ^ hostb p}"
    using c by (auto simp: unat_mem_cov)
  then have "card (unat ` cov p) = 2 ^ hostb p" by simp
  moreover have "inj_on unat (cov p)" by (simp add: inj_on_def word_unat_eq_iff)
  ultimately show ?thesis by (simp add: card_image)
qed

lemma card_covered: "disj ps \<Longrightarrow> card (covered ps) = (\<Sum>p \<leftarrow> ps. 2 ^ hostb p)"
proof (induction ps)
  case (Cons p ps)
  then have "card (cov p \<union> covered ps) = card (cov p) + card (covered ps)"
    by (intro card_Un_disjoint) auto
  then show ?case using Cons by (simp add: card_cov)
qed simp

lemma count_addresses_sum:
  "count_addresses ps = word_of_nat (\<Sum>p \<leftarrow> ps. 2 ^ hostb p)"
proof -
  have "foldl (\<lambda>n p. n + push_bit (32 - pfx_bits p) 1) n ps =
      n + (word_of_nat (\<Sum>p \<leftarrow> ps. 2 ^ hostb p) :: 64 word)" for n
    by (induction ps arbitrary: n) (auto simp: hostb_def push_bit_eq_mult)
  from this [of 0] show ?thesis by (simp add: count_addresses_def)
qed

lemma count_addresses_card: "disj ps \<Longrightarrow> unat (count_addresses ps) = card (covered ps)"
proof -
  assume d: "disj ps"
  have "card (covered ps) \<le> card (UNIV :: 32 word set)" by (intro card_mono) auto
  then have "card (covered ps) < 2 ^ 64" by (simp add: card_word)
  then show ?thesis using d by (simp add: count_addresses_sum card_covered unat_of_nat)
qed

section \<open>The minimal description is unique\<close>

definition block :: "nat \<Rightarrow> nat \<Rightarrow> prefix" where
  "block k i = Prefix (V4 (word_of_nat (i * 2 ^ k))) (32 - k)"

lemma block_facts:
  assumes "k \<le> 32" "i * 2 ^ k < 2 ^ 32"
  shows "canon (block k i)" "hostb (block k i) = k" "blk (block k i) = i"
proof -
  have u: "base (block k i) = i * 2 ^ k" using assms(2)
    by (simp add: block_def unat_of_nat del: of_nat_mult of_nat_power)
  show h: "hostb (block k i) = k" using assms(1) by (simp add: hostb_def block_def)
  show b: "blk (block k i) = i" using u h by (simp add: blk_def)
  have "v4p (block k i)" by (simp add: block_def)
  then show "canon (block k i)" by (rule canonI) (simp add: u h b)
qed

lemma halves:
  assumes "canon p" "hostb p = Suc k"
  shows "canon (block k (2 * blk p))" "canon (block k (2 * blk p + 1))"
    "hostb (block k (2 * blk p)) = k" "hostb (block k (2 * blk p + 1)) = k"
    "cov p = cov (block k (2 * blk p)) \<union> cov (block k (2 * blk p + 1))"
    "siblings (block k (2 * blk p)) (block k (2 * blk p + 1))"
    "block k (2 * blk p) \<noteq> block k (2 * blk p + 1)"
proof -
  have k: "k \<le> 32" "Suc k \<le> 32" using assms(2) by (simp_all add: hostb_def)
  have "blk p * (2 * 2 ^ k) + 2 * 2 ^ k \<le> 2 ^ 32"
    using base_bound [OF assms(1)] canon_base [OF assms(1)] assms(2) by simp
  moreover have "blk p * (2 * 2 ^ k) = 2 * (blk p * 2 ^ k)" "(2 * blk p) * 2 ^ k = 2 * (blk p * 2 ^ k)"
    "(2 * blk p + 1) * 2 ^ k = 2 * (blk p * 2 ^ k) + 2 ^ k" by (simp_all add: algebra_simps)
  moreover have "0 < (2 :: nat) ^ k" by simp
  ultimately have lt: "(2 * blk p) * 2 ^ k < 2 ^ 32" "(2 * blk p + 1) * 2 ^ k < 2 ^ 32" by linarith+
  note b0 = block_facts [OF k(1) lt(1)] and b1 = block_facts [OF k(1) lt(2)]
  show "canon (block k (2 * blk p))" "canon (block k (2 * blk p + 1))"
    "hostb (block k (2 * blk p)) = k" "hostb (block k (2 * blk p + 1)) = k"
    using b0 b1 by simp_all
  show "block k (2 * blk p) \<noteq> block k (2 * blk p + 1)" using b0(3) b1(3) by fastforce
  show "siblings (block k (2 * blk p)) (block k (2 * blk p + 1))"
    using b0 b1 k(2) by (subst siblings_iff) (auto simp: block_def)
  have "m div 2 = blk p \<longleftrightarrow> m = 2 * blk p \<or> m = 2 * blk p + 1" for m by presburger
  then have "w \<in> cov p \<longleftrightarrow> w \<in> cov (block k (2 * blk p)) \<union> cov (block k (2 * blk p + 1))" for w
    using assms b0 b1 by (simp add: mem_cov div_pow_Suc del: power_Suc)
  then show "cov p = cov (block k (2 * blk p)) \<union> cov (block k (2 * blk p + 1))" by blast
qed

lemma subset_of_meet:
  "canon p \<Longrightarrow> canon q \<Longrightarrow> hostb p \<le> hostb q \<Longrightarrow> w \<in> cov p \<Longrightarrow> w \<in> cov q \<Longrightarrow> cov p \<subseteq> cov q"
  using blocks_meet(1) [of p q] by blast

lemma block_in_minimal:
  assumes m: "minimal ps"
  shows "canon p \<Longrightarrow> hostb p = k \<Longrightarrow> cov p \<subseteq> covered ps \<Longrightarrow> \<exists>q \<in> set ps. cov p \<subseteq> cov q"
proof (induction k arbitrary: p)
  case 0
  obtain w where w: "w \<in> cov p" using cov_not_empty [OF 0(1)] by blast
  then obtain q where q: "q \<in> set ps" "w \<in> cov q" using 0(3) by (auto simp: covered_def)
  have "canon q" using q(1) m by (simp add: minimal_def disj_iff)
  then have "cov p \<subseteq> cov q" using 0 w q(2) by (intro subset_of_meet) auto
  then show ?case using q(1) by blast
next
  case (Suc k)
  let ?a = "block k (2 * blk p)" and ?b = "block k (2 * blk p + 1)"
  note hv = halves [OF Suc.prems(1,2)]
  have larger: "cov p \<subseteq> cov q" if "q \<in> set ps" "cov x \<subseteq> cov q" "x = ?a \<or> x = ?b" "hostb q \<noteq> k" for x q
  proof -
    have c: "canon q" "canon x" using that(1,3) m hv by (auto simp: minimal_def disj_iff)
    obtain w where w: "w \<in> cov x" using cov_not_empty [OF c(2)] by blast
    have "k \<le> hostb q"
    proof (rule ccontr)
      assume "\<not> k \<le> hostb q"
      then have "(2 :: nat) ^ hostb q < 2 ^ k" by simp
      moreover have "card (cov x) \<le> card (cov q)" using that(2) by (intro card_mono) auto
      ultimately show False using card_cov [OF c(1)] card_cov [OF c(2)] that(3) hv by auto
    qed
    then show ?thesis using that w hv(5) c Suc.prems
      by (intro subset_of_meet [of p q w]) auto
  qed
  obtain q0 q1 where q: "q0 \<in> set ps" "cov ?a \<subseteq> cov q0" "q1 \<in> set ps" "cov ?b \<subseteq> cov q1"
    using Suc.IH [OF hv(1,3)] Suc.IH [OF hv(2,4)] hv(5) Suc.prems(3) by blast
  have cq: "canon q0" "canon q1" using q m by (auto simp: minimal_def disj_iff)
  show ?case
  proof (cases "hostb q0 = k \<and> hostb q1 = k")
    case True
    then have "q0 = ?a" "q1 = ?b"
      using same_size_meet [OF hv(1) cq(1)] same_size_meet [OF hv(2) cq(2)] q hv(3,4)
        cov_not_empty [OF hv(1)] cov_not_empty [OF hv(2)] by (simp_all add: Int_absorb2)
    then show ?thesis using m q(1,3) hv(6,7) by (auto simp: minimal_def)
  next
    case False
    then show ?thesis using larger q by blast
  qed
qed

lemma cov_inj: "canon p \<Longrightarrow> canon q \<Longrightarrow> cov p = cov q \<Longrightarrow> p = q"
  using same_size_meet [of p q] card_cov [of p] card_cov [of q] cov_not_empty [of p] by simp

lemma minimal_subset:
  assumes "minimal ps" "minimal qs" "covered ps = covered qs"
  shows "set ps \<subseteq> set qs"
proof
  fix p assume p: "p \<in> set ps"
  have cp: "canon p" using p assms(1) by (simp add: minimal_def disj_iff)
  have "cov p \<subseteq> covered qs" using p assms(3) by (auto simp: covered_def)
  then obtain q where q: "q \<in> set qs" "cov p \<subseteq> cov q" using block_in_minimal [OF assms(2) cp refl] by blast
  have cq: "canon q" using q(1) assms(2) by (simp add: minimal_def disj_iff)
  have "cov q \<subseteq> covered ps" using q(1) assms(3) by (auto simp: covered_def)
  then obtain p' where p': "p' \<in> set ps" "cov q \<subseteq> cov p'"
    using block_in_minimal [OF assms(1) cq refl] by blast
  have "cov p' \<inter> cov p \<noteq> {}" using p'(2) q(2) cov_not_empty [OF cp] by blast
  then have "p' = p" using disj_meet p p'(1) assms(1) by (auto simp: minimal_def)
  then have "p = q" using p'(2) q(2) cov_inj [OF cp cq] by blast
  then show "p \<in> set qs" using q(1) by simp
qed

lemma minimal_unique:
  assumes "minimal ps" "minimal qs" "covered ps = covered qs"
  shows "ps = qs"
proof (rule map_sorted_distinct_set_unique [of pfx_key])
  show "set ps = set qs" using minimal_subset assms by (metis subset_antisym)
  have inj: "inj_on pfx_key (set xs)" if "\<forall>p \<in> set xs. canon p" for xs
    using that by (auto simp: inj_on_def pfx_key_canon intro: canon_eqI)
  have can: "\<forall>p \<in> set ps. canon p" "\<forall>p \<in> set qs. canon p"
    using assms by (simp_all add: minimal_def disj_iff)
  then show "inj_on pfx_key (set ps \<union> set qs)" using inj [of "ps @ qs"] by auto
  show "sorted (map pfx_key ps)" "sorted (map pfx_key qs)" using assms by (simp_all add: minimal_def)
  show "distinct (map pfx_key ps)" "distinct (map pfx_key qs)"
    using assms inj can by (simp_all add: distinct_map minimal_def disj_iff)
qed

end
