(* ===== verification/Profile_Props.thy ===== *)
theory Profile_Props
  imports Profile_Cover
begin

text \<open>
  What a built profile routes: the properties of \<open>Compact\<close> and \<open>Build\<close> stated over the
  addresses covered, with the facts on \<open>matchAddr\<close> and \<open>widen\<close> they need.
\<close>

section \<open>Matching\<close>

lemma best_source_spec:
  "best_source a best ss = Some s \<Longrightarrow>
     (best = Some s \<or> s \<in> set ss \<and> contains (src_prefix s) a) \<and>
     (\<forall>t \<in> set ss. contains (src_prefix t) a \<longrightarrow> pfx_bits (src_prefix t) \<le> pfx_bits (src_prefix s)) \<and>
     (\<forall>b. best = Some b \<longrightarrow> pfx_bits (src_prefix b) \<le> pfx_bits (src_prefix s))"
  by (induction ss arbitrary: best) (fastforce split: if_splits option.splits)+

lemma best_source_None:
  "best_source a best ss = None \<longleftrightarrow> best = None \<and> (\<forall>t \<in> set ss. \<not> contains (src_prefix t) a)"
  by (induction ss arbitrary: best) (auto split: option.splits)

text \<open>The source \<open>matchAddr\<close> settles on, as an executable function of address and list.\<close>

definition source_of :: "32 word \<Rightarrow> source list \<Rightarrow> source option" where
  "source_of w sources = best_source (V4 w) None sources"

lemma source_of_SomeD:
  assumes "source_of w sources = Some s"
  shows "s \<in> set sources" "w \<in> cov (src_prefix s)" "v4p (src_prefix s)"
    "\<forall>t \<in> set sources. w \<in> cov (src_prefix t) \<longrightarrow> pfx_bits (src_prefix t) \<le> pfx_bits (src_prefix s)"
proof -
  from best_source_spec [OF assms [unfolded source_of_def]]
  have s: "s \<in> set sources" "contains (src_prefix s) (V4 w)"
    and mx: "\<forall>t \<in> set sources. contains (src_prefix t) (V4 w) \<longrightarrow> pfx_bits (src_prefix t) \<le> pfx_bits (src_prefix s)"
    by auto
  show "s \<in> set sources" "w \<in> cov (src_prefix s)"
    "\<forall>t \<in> set sources. w \<in> cov (src_prefix t) \<longrightarrow> pfx_bits (src_prefix t) \<le> pfx_bits (src_prefix s)"
    using s mx by (simp_all add: cov_def)
  show "v4p (src_prefix s)"
    using s(2) by (cases "src_prefix s" rule: v4p.cases) (auto simp: contains_V4 simp del: contains.simps(1))
qed

lemma source_of_None: "source_of w sources = None \<longleftrightarrow> (\<forall>s \<in> set sources. w \<notin> cov (src_prefix s))"
  by (simp add: source_of_def best_source_None cov_def)

text \<open>The addresses routed for an observed address: the address alone when its source is
  anycast, otherwise every address that agrees with it on the first \<open>max bits width\<close> bits.\<close>

definition reach_of :: "int \<Rightarrow> source \<Rightarrow> 32 word \<Rightarrow> 32 word set" where
  "reach_of width s a =
     (if src_anycast s then {a}
      else cov (Prefix (V4 a) (nat (max (int (pfx_bits (src_prefix s))) width))))"

lemma widen_cov:
  assumes s: "source_of a sources = Some s" and w: "width \<le> 32"
  shows "v4p (widen \<lparr>m_addr = V4 a, m_source = s\<rparr> width)"
    "cov (widen \<lparr>m_addr = V4 a, m_source = s\<rparr> width) = reach_of width s a"
proof -
  let ?b = "pfx_bits (src_prefix s)"
  have b: "?b \<le> 32" using source_of_SomeD(3) [OF s] by (rule v4p_bits)
  have v: "v4p (Prefix (V4 a) (nat (max (int ?b) width)))" using b w by simp
  have single: "cov (Prefix (V4 a) 32) = {a}"
    by (auto simp: mem_cov blk_def hostb_def word_unat_eq_iff)
  have e: "(if int ?b < width then nat width else ?b) = nat (max (int ?b) width)" by auto
  show "v4p (widen \<lparr>m_addr = V4 a, m_source = s\<rparr> width)"
    using v unfolding widen_def Let_def by (simp add: e del: masked.simps)
  show "cov (widen \<lparr>m_addr = V4 a, m_source = s\<rparr> width) = reach_of width s a"
    using v single unfolding widen_def Let_def reach_of_def by (simp add: e del: masked.simps)
qed

lemma in_matched_of:
  "m \<in> set (matched_of as sources) \<longleftrightarrow>
     (\<exists>a s. V4 a \<in> set as \<and> source_of a sources = Some s \<and> m = \<lparr>m_addr = V4 a, m_source = s\<rparr>)"
  by (induction as)
    (auto simp: match_addr_def source_of_def is4_iff split: option.splits)

lemma in_unverified_of:
  "u \<in> set (unverified_of as sources) \<longleftrightarrow>
     (\<exists>a. V4 a \<in> set as \<and> source_of a sources = None \<and> u = v4_string a)"
proof (induction as)
  case (Cons x as)
  then show ?case
    by (cases x) (auto simp: match_addr_def source_of_def split: option.splits)
qed simp

lemma reach_in_source:
  assumes s: "source_of a sources = Some s" and w: "width \<le> 32"
  shows "a \<in> reach_of width s a" "reach_of width s a \<subseteq> cov (src_prefix s)"
proof -
  let ?p = "Prefix (V4 a) (nat (max (int (pfx_bits (src_prefix s))) width))"
  have v: "v4p (src_prefix s)" by (rule source_of_SomeD(3) [OF s])
  have vp: "v4p ?p" using v4p_bits [OF v] w by simp
  have ap: "a \<in> cov ?p" using vp by (simp add: mem_cov blk_def)
  then show "a \<in> reach_of width s a" by (simp add: reach_of_def)
  have "cov (masked ?p) \<subseteq> cov (masked (src_prefix s))"
  proof (rule subset_of_meet)
    show "canon (masked ?p)" "canon (masked (src_prefix s))"
      using vp v masked_canon by blast+
    show "hostb (masked ?p) \<le> hostb (masked (src_prefix s))" by (simp add: hostb_def)
    show "a \<in> cov (masked ?p)" "a \<in> cov (masked (src_prefix s))"
      using ap vp v source_of_SomeD(2) [OF s] masked_cov by blast+
  qed
  then have "cov ?p \<subseteq> cov (src_prefix s)" using masked_cov vp v by blast
  then show "reach_of width s a \<subseteq> cov (src_prefix s)"
    using source_of_SomeD(2) [OF s] by (simp add: reach_of_def)
qed

section \<open>Build\<close>

text \<open>The IPv4 addresses a client routes for a profile: every string the client can parse as
  a prefix contributes the addresses it contains.\<close>

definition routed :: "string list \<Rightarrow> 32 word set" where
  "routed cidrs = {w. \<exists>c \<in> set cidrs. \<exists>p. parse_prefix c = Some p \<and> contains p (V4 w)}"

lemma routed_pfx_string:
  "\<forall>p \<in> set ps. v4p p \<Longrightarrow> routed (map pfx_string ps) = covered ps"
  by (force simp: routed_def covered_def cov_def v4p_iff simp del: pfx_string.simps contains.simps)

lemma build_from_result:
  "build_from ms u opt width = Inr r \<Longrightarrow>
     width \<le> AppliedWidth r \<and> AppliedWidth r \<le> NarrowestPrefixWidth opt \<and>
     CIDRs r = map pfx_string (compact (widen_all ms (AppliedWidth r))) \<and>
     TotalAddresses r = count_addresses (compact (widen_all ms (AppliedWidth r))) \<and>
     Unverified r = u \<and>
     (TotalAddresses r \<le> MaxTotalAddresses opt \<or> AppliedWidth r = NarrowestPrefixWidth opt) \<and>
     (\<forall>v. width \<le> v \<and> v < AppliedWidth r \<longrightarrow>
        \<not> count_addresses (compact (widen_all ms v)) \<le> MaxTotalAddresses opt)"
proof (induction ms u opt width rule: build_from.induct)
  case (1 ms u opt width)
  show ?case
  proof (cases "width \<le> NarrowestPrefixWidth opt")
    case True
    show ?thesis
    proof (cases "count_addresses (compact (widen_all ms width)) \<le> MaxTotalAddresses opt \<or>
        width = NarrowestPrefixWidth opt")
      case now: True
      then show ?thesis using 1(2) True by (subst (asm) build_from.simps) (auto simp: Let_def)
    next
      case False
      have next': "build_from ms u opt (width + 1) = Inr r"
        using 1(2) True False by (subst (asm) build_from.simps) (auto simp: Let_def)
      note IH = "1.IH" [OF True refl refl False next']
      have "v = width \<or> width + 1 \<le> v" if "width \<le> v" for v :: int using that by linarith
      then show ?thesis using IH False by fastforce
    qed
  next
    case False
    then show ?thesis using 1(2) by (subst (asm) build_from.simps) simp
  qed
qed

lemma build_from_ok: "width \<le> NarrowestPrefixWidth opt \<Longrightarrow> \<exists>r. build_from ms u opt width = Inr r"
proof (induction ms u opt width rule: build_from.induct)
  case (1 ms u opt width)
  show ?case
  proof (cases "count_addresses (compact (widen_all ms width)) \<le> MaxTotalAddresses opt \<or>
        width = NarrowestPrefixWidth opt")
    case True
    then show ?thesis using 1(2) by (subst build_from.simps) (auto simp: Let_def)
  next
    case False
    then have "width + 1 \<le> NarrowestPrefixWidth opt" using 1(2) by linarith
    then obtain r where "build_from ms u opt (width + 1) = Inr r"
      using "1.IH" [OF 1(2) refl refl False] by blast
    then show ?thesis using 1(2) False by (subst build_from.simps) (auto simp: Let_def)
  qed
qed

lemma widen_all_cov:
  assumes "width \<le> 32"
  shows "\<forall>p \<in> set (widen_all (matched_of as sources) width). v4p p"
    "covered (widen_all (matched_of as sources) width) =
       (\<Union>a \<in> {a. V4 a \<in> set as}. case source_of a sources of None \<Rightarrow> {} | Some s \<Rightarrow> reach_of width s a)"
proof -
  show "\<forall>p \<in> set (widen_all (matched_of as sources) width). v4p p"
    using widen_cov(1) [OF _ assms] by (auto simp: widen_all_def in_matched_of)
  show "covered (widen_all (matched_of as sources) width) =
       (\<Union>a \<in> {a. V4 a \<in> set as}. case source_of a sources of None \<Rightarrow> {} | Some s \<Rightarrow> reach_of width s a)"
    using widen_cov(2) [OF _ assms]
    by (fastforce simp: covered_def widen_all_def in_matched_of split: option.splits)
qed

lemma build_Inr:
  assumes "build observed sources opt = Inr r"
  shows "build_from (matched_of observed sources) (sort (unverified_of observed sources)) opt
     (MaxPrefixWidth opt) = Inr r"
  using assms by (simp add: build_def split: if_splits)

lemma build_routed:
  assumes "build observed sources opt = Inr r" "NarrowestPrefixWidth opt \<le> 32"
  shows "routed (CIDRs r) =
      (\<Union>a \<in> {a. V4 a \<in> set observed}.
         case source_of a sources of None \<Rightarrow> {} | Some s \<Rightarrow> reach_of (AppliedWidth r) s a)"
    "MaxPrefixWidth opt \<le> AppliedWidth r" "AppliedWidth r \<le> NarrowestPrefixWidth opt"
proof -
  note b = build_from_result [OF build_Inr [OF assms(1)]]
  have w: "AppliedWidth r \<le> 32" using b assms(2) by linarith
  note wc = widen_all_cov [OF w, of observed sources]
  note cs = compact_spec [OF wc(1)]
  have "\<forall>p \<in> set (compact (widen_all (matched_of observed sources) (AppliedWidth r))). v4p p"
    using cs(1) by (simp add: minimal_def disj_iff)
  then show "routed (CIDRs r) =
      (\<Union>a \<in> {a. V4 a \<in> set observed}.
         case source_of a sources of None \<Rightarrow> {} | Some s \<Rightarrow> reach_of (AppliedWidth r) s a)"
    using b routed_pfx_string cs(2) wc(2) by simp
  show "MaxPrefixWidth opt \<le> AppliedWidth r" "AppliedWidth r \<le> NarrowestPrefixWidth opt"
    using b by simp_all
qed

section \<open>Properties\<close>

text \<open>C4. \<open>Compact\<close> changes nothing about what is routed and its result is the one minimal
  description of it: sorted, pairwise disjoint, without two halves of a wider prefix left
  unmerged, and equal to every other list with these properties and the same coverage.\<close>

theorem compact_minimal_cover:
  assumes "\<forall>p \<in> set ps. v4p p"
  shows "covered (compact ps) = covered ps \<and> minimal (compact ps) \<and>
    (\<forall>qs. minimal qs \<and> covered qs = covered ps \<longrightarrow> qs = compact ps)"
  using compact_spec [OF assms] minimal_unique by metis

theorem compact_minimal_cover_witness:
  "covered (compact [Prefix (V4 0x0A000080) 25, Prefix (V4 0x0A000007) 32, Prefix (V4 0x0A000001) 25]) =
     covered [Prefix (V4 0x0A000080) 25, Prefix (V4 0x0A000007) 32, Prefix (V4 0x0A000001) 25] \<and>
   compact [Prefix (V4 0x0A000080) 25, Prefix (V4 0x0A000007) 32, Prefix (V4 0x0A000001) 25] =
     [Prefix (V4 0x0A000000) 24]"
proof -
  let ?ps = "[Prefix (V4 0x0A000080) 25, Prefix (V4 0x0A000007) 32, Prefix (V4 0x0A000001) 25]"
  have "compact ?ps = [Prefix (V4 0x0A000000) 24]" by code_simp
  moreover have "covered (compact ?ps) = covered ?ps"
    using compact_minimal_cover [of ?ps] by simp
  ultimately show ?thesis by blast
qed


text \<open>A small run: two addresses in one Singapore block, one in an anycast block, one nowhere.\<close>

definition sample_sources :: "source list" where
  "sample_sources =
     [\<lparr>src_prefix = Prefix (V4 0x0D200000) 16, src_region = ''ap-southeast-1'', src_anycast = False\<rparr>,
      \<lparr>src_prefix = Prefix (V4 0x63534000) 18, src_region = ''GLOBAL'', src_anycast = True\<rparr>]"

definition sample_observed :: "addr list" where
  "sample_observed = [V4 0x0D200105, V4 0x0D200206, V4 0x63534001, V4 0x08080808]"

definition sample_result :: profile_result where
  "sample_result =
     \<lparr>CIDRs = [''13.32.0.0/20'', ''99.83.64.1/32''], Unverified = [''8.8.8.8''], AppliedWidth = 20,
      TotalAddresses = 4097\<rparr>"

lemma sample_build: "build sample_observed sample_sources default_options = Inr sample_result"
  by code_simp


text \<open>A profile never leaves the published ranges, and no observed IPv4 address is lost:
  one inside a published range is routed, one outside every range is listed as unverified,
  and the list of unverified addresses is sorted and holds nothing else.\<close>

theorem build_cross_checked:
  assumes "build observed sources opt = Inr r" "NarrowestPrefixWidth opt \<le> 32"
  shows "routed (CIDRs r) \<subseteq> (\<Union>s \<in> set sources. cov (src_prefix s)) \<and>
    (\<forall>a. V4 a \<in> set observed \<longrightarrow>
       (if source_of a sources = None then v4_string a \<in> set (Unverified r) else a \<in> routed (CIDRs r))) \<and>
    (\<forall>u \<in> set (Unverified r). \<exists>a. V4 a \<in> set observed \<and> source_of a sources = None \<and> u = v4_string a) \<and>
    sorted (Unverified r)"
proof -
  note b = build_from_result [OF build_Inr [OF assms(1)]]
  have w: "AppliedWidth r \<le> 32" using b assms(2) by linarith
  note ex = build_routed(1) [OF assms]
  have "routed (CIDRs r) \<subseteq> (\<Union>s \<in> set sources. cov (src_prefix s))"
    unfolding ex using reach_in_source(2) [OF _ w] source_of_SomeD(1)
    by (fastforce split: option.splits)
  moreover have "a \<in> routed (CIDRs r)" if "V4 a \<in> set observed" "source_of a sources = Some s" for a s
    unfolding ex using that reach_in_source(1) [OF that(2) w] by force
  moreover have "Unverified r = sort (unverified_of observed sources)" using b by simp
  ultimately show ?thesis by (auto simp: in_unverified_of)
qed

theorem build_cross_checked_witness:
  "0x0D200105 \<in> routed (CIDRs sample_result) \<and> ''8.8.8.8'' \<in> set (Unverified sample_result)"
proof -
  have n: "NarrowestPrefixWidth default_options \<le> 32" by (simp add: default_options_def)
  note c = build_cross_checked [OF sample_build n]
  have s: "source_of 0x0D200105 sample_sources \<noteq> None" "source_of 0x08080808 sample_sources = None"
    "v4_string 0x08080808 = ''8.8.8.8''"
    by code_simp+
  have "V4 0x0D200105 \<in> set sample_observed" "V4 0x08080808 \<in> set sample_observed"
    by (simp_all add: sample_observed_def)
  with c s show ?thesis by (metis (no_types))
qed

text \<open>The reported size is the exact number of addresses routed, with no wrap-around of
  the 64-bit counter. Every width between the widest allowed and the applied one was tried and
  was over the budget, so the applied width is the widest one that fits; only at the narrowest
  width may the budget be exceeded.\<close>

theorem build_size:
  assumes "build observed sources opt = Inr r" "NarrowestPrefixWidth opt \<le> 32"
  shows "unat (TotalAddresses r) = card (routed (CIDRs r)) \<and>
    (TotalAddresses r \<le> MaxTotalAddresses opt \<or> AppliedWidth r = NarrowestPrefixWidth opt) \<and>
    (\<forall>v. MaxPrefixWidth opt \<le> v \<and> v < AppliedWidth r \<longrightarrow>
       unat (MaxTotalAddresses opt) <
       card (\<Union>a \<in> {a. V4 a \<in> set observed}.
         case source_of a sources of None \<Rightarrow> {} | Some s \<Rightarrow> reach_of v s a))"
proof -
  note b = build_from_result [OF build_Inr [OF assms(1)]]
  have size: "unat (count_addresses (compact (widen_all (matched_of observed sources) v))) =
      card (\<Union>a \<in> {a. V4 a \<in> set observed}.
         case source_of a sources of None \<Rightarrow> {} | Some s \<Rightarrow> reach_of v s a)" if "v \<le> 32" for v
  proof -
    note wc = widen_all_cov [OF that, of observed sources]
    note cs = compact_spec [OF wc(1)]
    show ?thesis using count_addresses_card cs wc(2) unfolding minimal_def by presburger
  qed
  have w: "AppliedWidth r \<le> 32" using b assms(2) by linarith
  have "unat (TotalAddresses r) = card (routed (CIDRs r))"
    using size [OF w] b build_routed(1) [OF assms] by simp
  moreover have "unat (MaxTotalAddresses opt) <
       card (\<Union>a \<in> {a. V4 a \<in> set observed}.
         case source_of a sources of None \<Rightarrow> {} | Some s \<Rightarrow> reach_of v s a)"
    if v: "MaxPrefixWidth opt \<le> v" "v < AppliedWidth r" for v
  proof -
    have "v \<le> 32" using v w by linarith
    moreover have "MaxTotalAddresses opt <
        count_addresses (compact (widen_all (matched_of observed sources) v))"
      using b v by (simp add: not_le)
    ultimately show ?thesis using size [of v] unfolding word_less_nat_alt by (simp only:)
  qed
  moreover have "TotalAddresses r \<le> MaxTotalAddresses opt \<or> AppliedWidth r = NarrowestPrefixWidth opt"
    using b by blast
  ultimately show ?thesis by blast
qed

theorem build_size_witness:
  "unat (TotalAddresses sample_result) = card (routed (CIDRs sample_result)) \<and>
   TotalAddresses sample_result = 4097"
proof -
  have n: "NarrowestPrefixWidth default_options \<le> 32" by (simp add: default_options_def)
  have "TotalAddresses sample_result = 4097" by (simp add: sample_result_def)
  then show ?thesis using build_size [OF sample_build n, THEN conjunct1] by blast
qed

text \<open>The address budget does not cap the whole profile: at the narrowest width the build
  returns what it has. Two neighbouring blocks and one host exceed a budget of 256.\<close>

theorem build_budget_exceeded:
  "\<exists>r. build sample_observed sample_sources
         \<lparr>MaxPrefixWidth = 23, NarrowestPrefixWidth = 24, MaxTotalAddresses = 256\<rparr> = Inr r \<and>
       256 < TotalAddresses r"
proof -
  have "build sample_observed sample_sources
         \<lparr>MaxPrefixWidth = 23, NarrowestPrefixWidth = 24, MaxTotalAddresses = 256\<rparr> =
      Inr \<lparr>CIDRs = [''13.32.1.0/24'', ''13.32.2.0/24'', ''99.83.64.1/32''], Unverified = [''8.8.8.8''],
        AppliedWidth = 24, TotalAddresses = 513\<rparr>"
    by code_simp
  then show ?thesis by simp
qed

text \<open>\<open>Overlaps\<close> reports nothing exactly when none of the other game's IPv4 addresses is
  among those the profile routes.\<close>

theorem overlaps_none_iff_disjoint:
  "profile_overlaps cidrs (map V4 ws) = [] \<longleftrightarrow> set ws \<inter> routed cidrs = {}"
proof -
  have hit: "(case parse_prefix c of None \<Rightarrow> None
        | Some p \<Rightarrow> map_option (\<lambda>a. (c, a)) (find (contains p) (map V4 ws))) = None \<longleftrightarrow>
      (\<forall>p w. parse_prefix c = Some p \<and> w \<in> set ws \<longrightarrow> \<not> contains p (V4 w))" for c
    by (auto simp: find_None_iff split: option.split)
  have "profile_overlaps cidrs (map V4 ws) = [] \<longleftrightarrow>
      (\<forall>c \<in> set cidrs. (case parse_prefix c of None \<Rightarrow> None
        | Some p \<Rightarrow> map_option (\<lambda>a. (c, a)) (find (contains p) (map V4 ws))) = None)"
    by (simp add: profile_overlaps_def List.map_filter_def filter_empty_conv comp_def del: not_None_eq)
  then show ?thesis unfolding hit routed_def by blast
qed

end
