(* ===== verification/Api.thy ===== *)
theory Api
  imports Netip
begin

text \<open>
  \<open>internal/api/types.go\<close>: the messages exchanged between the client, the relay agent and
  the control plane, and the check a peer must pass before it reaches a kernel. Go's \<open>int\<close>
  and \<open>int64\<close> fields are integers; no code computes with them. A JSON body appears in the
  model as the value it decodes to.
\<close>

record api_peer =
  PublicKey :: string
  InnerIP :: string

datatype peer_error = NoPublicKey | NoInnerIP | InnerIPUnparsed | InnerIPNotSingle

definition peer_validate :: "api_peer \<Rightarrow> peer_error option" where
  "peer_validate p =
     (if PublicKey p = [] then Some NoPublicKey
      else if InnerIP p = [] then Some NoInnerIP
      else case parse_prefix (InnerIP p) of
        None \<Rightarrow> Some InnerIPUnparsed
      | Some pfx \<Rightarrow>
          if \<not> is4 (pfx_addr pfx) \<or> pfx_bits pfx \<noteq> 32 then Some InnerIPNotSingle else None)"

record register_request =
  rq_contributor_key :: string
  rq_public_key :: string
  rq_endpoint :: string
  rq_region :: string
  rq_hostname :: string

record register_response =
  rs_relay_id :: string
  rs_relay_token :: string
  rs_inner_subnet :: string
  rs_inner_ip :: string
  rs_listen_port :: int

text \<open>\<open>LoadAvg1\<close> is carried but read by nobody; the model keeps the fields the store reads
  and the version string.\<close>

record relay_status =
  ActivePeers :: int
  TotalPeers :: int
  RxBytes :: int
  TxBytes :: int
  LoadAvg1 :: real
  AgentVersion :: string

record sync_response =
  Peers :: "api_peer list"
  GameCIDRs :: "string list"
  PollSecs :: int

record reachability_report =
  rr_contributor_key :: string
  rr_relay_public_key :: string
  rr_reachable :: bool
  rr_detail :: string

record activate_request =
  aq_contributor_key :: string
  aq_device_public_key :: string
  aq_fingerprint :: string

record device_summary =
  ds_id :: string
  ds_fingerprint :: string
  ds_last_seen :: string

record relay_offer =
  ro_relay_id :: string
  ro_endpoint :: string
  ro_public_key :: string
  ro_inner_ip :: string
  ro_region :: string
  ro_mtu :: int

record session_response =
  Relays :: "relay_offer list"
  ProfileVersion :: int

record profile_response =
  pr_version :: int
  pr_cidrs :: "string list"

record observation =
  DstIP :: string
  DstPort :: int

record observation_report =
  ob_contributor_key :: string
  ob_game_id :: string
  ob_observations :: "observation list"

record observation_accepted =
  Accepted :: int
  Rejected :: int

section \<open>Peers\<close>

text \<open>What \<open>Validate\<close> establishes: the prefix admits one address and no other.\<close>

lemma peer_validate_None_iff:
  "peer_validate p = None \<longleftrightarrow>
     PublicKey p \<noteq> [] \<and> (\<exists>w. parse_prefix (InnerIP p) = Some (Prefix (V4 w) 32))"
proof -
  have ne: "parse_prefix [] = None" by code_simp
  have "pfx = Prefix (V4 w) 32 \<longleftrightarrow> pfx_addr pfx = V4 w \<and> pfx_bits pfx = 32" for pfx w
    by (cases pfx) auto
  then show ?thesis using ne
    by (auto simp: peer_validate_def is4_iff split: option.splits)
qed

lemma contains_single [simp]: "contains (Prefix (V4 w) 32) a \<longleftrightarrow> a = V4 w"
proof (cases a)
  case (V4 v)
  then show ?thesis by (auto simp: contains_V4 word_unat_eq_iff simp del: contains.simps)
qed auto

text \<open>A peer that passes \<open>Validate\<close> is routed exactly one IPv4 address: the allowed-IPs
  entry installed for it contains that address and nothing else.\<close>

theorem validated_peer_single_address:
  assumes "peer_validate p = None"
  shows "\<exists>pfx w. parse_prefix (InnerIP p) = Some pfx \<and> (\<forall>a. contains pfx a \<longleftrightarrow> a = V4 w)"
  using assms unfolding peer_validate_None_iff by auto

theorem validated_peer_single_address_witness:
  "\<exists>pfx w. parse_prefix ''10.77.0.2/32'' = Some pfx \<and> (\<forall>a. contains pfx a \<longleftrightarrow> a = V4 w)"
proof -
  have "peer_validate \<lparr>PublicKey = ''k'', InnerIP = ''10.77.0.2/32''\<rparr> = None" by code_simp
  from validated_peer_single_address [OF this] show ?thesis by simp
qed

end
