(* ===== verification/Store.thy ===== *)
theory Store
  imports Api
begin

text \<open>
  \<open>internal/control/store.go\<close> and \<open>schema.sql\<close>: the tables of the control plane as a
  record of row lists, and one definition per query method of \<open>Store\<close>. Each operation is a
  function from the tables to the tables and a result. A statement that fails (connection
  lost, query refused) is decided by the environment, through the label the source gives its
  error; a constraint of the schema that an insert would break gives the same error. A failed
  transaction leaves the tables as they were, except for the subnet sequence, which Postgres
  never rolls back. SHA-256 is the parameter \<open>H\<close>, the clock, the random bytes and the text
  form of a timestamp are inputs. An operation is atomic here; two operations running
  concurrently are a sequence of the two.
\<close>

section \<open>Tables\<close>

record key_row =
  k_hash :: string
  k_status :: string
  k_max_devices :: int

record relay_row =
  r_id :: string
  r_key_hash :: string
  r_region :: string
  r_hostname :: string
  r_endpoint :: string
  r_pubkey :: string
  r_subnet :: string
  r_status :: string
  r_last_seen :: "nanos option"
  r_active_peers :: int
  r_rx_bytes :: int
  r_tx_bytes :: int
  r_trusted_after :: nanos
  r_token_hash :: string
  r_reachable_at :: "nanos option"
  r_detail :: string

record device_row =
  d_id :: string
  d_key_hash :: string
  d_pubkey :: string
  d_fingerprint :: string
  d_last_seen :: "nanos option"
  d_created_at :: nanos

record binding_row =
  b_device :: string
  b_relay :: string
  b_inner_ip :: string

record profile_row =
  p_version :: int
  p_cidrs :: "string list"

record observed_row =
  o_game :: string
  o_dst_ip :: string
  o_dst_port :: int
  o_key_hash :: string
  o_first_seen :: nanos
  o_last_seen :: nanos

text \<open>The tables, with the next value of \<open>relay_octet_seq\<close>.\<close>

record db =
  key_rows :: "key_row list"
  relay_rows :: "relay_row list"
  device_rows :: "device_row list"
  binding_rows :: "binding_row list"
  profile_rows :: "profile_row list"
  observed_rows :: "observed_row list"
  octet_seq :: int

definition empty_db :: db where
  "empty_db = \<lparr>key_rows = [], relay_rows = [], device_rows = [], binding_rows = [],
     profile_rows = [], observed_rows = [], octet_seq = 77\<rparr>"

section \<open>Environment and errors\<close>

record db_env =
  now :: nanos
  fails :: "string \<Rightarrow> bool"
  timestamp_text :: "nanos \<Rightarrow> string"

datatype store_error = ErrUnknownKey | ErrTooManyRelays | ErrUnauthorized | ErrSlotsFull | DbError string

type_synonym 'a outcome = "db \<times> (store_error + 'a)"

text \<open>One statement under its error label: when it fails, the operation ends in state \<open>db\<close>.\<close>

definition stmt :: "db_env \<Rightarrow> string \<Rightarrow> db \<Rightarrow> 'a outcome \<Rightarrow> 'a outcome" where
  "stmt env label db rest = (if fails env label then (db, Inl (DbError label)) else rest)"

definition maxRelaysPerKey :: nat where "maxRelaysPerKey = 10"

definition trustWindow :: nanos where "trustWindow = 48 * 3600 * second"

section \<open>Lookups\<close>

definition find_key :: "db \<Rightarrow> string \<Rightarrow> key_row option" where
  "find_key db kh = find (\<lambda>k. k_hash k = kh) (key_rows db)"

text \<open>The join on \<open>contributor_key\<close> with \<open>status = 'active'\<close>; the hash is the primary key.\<close>

definition key_active :: "db \<Rightarrow> string \<Rightarrow> bool" where
  "key_active db kh \<longleftrightarrow> (\<exists>k \<in> set (key_rows db). k_hash k = kh \<and> k_status k = ''active'')"

definition newest_profile :: "db \<Rightarrow> profile_row option" where
  "newest_profile db =
     (case sort_key (\<lambda>p. - p_version p) (profile_rows db) of [] \<Rightarrow> None | p # _ \<Rightarrow> Some p)"

section \<open>Keys\<close>

definition crockford :: string where "crockford = ''0123456789ABCDEFGHJKMNPQRSTVWXYZ''"

text \<open>\<open>NewContributorKey\<close> on the sixteen numbers below 32 it draws, in the order drawn.\<close>

definition key_group :: "nat list \<Rightarrow> string" where
  "key_group ns = map (\<lambda>n. crockford ! n) ns"

definition new_contributor_key :: "nat list \<Rightarrow> string" where
  "new_contributor_key ns =
     ''GNL-'' @ join ''-'' [key_group (take 4 ns), key_group (take 4 (drop 4 ns)),
        key_group (take 4 (drop 8 ns)), key_group (take 4 (drop 12 ns))]"

definition hex_digit :: "nat \<Rightarrow> char" where
  "hex_digit n = ''0123456789abcdef'' ! n"

definition hex_encode :: "string \<Rightarrow> string" where
  "hex_encode s = concat (map (\<lambda>c. [hex_digit (byte_of c div 16), hex_digit (byte_of c mod 16)]) s)"

definition new_relay_token :: "string \<Rightarrow> string" where
  "new_relay_token random_bytes = hex_encode random_bytes"

definition create_contributor_key ::
    "(string \<Rightarrow> string) \<Rightarrow> db_env \<Rightarrow> nat list option \<Rightarrow> db \<Rightarrow> string outcome" where
  "create_contributor_key H env rnd db =
     (case rnd of
        None \<Rightarrow> (db, Inl (DbError ''generate key''))
      | Some ns \<Rightarrow>
          let key = new_contributor_key ns in
          stmt env ''insert contributor key'' db
            (if find_key db (H key) \<noteq> None then (db, Inl (DbError ''insert contributor key''))
             else (db\<lparr>key_rows := key_rows db @
                     [\<lparr>k_hash = H key, k_status = ''active'', k_max_devices = 3\<rparr>]\<rparr>, Inr key)))"

section \<open>Relays\<close>

record register_input =
  ri_key :: string
  ri_pubkey :: string
  ri_endpoint :: string
  ri_region :: string
  ri_hostname :: string

record register_output =
  RelayID :: string
  RelayToken :: string
  InnerSubnet :: string
  RelayInnerIP :: string

text \<open>\<open>fmt.Sscanf(subnet, "10.%d.", &octet)\<close>: blanks and a sign are allowed before the digits.\<close>

definition scan_octet :: "string \<Rightarrow> int option" where
  "scan_octet s =
     (if \<not> has_prefix s ''10.'' then None
      else let t = dropWhile (\<lambda>c. c = CHR '' '') (drop 3 s);
               (neg, u) = (case t of [] \<Rightarrow> (False, []) | c # cs \<Rightarrow>
                 if c = CHR ''-'' then (True, cs) else if c = CHR ''+'' then (False, cs) else (False, t));
               ds = takeWhile is_digit u; v = int (digits_val ds)
           in if ds = [] \<or> \<not> has_prefix (dropWhile is_digit u) ''.'' \<or> v \<ge> 2 ^ 63 then None
              else Some (if neg then - v else v))"

definition subnet_of :: "int \<Rightarrow> string" where
  "subnet_of oct = ''10.'' @ dec_int oct @ ''.0.0/16''"

definition relay_id_of :: "(string \<Rightarrow> string) \<Rightarrow> string \<Rightarrow> string" where
  "relay_id_of H pub = ''relay-'' @ take 12 (H pub)"

definition register_result :: "string \<Rightarrow> string \<Rightarrow> string \<Rightarrow> store_error + register_output" where
  "register_result relay_id token subnet =
     (case scan_octet subnet of
        None \<Rightarrow> Inl (DbError ''unparseable subnet'')
      | Some oct \<Rightarrow> Inr \<lparr>RelayID = relay_id, RelayToken = token, InnerSubnet = subnet,
          RelayInnerIP = ''10.'' @ dec_int oct @ ''.0.1/16''\<rparr>)"

text \<open>The \<open>INSERT INTO relay\<close>, with the primary key, the unique columns and the reference.\<close>

definition insert_relay :: "relay_row \<Rightarrow> db \<Rightarrow> db option" where
  "insert_relay r db =
     (if (\<exists>q \<in> set (relay_rows db). r_id q = r_id r \<or> r_pubkey q = r_pubkey r \<or> r_token_hash q = r_token_hash r)
         \<or> find_key db (r_key_hash r) = None then None
      else Some (db\<lparr>relay_rows := relay_rows db @ [r]\<rparr>))"

definition new_relay ::
    "(string \<Rightarrow> string) \<Rightarrow> db_env \<Rightarrow> string \<Rightarrow> register_input \<Rightarrow> int \<Rightarrow> relay_row" where
  "new_relay H env token inp oct =
     \<lparr>r_id = relay_id_of H (ri_pubkey inp), r_key_hash = H (ri_key inp), r_region = ri_region inp,
      r_hostname = ri_hostname inp, r_endpoint = ri_endpoint inp, r_pubkey = ri_pubkey inp,
      r_subnet = subnet_of oct, r_status = ''pending'', r_last_seen = None, r_active_peers = 0,
      r_rx_bytes = 0, r_tx_bytes = 0, r_trusted_after = now env + trustWindow,
      r_token_hash = H token, r_reachable_at = None, r_detail = []\<rparr>"

text \<open>The branch for a public key not enrolled under this contributor key. After \<open>nextval\<close>
  every failure leaves the sequence advanced.\<close>

definition register_new ::
    "(string \<Rightarrow> string) \<Rightarrow> db_env \<Rightarrow> string \<Rightarrow> register_input \<Rightarrow> db \<Rightarrow> register_output outcome" where
  "register_new H env token inp db =
     stmt env ''count relays for key'' db (
     if length (filter (\<lambda>r. r_key_hash r = H (ri_key inp)) (relay_rows db)) \<ge> maxRelaysPerKey
     then (db, Inl ErrTooManyRelays)
     else stmt env ''check public key'' db (
     if \<exists>r \<in> set (relay_rows db). r_pubkey r = ri_pubkey inp then (db, Inl ErrUnknownKey)
     else stmt env ''allocate subnet'' db (
     if octet_seq db > 255 then (db, Inl (DbError ''allocate subnet''))
     else let oct = octet_seq db; db1 = db\<lparr>octet_seq := oct + 1\<rparr> in
     if oct > 255 then (db1, Inl (DbError ''pool exhausted''))
     else let r = new_relay H env token inp oct in
     stmt env ''insert relay'' db1 (
     case insert_relay r db1 of
       None \<Rightarrow> (db1, Inl (DbError ''insert relay''))
     | Some db2 \<Rightarrow> stmt env ''commit'' db1 (db2, register_result (r_id r) token (r_subnet r))))))"

definition register_again ::
    "(string \<Rightarrow> string) \<Rightarrow> db_env \<Rightarrow> string \<Rightarrow> register_input \<Rightarrow> relay_row \<Rightarrow> db \<Rightarrow> register_output outcome" where
  "register_again H env token inp r db =
     stmt env ''rotate relay token'' db (
     if \<exists>q \<in> set (relay_rows db). r_id q \<noteq> r_id r \<and> r_token_hash q = H token
     then (db, Inl (DbError ''rotate relay token''))
     else stmt env ''commit'' db
       (db\<lparr>relay_rows := map (\<lambda>q. if r_id q = r_id r \<and> r_key_hash q = H (ri_key inp)
             then q\<lparr>r_token_hash := H token, r_endpoint := ri_endpoint inp, r_region := ri_region inp,
                    r_hostname := ri_hostname inp\<rparr> else q) (relay_rows db)\<rparr>,
        register_result (r_id r) token (r_subnet r)))"

definition register_relay ::
    "(string \<Rightarrow> string) \<Rightarrow> db_env \<Rightarrow> string option \<Rightarrow> register_input \<Rightarrow> db \<Rightarrow> register_output outcome" where
  "register_relay H env rnd inp db =
     stmt env ''look up contributor key'' db (
     case find_key db (H (ri_key inp)) of
       None \<Rightarrow> (db, Inl ErrUnknownKey)
     | Some k \<Rightarrow>
         if k_status k \<noteq> ''active'' then (db, Inl ErrUnknownKey)
         else case rnd of
           None \<Rightarrow> (db, Inl (DbError ''generate relay token''))
         | Some random_bytes \<Rightarrow>
             let token = new_relay_token random_bytes in
             stmt env ''begin'' db (
             stmt env ''look up relay'' db (
             case find (\<lambda>r. r_pubkey r = ri_pubkey inp \<and> r_key_hash r = H (ri_key inp)) (relay_rows db) of
               None \<Rightarrow> register_new H env token inp db
             | Some r \<Rightarrow> register_again H env token inp r db)))"

definition authenticate_relay ::
    "(string \<Rightarrow> string) \<Rightarrow> db_env \<Rightarrow> string \<Rightarrow> db \<Rightarrow> store_error + string" where
  "authenticate_relay H env token db =
     (if token = [] then Inl ErrUnauthorized
      else if fails env ''authenticate relay'' then Inl (DbError ''authenticate relay'')
      else case find (\<lambda>r. r_token_hash r = H token) (relay_rows db) of
        None \<Rightarrow> Inl ErrUnauthorized
      | Some r \<Rightarrow> Inr (r_id r))"

definition record_status :: "db_env \<Rightarrow> string \<Rightarrow> relay_status \<Rightarrow> db \<Rightarrow> unit outcome" where
  "record_status env relay_id st db =
     stmt env ''record status'' db
       (db\<lparr>relay_rows := map (\<lambda>r. if r_id r = relay_id
             then r\<lparr>r_last_seen := Some (now env), r_active_peers := ActivePeers st,
                    r_rx_bytes := RxBytes st, r_tx_bytes := TxBytes st,
                    r_status := (if r_reachable_at r \<noteq> None then ''up'' else r_status r)\<rparr>
             else r) (relay_rows db)\<rparr>, Inr ())"

definition record_reachability ::
    "(string \<Rightarrow> string) \<Rightarrow> db_env \<Rightarrow> string \<Rightarrow> string \<Rightarrow> bool \<Rightarrow> string \<Rightarrow> db \<Rightarrow> unit outcome" where
  "record_reachability H env key pub ok detail db =
     (let hit = (\<lambda>r. r_pubkey r = pub \<and> r_key_hash r = H key \<and> key_active db (r_key_hash r));
          upd = (\<lambda>r. if ok then r\<lparr>r_reachable_at := Some (now env), r_status := ''up'', r_detail := []\<rparr>
                     else r\<lparr>r_status := ''unreachable'', r_detail := detail\<rparr>)
      in stmt env ''record reachability'' db
           (if filter hit (relay_rows db) = [] then (db, Inl ErrUnknownKey)
            else (db\<lparr>relay_rows := map (\<lambda>r. if hit r then upd r else r) (relay_rows db)\<rparr>, Inr ())))"

text \<open>The interval reaches SQL in whole seconds, \<open>int(after.Seconds())\<close>, cut towards zero.\<close>

definition whole_seconds :: "nanos \<Rightarrow> int" where
  "whole_seconds d = (if d < 0 then - ((- d) div second) else d div second)"

definition relay_stale :: "db_env \<Rightarrow> nanos \<Rightarrow> relay_row \<Rightarrow> bool" where
  "relay_stale env after r \<longleftrightarrow> r_status r = ''up'' \<and>
     (case r_last_seen r of None \<Rightarrow> True | Some t \<Rightarrow> t < now env - whole_seconds after * second)"

definition mark_stale_relays_down :: "db_env \<Rightarrow> nanos \<Rightarrow> db \<Rightarrow> nat outcome" where
  "mark_stale_relays_down env after db =
     stmt env ''mark stale relays down'' db
       (db\<lparr>relay_rows := map (\<lambda>r. if relay_stale env after r then r\<lparr>r_status := ''down''\<rparr> else r)
            (relay_rows db)\<rparr>,
        Inr (length (filter (relay_stale env after) (relay_rows db))))"

definition peer_rows :: "db \<Rightarrow> string \<Rightarrow> api_peer list" where
  "peer_rows db relay_id =
     sort_key PublicKey
       [\<lparr>PublicKey = d_pubkey d, InnerIP = b_inner_ip b\<rparr>.
          b \<leftarrow> binding_rows db, d \<leftarrow> device_rows db, d_id d = b_device b \<and> key_active db (d_key_hash d),
          r \<leftarrow> relay_rows db, r_id r = b_relay b \<and> key_active db (r_key_hash r), b_relay b = relay_id]"

definition desired_state :: "db_env \<Rightarrow> string \<Rightarrow> db \<Rightarrow> store_error + api_peer list \<times> string list" where
  "desired_state env relay_id db =
     (if fails env ''read peers'' then Inl (DbError ''read peers'')
      else if fails env ''read profile'' then Inl (DbError ''read profile'')
      else case newest_profile db of
        None \<Rightarrow> Inr (peer_rows db relay_id, [])
      | Some p \<Rightarrow> Inr (peer_rows db relay_id, p_cidrs p))"

section \<open>Devices\<close>

definition devices_for_key :: "db_env \<Rightarrow> string \<Rightarrow> db \<Rightarrow> store_error + device_summary list" where
  "devices_for_key env kh db =
     (if fails env ''list devices'' then Inl (DbError ''list devices'')
      else Inr (map (\<lambda>d. \<lparr>ds_id = d_id d, ds_fingerprint = d_fingerprint d,
             ds_last_seen = (case d_last_seen d of None \<Rightarrow> [] | Some t \<Rightarrow> timestamp_text env t)\<rparr>)
           (sort_key d_created_at (filter (\<lambda>d. d_key_hash d = kh) (device_rows db)))))"

text \<open>The candidate addresses of a relay are numbered from 1; number 0 would be the relay's
  own \<open>.0.1\<close>.\<close>

definition host_ip :: "string \<Rightarrow> nat \<Rightarrow> string" where
  "host_ip pre n = pre @ dec (n div 254) @ ''.'' @ dec (n mod 254 + 1) @ ''/32''"

function first_free :: "string \<Rightarrow> string list \<Rightarrow> nat \<Rightarrow> string option" where
  "first_free pre taken n =
     (if n > 65000 then None
      else if host_ip pre n \<notin> set taken then Some (host_ip pre n)
      else first_free pre taken (n + 1))"
  by pat_completeness auto
termination by (relation "measure (\<lambda>(p, t, n). 65001 - n)") auto

declare first_free.simps [simp del]

definition taken_ips :: "binding_row list \<Rightarrow> string \<Rightarrow> string list" where
  "taken_ips bs relay_id = map b_inner_ip (filter (\<lambda>b. b_relay b = relay_id) bs)"

definition octet_prefix :: "int \<Rightarrow> string" where
  "octet_prefix oct = ''10.'' @ dec_int oct @ ''.''"

fun bind_device :: "db_env \<Rightarrow> string \<Rightarrow> relay_row list \<Rightarrow> binding_row list \<Rightarrow> store_error + binding_row list" where
  "bind_device env dev [] bs = Inr bs"
| "bind_device env dev (r # rs) bs =
     (case scan_octet (r_subnet r) of
        None \<Rightarrow> bind_device env dev rs bs
      | Some oct \<Rightarrow>
          if fails env (''allocate inner ip on '' @ r_id r) then Inl (DbError (''allocate inner ip on '' @ r_id r))
          else case first_free (octet_prefix oct) (taken_ips bs (r_id r)) 1 of
            None \<Rightarrow> Inl (DbError (''allocate inner ip on '' @ r_id r))
          | Some ip \<Rightarrow>
              if fails env (''bind device to '' @ r_id r) then Inl (DbError (''bind device to '' @ r_id r))
              else if \<exists>b \<in> set bs. b_device b = dev \<and> b_relay b = r_id r then bind_device env dev rs bs
              else bind_device env dev rs (bs @ [\<lparr>b_device = dev, b_relay = r_id r, b_inner_ip = ip\<rparr>]))"

definition bind_device_to_relays :: "db_env \<Rightarrow> string \<Rightarrow> db \<Rightarrow> store_error + db" where
  "bind_device_to_relays env dev db =
     (if fails env ''list relays'' then Inl (DbError ''list relays'')
      else map_sum id (\<lambda>bs. db\<lparr>binding_rows := bs\<rparr>) (bind_device env dev (relay_rows db) (binding_rows db)))"

definition device_id_of :: "(string \<Rightarrow> string) \<Rightarrow> string \<Rightarrow> string" where
  "device_id_of H pub = ''dev-'' @ take 12 (H pub)"

definition insert_device :: "device_row \<Rightarrow> db \<Rightarrow> db option" where
  "insert_device d db =
     (if (\<exists>e \<in> set (device_rows db). d_id e = d_id d \<or> d_pubkey e = d_pubkey d)
         \<or> find_key db (d_key_hash d) = None then None
      else Some (db\<lparr>device_rows := device_rows db @ [d]\<rparr>))"

text \<open>The end of \<open>ActivateDevice\<close>: bind, then commit; \<open>db\<close> is the state to roll back to.\<close>

definition activate_finish :: "db_env \<Rightarrow> string \<Rightarrow> db \<Rightarrow> db \<Rightarrow> string outcome" where
  "activate_finish env dev db db1 =
     (case bind_device_to_relays env dev db1 of
        Inl e \<Rightarrow> (db, Inl e)
      | Inr db2 \<Rightarrow> stmt env ''commit'' db (db2, Inr dev))"

text \<open>\<open>ActivateDevice\<close>: the tables, the devices holding the slots and the result.\<close>

definition activate_device ::
    "(string \<Rightarrow> string) \<Rightarrow> db_env \<Rightarrow> string \<Rightarrow> string \<Rightarrow> string \<Rightarrow> db
      \<Rightarrow> db \<times> device_summary list \<times> (store_error + string)" where
  "activate_device H env key pub fp db =
     (let kh = H key; none = (\<lambda>(s, r). (s, [], r)) in
      if fails env ''look up key'' then (db, [], Inl (DbError ''look up key''))
      else case find_key db kh of
        None \<Rightarrow> (db, [], Inl ErrUnknownKey)
      | Some k \<Rightarrow>
          if k_status k \<noteq> ''active'' then (db, [], Inl ErrUnknownKey)
          else if fails env ''begin'' then (db, [], Inl (DbError ''begin''))
          else if fails env ''look up device'' then (db, [], Inl (DbError ''look up device''))
          else case find (\<lambda>d. d_pubkey d = pub \<and> d_key_hash d = kh) (device_rows db) of
            None \<Rightarrow>
              if fails env ''count devices'' then (db, [], Inl (DbError ''count devices''))
              else if int (length (filter (\<lambda>d. d_key_hash d = kh) (device_rows db))) \<ge> k_max_devices k then
                (case devices_for_key env kh db of
                   Inl e \<Rightarrow> (db, [], Inl e)
                 | Inr held \<Rightarrow> (db, held, Inl ErrSlotsFull))
              else if fails env ''insert device'' then (db, [], Inl (DbError ''insert device''))
              else
                (case insert_device \<lparr>d_id = device_id_of H pub, d_key_hash = kh, d_pubkey = pub,
                         d_fingerprint = fp, d_last_seen = None, d_created_at = now env\<rparr> db of
                   None \<Rightarrow> (db, [], Inl (DbError ''insert device''))
                 | Some db1 \<Rightarrow> none (activate_finish env (device_id_of H pub) db db1))
          | Some d \<Rightarrow>
              if fails env ''refresh device'' then (db, [], Inl (DbError ''refresh device''))
              else none (activate_finish env (d_id d) db
                (db\<lparr>device_rows := map (\<lambda>e. if d_id e = d_id d
                      then e\<lparr>d_fingerprint := fp, d_last_seen := Some (now env)\<rparr> else e) (device_rows db)\<rparr>)))"

definition offer_rows :: "db_env \<Rightarrow> string \<Rightarrow> int \<Rightarrow> db \<Rightarrow> relay_offer list" where
  "offer_rows env dev mtu db =
     sort_key (\<lambda>o'. (ro_region o', ro_relay_id o'))
       [\<lparr>ro_relay_id = r_id r, ro_endpoint = r_endpoint r, ro_public_key = r_pubkey r,
         ro_inner_ip = b_inner_ip b, ro_region = r_region r, ro_mtu = mtu\<rparr>.
          r \<leftarrow> relay_rows db, b \<leftarrow> binding_rows db, b_relay b = r_id r \<and> b_device b = dev,
          key_active db (r_key_hash r) \<and> r_status r = ''up'' \<and> r_trusted_after r \<le> now env]"

definition session ::
    "(string \<Rightarrow> string) \<Rightarrow> db_env \<Rightarrow> string \<Rightarrow> string \<Rightarrow> int \<Rightarrow> db \<Rightarrow> session_response outcome" where
  "session H env key pub mtu db =
     stmt env ''look up device'' db (
     case find (\<lambda>d. d_pubkey d = pub \<and> d_key_hash d = H key \<and> key_active db (d_key_hash d)) (device_rows db) of
       None \<Rightarrow> (db, Inl ErrUnknownKey)
     | Some d \<Rightarrow>
         stmt env ''touch device'' db (
         let db1 = db\<lparr>device_rows := map (\<lambda>e. if d_id e = d_id d
               then e\<lparr>d_last_seen := Some (now env)\<rparr> else e) (device_rows db)\<rparr> in
         stmt env ''list relays'' db1 (
         stmt env ''read profile version'' db1
           (db1, Inr \<lparr>Relays = offer_rows env (d_id d) mtu db1,
              ProfileVersion = (case newest_profile db1 of None \<Rightarrow> 0 | Some p \<Rightarrow> p_version p)\<rparr>))))"

text \<open>\<open>ON DELETE CASCADE\<close> removes the bindings of a deleted device or relay.\<close>

definition delete_device :: "(device_row \<Rightarrow> bool) \<Rightarrow> db \<Rightarrow> db" where
  "delete_device P db =
     db\<lparr>device_rows := filter (\<lambda>d. \<not> P d) (device_rows db),
        binding_rows := filter (\<lambda>b. \<not> (\<exists>d \<in> set (device_rows db). P d \<and> d_id d = b_device b)) (binding_rows db)\<rparr>"

definition release_device ::
    "(string \<Rightarrow> string) \<Rightarrow> db_env \<Rightarrow> string \<Rightarrow> string \<Rightarrow> db \<Rightarrow> unit outcome" where
  "release_device H env key dev db =
     (let hit = (\<lambda>d. d_id d = dev \<and> d_key_hash d = H key) in
      stmt env ''release device'' db
        (if filter hit (device_rows db) = [] then (db, Inl ErrUnknownKey)
         else (delete_device hit db, Inr ())))"

section \<open>Profiles and observations\<close>

definition get_profile :: "db_env \<Rightarrow> db \<Rightarrow> store_error + profile_response" where
  "get_profile env db =
     (if fails env ''read profile'' then Inl (DbError ''read profile'')
      else case newest_profile db of
        None \<Rightarrow> Inr \<lparr>pr_version = 0, pr_cidrs = []\<rparr>
      | Some p \<Rightarrow> Inr \<lparr>pr_version = p_version p, pr_cidrs = p_cidrs p\<rparr>)"

definition max_version :: "db \<Rightarrow> int" where
  "max_version db = (case profile_rows db of [] \<Rightarrow> 0 | p # ps \<Rightarrow> foldl max (p_version p) (map p_version ps))"

definition publish_profile :: "db_env \<Rightarrow> string list \<Rightarrow> db \<Rightarrow> int outcome" where
  "publish_profile env cidrs db =
     (if cidrs = [] then (db, Inl (DbError ''refusing to publish an empty profile''))
      else stmt env ''publish profile'' db
        (let v = max_version db + 1 in
         (db\<lparr>profile_rows := profile_rows db @ [\<lparr>p_version = v, p_cidrs = cidrs\<rparr>]\<rparr>, Inr v)))"

definition observed_addresses :: "db_env \<Rightarrow> string \<Rightarrow> db \<Rightarrow> store_error + string list" where
  "observed_addresses env game db =
     (if fails env ''read observations'' then Inl (DbError ''read observations'')
      else Inr (sort (remdups (map o_dst_ip (filter (\<lambda>o'. o_game o' = game) (observed_rows db))))))"

definition record_observation ::
    "(string \<Rightarrow> string) \<Rightarrow> db_env \<Rightarrow> string \<Rightarrow> string \<Rightarrow> string \<Rightarrow> int \<Rightarrow> db \<Rightarrow> unit outcome" where
  "record_observation H env key game ip port db =
     (let kh = H key; same = (\<lambda>o'. o_game o' = game \<and> o_dst_ip o' = ip \<and> o_dst_port o' = port \<and> o_key_hash o' = kh) in
      stmt env ''record observation'' db
        (if \<not> key_active db kh then (db, Inl ErrUnknownKey)
         else if \<exists>o' \<in> set (observed_rows db). same o' then
           (db\<lparr>observed_rows := map (\<lambda>o'. if same o' then o'\<lparr>o_last_seen := now env\<rparr> else o') (observed_rows db)\<rparr>, Inr ())
         else (db\<lparr>observed_rows := observed_rows db @
                 [\<lparr>o_game = game, o_dst_ip = ip, o_dst_port = port, o_key_hash = kh,
                   o_first_seen = now env, o_last_seen = now env\<rparr>]\<rparr>, Inr ())))"

definition counted_reports :: "string \<Rightarrow> db \<Rightarrow> observed_row list" where
  "counted_reports game db =
     filter (\<lambda>o'. o_game o' = game \<and> key_active db (o_key_hash o')) (observed_rows db)"

definition candidate_addresses :: "db_env \<Rightarrow> string \<Rightarrow> int \<Rightarrow> db \<Rightarrow> store_error + string list" where
  "candidate_addresses env game min_reporters db =
     (if fails env ''read candidates'' then Inl (DbError ''read candidates'')
      else let os = counted_reports game db in
        Inr (sort (filter
          (\<lambda>ip. int (length (remdups (map o_key_hash (filter (\<lambda>o'. o_dst_ip o' = ip) os)))) \<ge> min_reporters)
          (remdups (map o_dst_ip os)))))"

end
