(* ===== verification/Store_Invariant.thy ===== *)
theory Store_Invariant
  imports Store
begin

text \<open>
  The well-formedness invariant of the control plane's tables and its preservation: every
  operation of \<open>Store\<close>, whatever fails, and the two administrative statements the deployment
  guide documents (revoking a key, deleting a relay) keep it. \<open>reachable\<close> are the states a
  deployment can be in.
\<close>

section \<open>Addresses of a relay\<close>

lemma is_digit_dec_int_hd: "0 \<le> n \<Longrightarrow> dec_int n = dec (nat n)"
  by (simp add: dec_int_def)

lemma hd_dec_not: "\<not> is_digit c \<Longrightarrow> dec n \<noteq> c # cs"
  using set_dec_digit [of c n] by auto

lemma scan_octet_prefix [simp]:
  assumes "0 \<le> n" "n < 2 ^ 63"
  shows "scan_octet (''10.'' @ dec_int n @ CHR ''.'' # rest) = Some n"
proof -
  obtain c cs where dc: "dec (nat n) = c # cs" by (cases "dec (nat n)") auto
  have c: "is_digit c" using set_dec_digit [of c "nat n"] dc by simp
  then have ne: "c \<noteq> CHR '' ''" "c \<noteq> CHR ''-''" "c \<noteq> CHR ''+''" by (auto simp: is_digit_def byte_of_def)
  have dot: "\<not> is_digit (CHR ''.'')" by simp
  have tw: "takeWhile is_digit (dec (nat n) @ CHR ''.'' # rest) = dec (nat n)"
    "dropWhile is_digit (dec (nat n) @ CHR ''.'' # rest) = CHR ''.'' # rest"
    using dec_digits [of "nat n"] dot
    by (simp_all add: list_all_iff takeWhile_append2 dropWhile_append2)
  have dw: "dropWhile (\<lambda>c. c = CHR '' '') (dec (nat n) @ CHR ''.'' # rest) = dec (nat n) @ CHR ''.'' # rest"
    using dc ne by simp
  have dv: "digits_val (c # cs) = nat n" using digits_val_dec [of "nat n"] dc by simp
  show ?thesis
    using assms tw dw dc ne dv by (simp add: scan_octet_def is_digit_dec_int_hd Let_def nat_less_iff)
qed

lemma scan_octet_subnet_of [simp]: "0 \<le> n \<Longrightarrow> n < 2 ^ 63 \<Longrightarrow> scan_octet (subnet_of n) = Some n"
  using scan_octet_prefix [of n "''0.0/16''"] by (simp add: subnet_of_def del: scan_octet_prefix)

lemma subnet_of_inj: "0 \<le> m \<Longrightarrow> 0 \<le> n \<Longrightarrow> subnet_of m = subnet_of n \<longleftrightarrow> m = n"
proof
  assume "0 \<le> m" "0 \<le> n" and e: "subnet_of m = subnet_of n"
  then have d: "dec (nat m) @ CHR ''.'' # ''0.0/16'' = dec (nat n) @ CHR ''.'' # ''0.0/16''"
    by (simp add: subnet_of_def is_digit_dec_int_hd)
  then have "dec (nat m) = dec (nat n)" by simp
  then show "m = n" using \<open>0 \<le> m\<close> \<open>0 \<le> n\<close> by (simp add: dec_inj)
qed simp

lemma host_ip_inj: "host_ip pre m = host_ip pre n \<longleftrightarrow> m = n"
proof
  assume "host_ip pre m = host_ip pre n"
  then have e: "dec (m div 254) @ CHR ''.'' # (dec (m mod 254 + 1) @ ''/32'') =
      dec (n div 254) @ CHR ''.'' # (dec (n mod 254 + 1) @ ''/32'')"
    by (simp add: host_ip_def)
  have "cut (CHR ''.'') (dec (m div 254) @ CHR ''.'' # (dec (m mod 254 + 1) @ ''/32'')) =
      cut (CHR ''.'') (dec (n div 254) @ CHR ''.'' # (dec (n mod 254 + 1) @ ''/32''))"
    by (simp only: e)
  then have "m div 254 = n div 254" "m mod 254 = n mod 254" by (auto simp: dec_inj)
  then show "m = n" by (metis div_mult_mod_eq)
qed simp

lemma first_free_Some:
  "first_free pre taken n = Some ip \<Longrightarrow> \<exists>m. n \<le> m \<and> m \<le> 65000 \<and> ip = host_ip pre m \<and> ip \<notin> set taken"
proof (induction pre taken n rule: first_free.induct)
  case (1 pre taken n)
  then show ?case
    by (subst (asm) (2) first_free.simps) (force split: if_splits dest: Suc_leD)
qed

lemma first_free_None:
  "first_free pre taken n = None \<Longrightarrow> n \<le> m \<Longrightarrow> m \<le> 65000 \<Longrightarrow> host_ip pre m \<in> set taken"
proof (induction pre taken n arbitrary: m rule: first_free.induct)
  case (1 pre taken n)
  show ?case
  proof (cases "m = n \<or> n > 65000")
    case True
    then show ?thesis using 1(2-4) by (subst (asm) first_free.simps) (auto split: if_splits)
  next
    case False
    have t: "host_ip pre n \<in> set taken" "first_free pre taken (n + 1) = None"
      using 1(2) False by (subst (asm) first_free.simps; simp split: if_splits)+
    show ?thesis
    proof (rule "1.IH")
      show "\<not> 65000 < n" "\<not> host_ip pre n \<notin> set taken" using False t by auto
      show "first_free pre taken (n + 1) = None" by (rule t)
      show "n + 1 \<le> m" "m \<le> 65000" using 1(3,4) False by auto
    qed
  qed
qed

lemma first_free_available:
  assumes "length taken < 65000"
  shows "first_free pre taken 1 \<noteq> None"
proof
  assume n: "first_free pre taken 1 = None"
  have "host_ip pre ` {1..65000} \<subseteq> set taken"
    using first_free_None [OF n] by auto
  then have "card (host_ip pre ` {1..65000}) \<le> card (set taken)" by (simp add: card_mono)
  moreover have "card (host_ip pre ` {1..65000}) = 65000"
    using card_image [of "host_ip pre" "{1..65000}"] by (simp add: inj_on_def host_ip_inj)
  ultimately show False using assms card_length [of taken] by simp
qed

section \<open>The invariant\<close>

definition keys_ok :: "key_row list \<Rightarrow> bool" where
  "keys_ok ks \<longleftrightarrow> distinct (map k_hash ks)"

text \<open>A subnet is \<open>10.x.0.0/16\<close> with \<open>x\<close> already handed out by the sequence.\<close>

definition subnet_ok :: "int \<Rightarrow> string \<Rightarrow> bool" where
  "subnet_ok seq s =
     (case scan_octet s of None \<Rightarrow> False | Some n \<Rightarrow> 77 \<le> n \<and> n < seq \<and> s = subnet_of n)"

definition relays_ok :: "key_row list \<Rightarrow> relay_row list \<Rightarrow> int \<Rightarrow> bool" where
  "relays_ok ks rs seq \<longleftrightarrow>
     distinct (map r_id rs) \<and> distinct (map r_pubkey rs) \<and> distinct (map r_token_hash rs) \<and>
     distinct (map r_subnet rs) \<and> 77 \<le> seq \<and> seq \<le> 256 \<and>
     (\<forall>r \<in> set rs. r_key_hash r \<in> k_hash ` set ks \<and> subnet_ok seq (r_subnet r)) \<and>
     (\<forall>k \<in> set ks. length (filter (\<lambda>r. r_key_hash r = k_hash k) rs) \<le> maxRelaysPerKey)"

definition devices_ok :: "key_row list \<Rightarrow> device_row list \<Rightarrow> bool" where
  "devices_ok ks ds \<longleftrightarrow>
     distinct (map d_id ds) \<and> distinct (map d_pubkey ds) \<and>
     (\<forall>d \<in> set ds. d_key_hash d \<in> k_hash ` set ks) \<and>
     (\<forall>k \<in> set ks. int (length (filter (\<lambda>d. d_key_hash d = k_hash k) ds)) \<le> k_max_devices k)"

text \<open>An inner address is one of the numbered hosts of the relay's own subnet.\<close>

definition host_in :: "string \<Rightarrow> string \<Rightarrow> bool" where
  "host_in subnet ip =
     (case scan_octet subnet of
        None \<Rightarrow> False
      | Some n \<Rightarrow> \<exists>m \<in> {1..65000}. ip = host_ip (octet_prefix n) m)"

definition bindings_ok :: "device_row list \<Rightarrow> relay_row list \<Rightarrow> binding_row list \<Rightarrow> bool" where
  "bindings_ok ds rs bs \<longleftrightarrow>
     distinct (map (\<lambda>b. (b_device b, b_relay b)) bs) \<and>
     distinct (map (\<lambda>b. (b_relay b, b_inner_ip b)) bs) \<and>
     (\<forall>b \<in> set bs. b_device b \<in> d_id ` set ds \<and>
        (\<exists>r \<in> set rs. r_id r = b_relay b \<and> host_in (r_subnet r) (b_inner_ip b)))"

definition profiles_ok :: "profile_row list \<Rightarrow> bool" where
  "profiles_ok ps \<longleftrightarrow>
     distinct (map p_version ps) \<and> (\<forall>p \<in> set ps. 1 \<le> p_version p \<and> p_cidrs p \<noteq> [])"

definition observed_ok :: "observed_row list \<Rightarrow> bool" where
  "observed_ok os \<longleftrightarrow> distinct (map (\<lambda>o'. (o_game o', o_dst_ip o', o_dst_port o', o_key_hash o')) os)"

definition db_ok :: "db \<Rightarrow> bool" where
  "db_ok db \<longleftrightarrow>
     keys_ok (key_rows db) \<and> relays_ok (key_rows db) (relay_rows db) (octet_seq db) \<and>
     devices_ok (key_rows db) (device_rows db) \<and>
     bindings_ok (device_rows db) (relay_rows db) (binding_rows db) \<and>
     profiles_ok (profile_rows db) \<and> observed_ok (observed_rows db)"

lemmas ok_defs = keys_ok_def relays_ok_def devices_ok_def bindings_ok_def profiles_ok_def observed_ok_def

lemma empty_db_ok: "db_ok empty_db"
  by (simp add: db_ok_def ok_defs empty_db_def)

section \<open>Updates that keep what identifies a row\<close>

text \<open>A row update that leaves the listed columns alone changes none of the conditions above.\<close>

lemma length_filter_map_same:
  "(\<And>x. x \<in> set xs \<Longrightarrow> P (f x) = P x) \<Longrightarrow> length (filter P (map f xs)) = length (filter P xs)"
  by (induction xs) auto

lemma map_map_same:
  "(\<And>x. x \<in> set xs \<Longrightarrow> g (f x) = g x) \<Longrightarrow> map g (map f xs) = map g xs"
  by simp

lemma relays_ok_map:
  assumes "\<And>r. r \<in> set rs \<Longrightarrow> r_id (f r) = r_id r \<and> r_pubkey (f r) = r_pubkey r \<and>
      r_key_hash (f r) = r_key_hash r \<and> r_subnet (f r) = r_subnet r"
    and "distinct (map r_token_hash (map f rs))"
    and "relays_ok ks rs seq"
  shows "relays_ok ks (map f rs) seq"
proof -
  have "map r_id (map f rs) = map r_id rs" "map r_pubkey (map f rs) = map r_pubkey rs"
    "map r_subnet (map f rs) = map r_subnet rs"
    using assms(1) by auto
  moreover have "length (filter (\<lambda>r. r_key_hash r = kh) (map f rs)) =
      length (filter (\<lambda>r. r_key_hash r = kh) rs)" for kh
    using assms(1) by (intro length_filter_map_same) simp
  moreover have "\<forall>r \<in> set (map f rs). r_key_hash r \<in> k_hash ` set ks \<and> subnet_ok seq (r_subnet r)"
    using assms(1,3) by (simp add: relays_ok_def)
  ultimately show ?thesis using assms(2,3) unfolding relays_ok_def by metis
qed

lemma relays_ok_map_token:
  assumes "\<And>r. r \<in> set rs \<Longrightarrow> r_id (f r) = r_id r \<and> r_pubkey (f r) = r_pubkey r \<and>
      r_key_hash (f r) = r_key_hash r \<and> r_subnet (f r) = r_subnet r \<and> r_token_hash (f r) = r_token_hash r"
    and "relays_ok ks rs seq"
  shows "relays_ok ks (map f rs) seq"
proof (rule relays_ok_map)
  have "map r_token_hash (map f rs) = map r_token_hash rs" using assms(1) by simp
  then show "distinct (map r_token_hash (map f rs))" using assms(2) by (simp only: relays_ok_def)
qed (use assms in auto)

lemma devices_ok_map:
  assumes "\<And>d. d \<in> set ds \<Longrightarrow> d_id (f d) = d_id d \<and> d_pubkey (f d) = d_pubkey d \<and> d_key_hash (f d) = d_key_hash d"
    and "devices_ok ks ds"
  shows "devices_ok ks (map f ds)"
proof -
  have "map d_id (map f ds) = map d_id ds" "map d_pubkey (map f ds) = map d_pubkey ds"
    using assms(1) by auto
  moreover have "length (filter (\<lambda>d. d_key_hash d = kh) (map f ds)) =
      length (filter (\<lambda>d. d_key_hash d = kh) ds)" for kh
    using assms(1) by (intro length_filter_map_same) simp
  moreover have "\<forall>d \<in> set (map f ds). d_key_hash d \<in> k_hash ` set ks"
    using assms by (simp add: devices_ok_def)
  ultimately show ?thesis using assms(2) unfolding devices_ok_def by metis
qed

lemma bindings_ok_mono:
  assumes "bindings_ok ds rs bs" "d_id ` set ds \<subseteq> d_id ` set ds'"
    and "\<And>r. r \<in> set rs \<Longrightarrow> \<exists>r' \<in> set rs'. r_id r' = r_id r \<and> r_subnet r' = r_subnet r"
  shows "bindings_ok ds' rs' bs"
  using assms unfolding bindings_ok_def by (metis (no_types, lifting) subsetD)

lemma bindings_ok_map_relays:
  assumes "bindings_ok ds rs bs" "\<And>r. r \<in> set rs \<Longrightarrow> r_id (f r) = r_id r \<and> r_subnet (f r) = r_subnet r"
  shows "bindings_ok ds (map f rs) bs"
  using assms(1) by (rule bindings_ok_mono) (use assms(2) in auto)

lemma bindings_ok_map_devices:
  assumes "bindings_ok ds rs bs" "\<And>d. d \<in> set ds \<Longrightarrow> d_id (f d) = d_id d"
  shows "bindings_ok (map f ds) rs bs"
  using assms(1) by (rule bindings_ok_mono) (use assms(2) in \<open>auto simp: image_image\<close>)

lemma distinct_map_filter_subset: "distinct (map f xs) \<Longrightarrow> distinct (map f (filter P xs))"
  by (simp add: distinct_map_filter)

lemma length_filter_filter_le: "length (filter P (filter Q xs)) \<le> length (filter P xs)"
  by (induction xs) auto

section \<open>Every operation keeps it\<close>

lemma find_key_None: "find_key db kh = None \<longleftrightarrow> kh \<notin> k_hash ` set (key_rows db)"
  by (auto simp: find_key_def find_None_iff)

lemma find_key_Some: "find_key db kh = Some k \<Longrightarrow> k \<in> set (key_rows db) \<and> k_hash k = kh"
  by (auto simp: find_key_def find_Some_iff)

lemma create_contributor_key_ok:
  assumes "db_ok db" "create_contributor_key H env rnd db = (db', r)"
  shows "db_ok db'"
proof -
  let ?k = "\<lambda>key. \<lparr>k_hash = H key, k_status = ''active'', k_max_devices = 3\<rparr>"
  have grow: "relays_ok (key_rows db @ [?k key]) (relay_rows db) (octet_seq db)"
    "devices_ok (key_rows db @ [?k key]) (device_rows db)"
    if "H key \<notin> k_hash ` set (key_rows db)" for key
  proof -
    have "filter (\<lambda>r. r_key_hash r = H key) (relay_rows db) = []"
      "filter (\<lambda>d. d_key_hash d = H key) (device_rows db) = []"
      using assms(1) that unfolding db_ok_def relays_ok_def devices_ok_def filter_empty_conv by metis+
    then show "relays_ok (key_rows db @ [?k key]) (relay_rows db) (octet_seq db)"
      "devices_ok (key_rows db @ [?k key]) (device_rows db)"
      using assms(1) by (simp_all add: db_ok_def relays_ok_def devices_ok_def)
  qed
  show ?thesis
    using assms grow
    by (auto simp: create_contributor_key_def stmt_def find_key_None db_ok_def keys_ok_def Let_def
        split: option.splits if_splits)
qed

lemma subnet_ok_mono: "subnet_ok seq s \<Longrightarrow> seq \<le> seq' \<Longrightarrow> subnet_ok seq' s"
  by (auto simp: subnet_ok_def split: option.splits)

lemma relays_ok_seq: "relays_ok ks rs seq \<Longrightarrow> seq \<le> seq' \<Longrightarrow> seq' \<le> 256 \<Longrightarrow> relays_ok ks rs seq'"
  unfolding relays_ok_def using subnet_ok_mono by fastforce

lemma relays_ok_snoc:
  assumes ok: "relays_ok ks rs seq" and seq: "seq \<le> 255"
    and len: "length (filter (\<lambda>q. r_key_hash q = r_key_hash r) rs) < maxRelaysPerKey"
    and fresh: "\<not> (\<exists>q \<in> set rs. r_id q = r_id r \<or> r_pubkey q = r_pubkey r \<or> r_token_hash q = r_token_hash r)"
    and key: "r_key_hash r \<in> k_hash ` set ks" and sub: "r_subnet r = subnet_of seq"
  shows "relays_ok ks (rs @ [r]) (seq + 1)"
proof -
  have s77: "77 \<le> seq" using ok by (simp add: relays_ok_def)
  have new: "subnet_ok (seq + 1) (r_subnet r)"
    using s77 seq sub by (simp add: subnet_ok_def)
  have notin: "r_subnet r \<notin> r_subnet ` set rs"
  proof
    assume "r_subnet r \<in> r_subnet ` set rs"
    then have "subnet_ok seq (r_subnet r)" using ok by (auto simp: relays_ok_def)
    then show False using s77 seq sub by (simp add: subnet_ok_def)
  qed
  have "length (filter (\<lambda>q. r_key_hash q = k_hash k) (rs @ [r])) \<le> maxRelaysPerKey" if "k \<in> set ks" for k
    using ok that len by (auto simp: relays_ok_def)
  moreover have "\<forall>q \<in> set (rs @ [r]). r_key_hash q \<in> k_hash ` set ks \<and> subnet_ok (seq + 1) (r_subnet q)"
    using ok key new subnet_ok_mono [of seq _ "seq + 1"] by (auto simp: relays_ok_def)
  moreover have "distinct (map r_id (rs @ [r]))" "distinct (map r_pubkey (rs @ [r]))"
    "distinct (map r_token_hash (rs @ [r]))" "distinct (map r_subnet (rs @ [r]))"
    using ok fresh notin by (auto simp: relays_ok_def)
  ultimately show ?thesis using s77 seq unfolding relays_ok_def by simp
qed

lemma bindings_ok_more_relays: "bindings_ok ds rs bs \<Longrightarrow> set rs \<subseteq> set rs' \<Longrightarrow> bindings_ok ds rs' bs"
  by (rule bindings_ok_mono) auto

lemma insert_relay_Some:
  "insert_relay r db = Some db' \<longleftrightarrow>
     \<not> (\<exists>q \<in> set (relay_rows db). r_id q = r_id r \<or> r_pubkey q = r_pubkey r \<or> r_token_hash q = r_token_hash r) \<and>
     r_key_hash r \<in> k_hash ` set (key_rows db) \<and> db' = db\<lparr>relay_rows := relay_rows db @ [r]\<rparr>"
  by (auto simp: insert_relay_def find_key_None)

text \<open>The two ways \<open>register_new\<close> can end: with the sequence possibly advanced and nothing
  else changed, or with one more relay row.\<close>

lemma register_new_cases:
  assumes "register_new H env token inp db = (db', res)"
  obtains (same) e where "res = Inl e" "db' = db"
  | (burnt) e where "res = Inl e" "octet_seq db \<le> 255" "db' = db\<lparr>octet_seq := octet_seq db + 1\<rparr>"
  | (added) r where "r = new_relay H env token inp (octet_seq db)" "octet_seq db \<le> 255"
      "length (filter (\<lambda>q. r_key_hash q = r_key_hash r) (relay_rows db)) < maxRelaysPerKey"
      "\<not> (\<exists>q \<in> set (relay_rows db). r_id q = r_id r \<or> r_pubkey q = r_pubkey r \<or> r_token_hash q = r_token_hash r)"
      "r_key_hash r \<in> k_hash ` set (key_rows db)"
      "db' = db\<lparr>octet_seq := octet_seq db + 1, relay_rows := relay_rows db @ [r]\<rparr>"
      "res = register_result (r_id r) token (r_subnet r)"
proof -
  let ?db1 = "db\<lparr>octet_seq := octet_seq db + 1\<rparr>"
  let ?r = "new_relay H env token inp (octet_seq db)"
  show thesis
  proof (cases "fails env ''count relays for key'' \<or>
      length (filter (\<lambda>r. r_key_hash r = H (ri_key inp)) (relay_rows db)) \<ge> maxRelaysPerKey \<or>
      fails env ''check public key'' \<or> (\<exists>r \<in> set (relay_rows db). r_pubkey r = ri_pubkey inp) \<or>
      fails env ''allocate subnet'' \<or> octet_seq db > 255")
    case True
    then show thesis
      using assms same by (auto simp: register_new_def stmt_def Let_def split: if_splits)
  next
    case go: False
    show thesis
    proof (cases "fails env ''insert relay'' \<or> insert_relay ?r ?db1 = None \<or> fails env ''commit''")
      case True
      then show thesis
        using assms go burnt by (auto simp: register_new_def stmt_def Let_def split: if_splits option.splits)
    next
      case False
      then obtain db2 where db2: "insert_relay ?r ?db1 = Some db2" by auto
      have kh: "r_key_hash ?r = H (ri_key inp)" by (simp add: new_relay_def)
      from db2 assms go False have "db' = db2" "res = register_result (r_id ?r) token (r_subnet ?r)"
        by (auto simp: register_new_def stmt_def Let_def)
      with db2 go show thesis
        by (intro added [of ?r]) (auto simp: insert_relay_Some kh)
    qed
  qed
qed

lemma register_new_ok:
  assumes "db_ok db" "register_new H env token inp db = (db', res)"
  shows "db_ok db'"
  using assms(2)
proof (cases rule: register_new_cases)
  case same
  then show ?thesis using assms(1) by simp
next
  case burnt
  then show ?thesis
    using assms(1) relays_ok_seq [of "key_rows db" "relay_rows db" "octet_seq db" "octet_seq db + 1"]
    by (simp add: db_ok_def)
next
  case (added r)
  have "r_subnet r = subnet_of (octet_seq db)" using added(1) by (simp add: new_relay_def)
  with added assms(1) relays_ok_snoc show ?thesis
    by (auto simp: db_ok_def intro: bindings_ok_more_relays)
qed

lemma register_again_ok:
  assumes ok: "db_ok db" and run: "register_again H env token inp r db = (db', res)"
  shows "db_ok db'"
proof -
  define f :: "relay_row \<Rightarrow> relay_row" where "f = (\<lambda>q. if r_id q = r_id r \<and> r_key_hash q = H (ri_key inp)
    then q\<lparr>r_token_hash := H token, r_endpoint := ri_endpoint inp, r_region := ri_region inp,
           r_hostname := ri_hostname inp\<rparr> else q)"
  have keep: "r_id (f q) = r_id q \<and> r_pubkey (f q) = r_pubkey q \<and> r_key_hash (f q) = r_key_hash q \<and>
      r_subnet (f q) = r_subnet q" for q
    by (simp add: f_def)
  have token: "r_token_hash (f q) = (if r_id q = r_id r \<and> r_key_hash q = H (ri_key inp) then H token
      else r_token_hash q)" for q
    by (simp add: f_def)
  have "relays_ok (key_rows db) (map f (relay_rows db)) (octet_seq db)"
    if fresh: "\<not> (\<exists>q \<in> set (relay_rows db). r_id q \<noteq> r_id r \<and> r_token_hash q = H token)"
  proof (rule relays_ok_map)
    have d: "distinct (relay_rows db)" "inj_on r_id (set (relay_rows db))"
      "inj_on r_token_hash (set (relay_rows db))"
      using ok by (simp_all add: db_ok_def relays_ok_def distinct_map)
    have "inj_on (r_token_hash \<circ> f) (set (relay_rows db))"
    proof (rule inj_onI)
      fix x y assume xy: "x \<in> set (relay_rows db)" "y \<in> set (relay_rows db)"
        and e: "(r_token_hash \<circ> f) x = (r_token_hash \<circ> f) y"
      have one: "r_id z = r_id r" if "z \<in> set (relay_rows db)" "r_token_hash (f z) = H token" for z
        using that fresh token by metis
      show "x = y"
      proof (cases "r_token_hash (f x) = H token")
        case True
        then have "r_id x = r_id y" using one xy e by simp
        then show ?thesis using d(2) xy by (simp add: inj_on_eq_iff)
      next
        case False
        then have "r_token_hash x = r_token_hash y" using e token by (metis comp_apply)
        then show ?thesis using d(3) xy by (simp add: inj_on_eq_iff)
      qed
    qed
    then show "distinct (map r_token_hash (map f (relay_rows db)))"
      using d(1) by (simp add: distinct_map)
    show "relays_ok (key_rows db) (relay_rows db) (octet_seq db)" using ok by (simp add: db_ok_def)
  qed (rule keep)
  moreover have "bindings_ok (device_rows db) (map f (relay_rows db)) (binding_rows db)"
    using ok keep by (intro bindings_ok_map_relays) (auto simp: db_ok_def)
  moreover have "db' = db \<or> db' = db\<lparr>relay_rows := map f (relay_rows db)\<rparr> \<and>
      \<not> (\<exists>q \<in> set (relay_rows db). r_id q \<noteq> r_id r \<and> r_token_hash q = H token)"
    using run unfolding register_again_def stmt_def f_def by (simp split: if_splits)
  ultimately show ?thesis using ok unfolding db_ok_def by auto
qed

lemma register_relay_ok:
  assumes "db_ok db" "register_relay H env rnd inp db = (db', res)"
  shows "db_ok db'"
  using assms
  by (auto simp: register_relay_def stmt_def Let_def split: if_splits option.splits
      elim: register_new_ok register_again_ok)

lemma db_ok_map_relays:
  assumes "db_ok db"
    and "\<And>r. r_id (f r) = r_id r \<and> r_pubkey (f r) = r_pubkey r \<and> r_key_hash (f r) = r_key_hash r \<and>
      r_subnet (f r) = r_subnet r \<and> r_token_hash (f r) = r_token_hash r"
  shows "db_ok (db\<lparr>relay_rows := map f (relay_rows db)\<rparr>)"
  using assms by (auto simp: db_ok_def intro!: relays_ok_map_token bindings_ok_map_relays)

lemma db_ok_map_devices:
  assumes "db_ok db"
    and "\<And>d. d_id (f d) = d_id d \<and> d_pubkey (f d) = d_pubkey d \<and> d_key_hash (f d) = d_key_hash d"
  shows "db_ok (db\<lparr>device_rows := map f (device_rows db)\<rparr>)"
  using assms by (auto simp: db_ok_def intro!: devices_ok_map bindings_ok_map_devices)

lemma record_status_ok:
  "db_ok db \<Longrightarrow> record_status env rid st db = (db', res) \<Longrightarrow> db_ok db'"
  by (auto simp: record_status_def stmt_def split: if_splits intro!: db_ok_map_relays)

lemma record_reachability_ok:
  "db_ok db \<Longrightarrow> record_reachability H env key pub ok detail db = (db', res) \<Longrightarrow> db_ok db'"
  by (auto simp: record_reachability_def stmt_def Let_def split: if_splits intro!: db_ok_map_relays)

lemma mark_stale_relays_down_ok:
  "db_ok db \<Longrightarrow> mark_stale_relays_down env after db = (db', res) \<Longrightarrow> db_ok db'"
  by (auto simp: mark_stale_relays_down_def stmt_def split: if_splits intro!: db_ok_map_relays)

lemma session_ok:
  "db_ok db \<Longrightarrow> session H env key pub mtu db = (db', res) \<Longrightarrow> db_ok db'"
  by (auto simp: session_def stmt_def Let_def split: if_splits option.splits intro!: db_ok_map_devices)

section \<open>Binding a device\<close>

lemma bind_device_Cons:
  assumes "bind_device env dev (r # rs) bs = Inr bs'"
  obtains (skip) "scan_octet (r_subnet r) = None \<or> (\<exists>b \<in> set bs. b_device b = dev \<and> b_relay b = r_id r)"
      "bind_device env dev rs bs = Inr bs'"
  | (bind) n ip m where "scan_octet (r_subnet r) = Some n" "1 \<le> m" "m \<le> 65000" "ip = host_ip (octet_prefix n) m"
      "ip \<notin> set (taken_ips bs (r_id r))" "\<not> (\<exists>b \<in> set bs. b_device b = dev \<and> b_relay b = r_id r)"
      "bind_device env dev rs (bs @ [\<lparr>b_device = dev, b_relay = r_id r, b_inner_ip = ip\<rparr>]) = Inr bs'"
proof (cases "scan_octet (r_subnet r)")
  case None
  then show thesis using assms skip by simp
next
  case (Some n)
  show thesis
  proof (cases "first_free (octet_prefix n) (taken_ips bs (r_id r)) 1")
    case None
    then show thesis using assms Some by (simp split: if_splits)
  next
    case ip: (Some ip)
    obtain m where m: "1 \<le> m" "m \<le> 65000" "ip = host_ip (octet_prefix n) m" "ip \<notin> set (taken_ips bs (r_id r))"
      using first_free_Some [OF ip] by blast
    show thesis
    proof (cases "\<exists>b \<in> set bs. b_device b = dev \<and> b_relay b = r_id r")
      case True
      then show thesis using assms Some ip by (intro skip) (auto split: if_splits)
    next
      case False
      then have "bind_device env dev rs (bs @ [\<lparr>b_device = dev, b_relay = r_id r, b_inner_ip = ip\<rparr>]) = Inr bs'"
        using assms Some ip by (auto split: if_splits)
      then show thesis using bind Some m False by blast
    qed
  qed
qed

lemma in_taken_ips: "ip \<in> set (taken_ips bs rid) \<longleftrightarrow> (\<exists>b \<in> set bs. b_relay b = rid \<and> b_inner_ip b = ip)"
  by (auto simp: taken_ips_def)

lemma bindings_ok_snoc:
  assumes "bindings_ok ds rs bs" "r \<in> set rs" "dev \<in> d_id ` set ds" "host_in (r_subnet r) ip"
    "ip \<notin> set (taken_ips bs (r_id r))" "\<not> (\<exists>b \<in> set bs. b_device b = dev \<and> b_relay b = r_id r)"
  shows "bindings_ok ds rs (bs @ [\<lparr>b_device = dev, b_relay = r_id r, b_inner_ip = ip\<rparr>])"
  using assms unfolding bindings_ok_def in_taken_ips by (auto simp: image_iff)

lemma bind_device_ok:
  assumes "bind_device env dev rs' bs = Inr bs'" "set rs' \<subseteq> set rs" "dev \<in> d_id ` set ds" "bindings_ok ds rs bs"
  shows "bindings_ok ds rs bs'"
  using assms
proof (induction rs' arbitrary: bs)
  case (Cons r rs')
  from Cons.prems(1) show ?case
  proof (cases rule: bind_device_Cons)
    case skip
    then show ?thesis using Cons by simp
  next
    case (bind n ip m)
    have "host_in (r_subnet r) ip" using bind by (auto simp: host_in_def)
    then show ?thesis using bind Cons bindings_ok_snoc [of ds rs bs r dev ip] by simp
  qed
qed simp

text \<open>Binding only appends, only for this device, and leaves no relay with a readable subnet
  unbound.\<close>

lemma bind_device_appends:
  assumes "bind_device env dev rs bs = Inr bs'"
  shows "\<exists>new. bs' = bs @ new \<and> (\<forall>b \<in> set new. b_device b = dev \<and> b_relay b \<in> r_id ` set rs)"
  using assms
proof (induction rs arbitrary: bs)
  case (Cons r rs)
  from Cons.prems show ?case
    by (cases rule: bind_device_Cons) (use Cons.IH in fastforce)+
qed simp

lemma bind_device_covers:
  assumes "bind_device env dev rs bs = Inr bs'" "r \<in> set rs" "scan_octet (r_subnet r) \<noteq> None"
  shows "\<exists>b \<in> set bs'. b_device b = dev \<and> b_relay b = r_id r"
  using assms
proof (induction rs arbitrary: bs)
  case (Cons q rs)
  have keep: "b \<in> set bs'" if "bind_device env dev rs as = Inr bs'" "b \<in> set as" for as b
    using bind_device_appends [OF that(1)] that(2) by auto
  from Cons.prems(1) show ?case
  proof (cases rule: bind_device_Cons)
    case skip
    then show ?thesis using Cons keep by (cases "r = q") auto
  next
    case (bind n ip m)
    have "\<lparr>b_device = dev, b_relay = r_id q, b_inner_ip = ip\<rparr> \<in> set bs'"
      using keep [OF bind(7)] by simp
    then show ?thesis using Cons.IH [OF bind(7)] Cons.prems(2,3) by (cases "r = q") force+
  qed
qed simp

lemma bind_device_bound_already:
  assumes "\<forall>r \<in> set rs. scan_octet (r_subnet r) = None \<or> (\<exists>b \<in> set bs. b_device b = dev \<and> b_relay b = r_id r)"
    and "bind_device env dev rs bs = Inr bs'"
  shows "bs' = bs"
  using assms
proof (induction rs)
  case (Cons r rs)
  from Cons.prems(2) show ?case
    by (cases rule: bind_device_Cons) (use Cons in auto)
qed simp

text \<open>The three ways \<open>ActivateDevice\<close> can change the tables.\<close>

lemma activate_cases:
  assumes "activate_device H env key pub fp db = (db', held, res)"
  obtains (same) e where "res = Inl e" "db' = db"
  | (added) k d db1 bs' where "find_key db (H key) = Some k" "k_status k = ''active''"
      "\<not> (\<exists>e \<in> set (device_rows db). d_pubkey e = pub \<and> d_key_hash e = H key)"
      "int (length (filter (\<lambda>d. d_key_hash d = H key) (device_rows db))) < k_max_devices k"
      "d = \<lparr>d_id = device_id_of H pub, d_key_hash = H key, d_pubkey = pub, d_fingerprint = fp,
            d_last_seen = None, d_created_at = now env\<rparr>"
      "insert_device d db = Some db1" "bind_device env (d_id d) (relay_rows db) (binding_rows db) = Inr bs'"
      "db' = db1\<lparr>binding_rows := bs'\<rparr>" "res = Inr (d_id d)" "held = []"
  | (again) k d bs' where "find_key db (H key) = Some k" "k_status k = ''active''"
      "d \<in> set (device_rows db)" "d_pubkey d = pub" "d_key_hash d = H key"
      "bind_device env (d_id d) (relay_rows db) (binding_rows db) = Inr bs'"
      "db' = db\<lparr>device_rows := map (\<lambda>e. if d_id e = d_id d
          then e\<lparr>d_fingerprint := fp, d_last_seen := Some (now env)\<rparr> else e) (device_rows db),
          binding_rows := bs'\<rparr>" "res = Inr (d_id d)" "held = []"
proof -
  have fin: "(\<exists>e. res' = Inl e) \<and> dbx = db \<or>
      (\<exists>bs'. bind_device env dev (relay_rows db1) (binding_rows db1) = Inr bs' \<and>
        dbx = db1\<lparr>binding_rows := bs'\<rparr> \<and> res' = Inr dev)"
    if "activate_finish env dev db db1 = (dbx, res')" for dev db1 dbx res'
    using that
    by (cases "bind_device env dev (relay_rows db1) (binding_rows db1)")
      (auto simp: activate_finish_def bind_device_to_relays_def stmt_def split: if_splits)
  show thesis
  proof (cases "\<exists>e. res = Inl e")
    case True
    then have "db' = db"
      using assms fin
      by (fastforce simp: activate_device_def Let_def split: if_splits option.splits sum.splits prod.splits)
    then show thesis using True same by blast
  next
    case False
    then obtain k where k: "find_key db (H key) = Some k" "k_status k = ''active''"
      using assms by (auto simp: activate_device_def Let_def split: if_splits option.splits)
    show thesis
    proof (cases "find (\<lambda>d. d_pubkey d = pub \<and> d_key_hash d = H key) (device_rows db)")
      case None
      let ?d = "\<lparr>d_id = device_id_of H pub, d_key_hash = H key, d_pubkey = pub, d_fingerprint = fp,
            d_last_seen = None, d_created_at = now env\<rparr>"
      have slots: "int (length (filter (\<lambda>d. d_key_hash d = H key) (device_rows db))) < k_max_devices k"
        using assms False k None
        by (auto simp: activate_device_def Let_def split: if_splits option.splits sum.splits)
      then obtain db1 where db1: "insert_device ?d db = Some db1"
        "(db', held, res) = (\<lambda>(s, r). (s, [], r)) (activate_finish env (device_id_of H pub) db db1)"
        using assms False k None
        by (auto simp: activate_device_def Let_def split: if_splits option.splits)
      obtain dbx r' where x: "activate_finish env (device_id_of H pub) db db1 = (dbx, r')" by fastforce
      have same_tables: "relay_rows db1 = relay_rows db" "binding_rows db1 = binding_rows db"
        using db1(1) by (auto simp: insert_device_def split: if_splits)
      have dbx: "db' = dbx" "held = []" "res = r'" using db1(2) x by simp_all
      then obtain bs' where "bind_device env (d_id ?d) (relay_rows db) (binding_rows db) = Inr bs'"
        "db' = db1\<lparr>binding_rows := bs'\<rparr>" "res = Inr (d_id ?d)"
        using fin [OF x] False same_tables by auto
      then show thesis
        using db1(1) dbx k slots None by (intro added [of k ?d db1 bs']) (auto simp: find_None_iff)
    next
      case (Some d)
      then have d: "d \<in> set (device_rows db)" "d_pubkey d = pub" "d_key_hash d = H key"
        by (auto simp: find_Some_iff)
      let ?db1 = "db\<lparr>device_rows := map (\<lambda>e. if d_id e = d_id d
          then e\<lparr>d_fingerprint := fp, d_last_seen := Some (now env)\<rparr> else e) (device_rows db)\<rparr>"
      obtain dbx r' where x: "activate_finish env (d_id d) db ?db1 = (dbx, r')" by fastforce
      have "(db', held, res) = (dbx, [], r')"
        using assms False k Some x by (auto simp: activate_device_def Let_def split: if_splits)
      then have dbx: "db' = dbx" "held = []" "res = r'" by simp_all
      then obtain bs' where "bind_device env (d_id d) (relay_rows db) (binding_rows db) = Inr bs'"
        "db' = ?db1\<lparr>binding_rows := bs'\<rparr>" "res = Inr (d_id d)"
        using fin [OF x] False by auto
      then show thesis using dbx k d by (intro again [of k d bs']) simp_all
    qed
  qed
qed

lemma devices_ok_snoc:
  assumes "devices_ok ks ds" "keys_ok ks" "k \<in> set ks" "d_key_hash d = k_hash k"
    "int (length (filter (\<lambda>e. d_key_hash e = k_hash k) ds)) < k_max_devices k"
    "\<not> (\<exists>e \<in> set ds. d_id e = d_id d \<or> d_pubkey e = d_pubkey d)"
  shows "devices_ok ks (ds @ [d])"
proof -
  have "int (length (filter (\<lambda>e. d_key_hash e = k_hash k') (ds @ [d]))) \<le> k_max_devices k'"
    if "k' \<in> set ks" for k'
  proof (cases "k_hash k' = k_hash k")
    case True
    then have "k' = k" using assms(2,3) that by (auto simp: keys_ok_def distinct_map inj_on_def)
    then show ?thesis using assms(4,5) by simp
  next
    case False
    then show ?thesis using assms(1,4) that by (simp add: devices_ok_def)
  qed
  moreover have "distinct (map d_id (ds @ [d]))" "distinct (map d_pubkey (ds @ [d]))"
    "\<forall>e \<in> set (ds @ [d]). d_key_hash e \<in> k_hash ` set ks"
    using assms by (auto simp: devices_ok_def)
  ultimately show ?thesis unfolding devices_ok_def by blast
qed

lemma insert_device_Some:
  "insert_device d db = Some db' \<longleftrightarrow>
     \<not> (\<exists>e \<in> set (device_rows db). d_id e = d_id d \<or> d_pubkey e = d_pubkey d) \<and>
     d_key_hash d \<in> k_hash ` set (key_rows db) \<and> db' = db\<lparr>device_rows := device_rows db @ [d]\<rparr>"
  by (auto simp: insert_device_def find_key_None)

lemma activate_device_ok:
  assumes ok: "db_ok db" and run: "activate_device H env key pub fp db = (db', held, res)"
  shows "db_ok db'"
  using run
proof (cases rule: activate_cases)
  case same
  then show ?thesis using ok by simp
next
  case (added k d db1 bs')
  have k: "k \<in> set (key_rows db)" "k_hash k = H key" using find_key_Some [OF added(1)] by auto
  have db1: "db1 = db\<lparr>device_rows := device_rows db @ [d]\<rparr>"
    and new: "\<not> (\<exists>e \<in> set (device_rows db). d_id e = d_id d \<or> d_pubkey e = d_pubkey d)"
    using added(6) by (auto simp: insert_device_Some)
  have okp: "devices_ok (key_rows db) (device_rows db)" "keys_ok (key_rows db)"
    "bindings_ok (device_rows db) (relay_rows db) (binding_rows db)"
    using ok by (simp_all add: db_ok_def)
  have kd: "d_key_hash d = k_hash k" using added(5) k(2) by simp
  have "devices_ok (key_rows db) (device_rows db @ [d])"
    by (rule devices_ok_snoc [OF okp(1,2) k(1) kd]) (use added(4) k(2) new in simp_all)
  moreover have "bindings_ok (device_rows db @ [d]) (relay_rows db) bs'"
  proof (rule bind_device_ok [OF added(7)])
    show "bindings_ok (device_rows db @ [d]) (relay_rows db) (binding_rows db)"
      by (rule bindings_ok_mono [OF okp(3)]) auto
  qed auto
  ultimately show ?thesis using ok added(8) db1 by (simp add: db_ok_def)
next
  case (again k d bs')
  define f :: "device_row \<Rightarrow> device_row" where "f = (\<lambda>e. if d_id e = d_id d
          then e\<lparr>d_fingerprint := fp, d_last_seen := Some (now env)\<rparr> else e)"
  have f: "d_id (f e) = d_id e \<and> d_pubkey (f e) = d_pubkey e \<and> d_key_hash (f e) = d_key_hash e" for e
    by (simp add: f_def)
  have okf: "db_ok (db\<lparr>device_rows := map f (device_rows db)\<rparr>)" by (rule db_ok_map_devices [OF ok f])
  have "bindings_ok (map f (device_rows db)) (relay_rows db) bs'"
  proof (rule bind_device_ok [OF again(6)])
    show "bindings_ok (map f (device_rows db)) (relay_rows db) (binding_rows db)"
      using okf by (simp add: db_ok_def)
    show "d_id d \<in> d_id ` set (map f (device_rows db))"
      using again(3) f by (simp add: image_image)
  qed auto
  moreover have "db' = db\<lparr>device_rows := map f (device_rows db), binding_rows := bs'\<rparr>"
    using again(7) by (simp only: f_def)
  ultimately show ?thesis using okf by (simp add: db_ok_def)
qed

lemma bindings_ok_filter:
  assumes "bindings_ok ds rs bs" "\<And>b. b \<in> set bs \<Longrightarrow> P b \<Longrightarrow> b_device b \<in> d_id ` set ds'"
    "\<And>b r. b \<in> set bs \<Longrightarrow> P b \<Longrightarrow> r \<in> set rs \<Longrightarrow> r_id r = b_relay b \<Longrightarrow> r \<in> set rs'"
  shows "bindings_ok ds' rs' (filter P bs)"
proof -
  have "b_device b \<in> d_id ` set ds' \<and> (\<exists>r \<in> set rs'. r_id r = b_relay b \<and> host_in (r_subnet r) (b_inner_ip b))"
    if b: "b \<in> set bs" "P b" for b
  proof -
    obtain r where r: "r \<in> set rs" "r_id r = b_relay b" "host_in (r_subnet r) (b_inner_ip b)"
      using assms(1) b(1) unfolding bindings_ok_def by blast
    then show ?thesis using assms(2) [OF b] assms(3) [OF b r(1,2)] by blast
  qed
  then show ?thesis using assms(1) unfolding bindings_ok_def by (simp add: distinct_map_filter_subset)
qed

lemma devices_ok_filter: "devices_ok ks ds \<Longrightarrow> devices_ok ks (filter P ds)"
proof -
  assume a: "devices_ok ks ds"
  have "int (length (filter (\<lambda>d. d_key_hash d = k_hash k) (filter P ds))) \<le> k_max_devices k"
    if "k \<in> set ks" for k
    using a that length_filter_filter_le [of "\<lambda>d. d_key_hash d = k_hash k" P ds]
    unfolding devices_ok_def by (metis (no_types, lifting) of_nat_le_iff order_trans)
  then show ?thesis using a unfolding devices_ok_def by (simp add: distinct_map_filter_subset)
qed

lemma relays_ok_filter: "relays_ok ks rs seq \<Longrightarrow> relays_ok ks (filter P rs) seq"
proof -
  assume a: "relays_ok ks rs seq"
  have "length (filter (\<lambda>r. r_key_hash r = k_hash k) (filter P rs)) \<le> maxRelaysPerKey"
    if "k \<in> set ks" for k
    using a that length_filter_filter_le [of "\<lambda>r. r_key_hash r = k_hash k" P rs]
    unfolding relays_ok_def by (metis (no_types, lifting) order_trans)
  then show ?thesis using a unfolding relays_ok_def by (simp add: distinct_map_filter_subset)
qed

lemma delete_device_ok: "db_ok db \<Longrightarrow> db_ok (delete_device P db)"
proof -
  assume ok: "db_ok db"
  have "bindings_ok (filter (\<lambda>d. \<not> P d) (device_rows db)) (relay_rows db)
      (filter (\<lambda>b. \<not> (\<exists>d \<in> set (device_rows db). P d \<and> d_id d = b_device b)) (binding_rows db))"
  proof (rule bindings_ok_filter)
    show "bindings_ok (device_rows db) (relay_rows db) (binding_rows db)" using ok by (simp add: db_ok_def)
    fix b assume "b \<in> set (binding_rows db)" "\<not> (\<exists>d \<in> set (device_rows db). P d \<and> d_id d = b_device b)"
    then show "b_device b \<in> d_id ` set (filter (\<lambda>d. \<not> P d) (device_rows db))"
      using ok unfolding db_ok_def bindings_ok_def by force
  qed
  then show ?thesis using ok by (simp add: db_ok_def delete_device_def devices_ok_filter)
qed

lemma release_device_ok:
  "db_ok db \<Longrightarrow> release_device H env key dev db = (db', res) \<Longrightarrow> db_ok db'"
  by (auto simp: release_device_def stmt_def Let_def split: if_splits intro: delete_device_ok)

section \<open>Profiles and observations\<close>

lemma foldl_max_ge: "(x :: int) \<le> foldl max x xs \<and> (\<forall>y \<in> set xs. y \<le> foldl max x xs)"
  by (induction xs arbitrary: x) (simp, smt (verit) foldl_Cons list.set_intros set_ConsD)

lemma foldl_max_in: "foldl max (x :: int) xs = x \<or> foldl max x xs \<in> set xs"
  by (induction xs arbitrary: x) (simp, smt (verit) foldl_Cons list.set_intros max_def)

lemma max_version_ge: "p \<in> set (profile_rows db) \<Longrightarrow> p_version p \<le> max_version db"
  unfolding max_version_def using foldl_max_ge by (cases "profile_rows db") fastforce+

lemma max_version_nonneg: "profiles_ok (profile_rows db) \<Longrightarrow> 0 \<le> max_version db"
  using max_version_ge [of _ db] by (cases "profile_rows db") (fastforce simp: profiles_ok_def max_version_def)+

lemma publish_profile_ok:
  assumes "db_ok db" "publish_profile env cidrs db = (db', res)"
  shows "db_ok db'"
proof -
  have p: "profiles_ok (profile_rows db)" using assms(1) by (simp add: db_ok_def)
  have "cidrs \<noteq> [] \<Longrightarrow> profiles_ok (profile_rows db @ [\<lparr>p_version = max_version db + 1, p_cidrs = cidrs\<rparr>])"
    using p max_version_ge [of _ db] max_version_nonneg [OF p] by (fastforce simp: profiles_ok_def)
  then show ?thesis
    using assms by (auto simp: publish_profile_def stmt_def Let_def db_ok_def split: if_splits)
qed

lemma record_observation_ok:
  assumes "db_ok db" "record_observation H env key game ip port db = (db', res)"
  shows "db_ok db'"
proof -
  let ?same = "\<lambda>o'. o_game o' = game \<and> o_dst_ip o' = ip \<and> o_dst_port o' = port \<and> o_key_hash o' = H key"
  have o: "observed_ok (observed_rows db)" using assms(1) by (simp add: db_ok_def)
  have "map (\<lambda>o'. (o_game o', o_dst_ip o', o_dst_port o', o_key_hash o'))
      (map (\<lambda>o'. if ?same o' then o'\<lparr>o_last_seen := now env\<rparr> else o') (observed_rows db)) =
    map (\<lambda>o'. (o_game o', o_dst_ip o', o_dst_port o', o_key_hash o')) (observed_rows db)"
    by simp
  then have "observed_ok (map (\<lambda>o'. if ?same o' then o'\<lparr>o_last_seen := now env\<rparr> else o') (observed_rows db))"
    using o by (simp only: observed_ok_def)
  moreover have "\<not> (\<exists>o' \<in> set (observed_rows db). ?same o') \<Longrightarrow>
    observed_ok (observed_rows db @ [\<lparr>o_game = game, o_dst_ip = ip, o_dst_port = port, o_key_hash = H key,
       o_first_seen = now env, o_last_seen = now env\<rparr>])"
    using o by (auto simp: observed_ok_def)
  ultimately show ?thesis
    using assms by (auto simp: record_observation_def stmt_def Let_def db_ok_def split: if_splits)
qed

section \<open>Administration and reachable states\<close>

text \<open>The two statements of the deployment guide: \<open>UPDATE contributor_key SET status =
  'revoked'\<close> and \<open>DELETE FROM relay\<close> with its bindings.\<close>

definition revoke_key :: "string \<Rightarrow> db \<Rightarrow> db" where
  "revoke_key kh db =
     db\<lparr>key_rows := map (\<lambda>k. if k_hash k = kh then k\<lparr>k_status := ''revoked''\<rparr> else k) (key_rows db)\<rparr>"

definition delete_relay :: "string \<Rightarrow> db \<Rightarrow> db" where
  "delete_relay rid db =
     db\<lparr>relay_rows := filter (\<lambda>r. r_id r \<noteq> rid) (relay_rows db),
        binding_rows := filter (\<lambda>b. \<not> (b_relay b = rid \<and> rid \<in> r_id ` set (relay_rows db))) (binding_rows db)\<rparr>"

lemma revoke_key_ok: "db_ok db \<Longrightarrow> db_ok (revoke_key kh db)"
proof -
  assume ok: "db_ok db"
  define f :: "key_row \<Rightarrow> key_row" where "f = (\<lambda>k. if k_hash k = kh then k\<lparr>k_status := ''revoked''\<rparr> else k)"
  have f: "k_hash (f k) = k_hash k" "k_max_devices (f k) = k_max_devices k" for k
    by (simp_all add: f_def)
  have "db_ok (db\<lparr>key_rows := map f (key_rows db)\<rparr>)"
    using ok f by (simp add: db_ok_def keys_ok_def relays_ok_def devices_ok_def comp_def image_image)
  then show ?thesis by (simp add: revoke_key_def f_def)
qed

lemma delete_relay_ok: "db_ok db \<Longrightarrow> db_ok (delete_relay rid db)"
proof -
  assume ok: "db_ok db"
  have "bindings_ok (device_rows db) (filter (\<lambda>r. r_id r \<noteq> rid) (relay_rows db))
      (filter (\<lambda>b. \<not> (b_relay b = rid \<and> rid \<in> r_id ` set (relay_rows db))) (binding_rows db))"
  proof (rule bindings_ok_filter)
    show "bindings_ok (device_rows db) (relay_rows db) (binding_rows db)" using ok by (simp add: db_ok_def)
    fix b assume b: "b \<in> set (binding_rows db)"
    then show "b_device b \<in> d_id ` set (device_rows db)"
      using ok unfolding db_ok_def bindings_ok_def by blast
    fix r assume r: "\<not> (b_relay b = rid \<and> rid \<in> r_id ` set (relay_rows db))" "r \<in> set (relay_rows db)"
      "r_id r = b_relay b"
    then have "b_relay b \<in> r_id ` set (relay_rows db)" by (metis imageI)
    then show "r \<in> set (filter (\<lambda>r. r_id r \<noteq> rid) (relay_rows db))" using r by auto
  qed
  then show ?thesis using ok by (simp add: db_ok_def delete_relay_def relays_ok_filter)
qed

text \<open>One step of a deployment: any operation with any environment, input and outcome.\<close>

inductive db_step :: "(string \<Rightarrow> string) \<Rightarrow> db \<Rightarrow> db \<Rightarrow> bool" for H where
  create: "create_contributor_key H env rnd db = (db', res) \<Longrightarrow> db_step H db db'"
| register: "register_relay H env rnd' inp db = (db', res') \<Longrightarrow> db_step H db db'"
| status: "record_status env rid st db = (db', u) \<Longrightarrow> db_step H db db'"
| reachability: "record_reachability H env key pub ok detail db = (db', u) \<Longrightarrow> db_step H db db'"
| stale: "mark_stale_relays_down env after db = (db', n) \<Longrightarrow> db_step H db db'"
| activate: "activate_device H env key pub fp db = (db', held, id') \<Longrightarrow> db_step H db db'"
| session: "session H env key pub mtu db = (db', s) \<Longrightarrow> db_step H db db'"
| release: "release_device H env key dev db = (db', u) \<Longrightarrow> db_step H db db'"
| publish: "publish_profile env cidrs db = (db', v) \<Longrightarrow> db_step H db db'"
| observe: "record_observation H env key game ip port db = (db', u) \<Longrightarrow> db_step H db db'"
| revoke: "db_step H db (revoke_key kh db)"
| remove: "db_step H db (delete_relay rid db)"

lemma db_step_ok: "db_step H db db' \<Longrightarrow> db_ok db \<Longrightarrow> db_ok db'"
  by (induction rule: db_step.induct)
    (blast intro: create_contributor_key_ok register_relay_ok record_status_ok record_reachability_ok
      mark_stale_relays_down_ok activate_device_ok session_ok release_device_ok publish_profile_ok
      record_observation_ok revoke_key_ok delete_relay_ok)+

inductive reachable :: "(string \<Rightarrow> string) \<Rightarrow> db \<Rightarrow> bool" for H where
  start: "reachable H empty_db"
| next_step: "reachable H db \<Longrightarrow> db_step H db db' \<Longrightarrow> reachable H db'"

lemma reachable_ok: "reachable H db \<Longrightarrow> db_ok db"
  by (induction rule: reachable.induct) (auto intro: empty_db_ok db_step_ok)

end
