(* ===== verification/Store_Props.thy ===== *)
theory Store_Props
  imports Store_Invariant
begin

text \<open>
  What the control plane's tables promise: the properties of \<open>Store\<close> over the reachable
  states, each with a concrete run.
\<close>

section \<open>Octets\<close>

lemma peel: "d < 256 \<Longrightarrow> (y * 256 + d) mod 256 = d" "d < 256 \<Longrightarrow> (y * 256 + d) div 256 = (y :: nat)"
  by simp_all

lemma octet_v4_of_octets:
  assumes "a < 256" "b < 256" "c < 256" "d < 256"
  shows "octet 3 (v4_of_octets [a, b, c, d]) = a" "octet 2 (v4_of_octets [a, b, c, d]) = b"
    "octet 1 (v4_of_octets [a, b, c, d]) = c" "octet 0 (v4_of_octets [a, b, c, d]) = d"
    "unat (v4_of_octets [a, b, c, d]) = ((a * 256 + b) * 256 + c) * 256 + d"
proof -
  let ?n = "((a * 256 + b) * 256 + c) * 256 + d"
  have "?n < 2 ^ 32" using assms by simp
  then show u: "unat (v4_of_octets [a, b, c, d]) = ?n"
    by (simp add: v4_of_octets_def unat_of_nat take_bit_nat_eq_self flip: of_nat_add of_nat_mult)
  have o: "octet k (v4_of_octets [a, b, c, d]) = ?n div 2 ^ (8 * k) mod 256" for k
    by (simp only: octet_def unat_drop_bit_div u)
  have p: "x div 2 ^ (8 * 3) = x div 256 div 256 div 256" "x div 2 ^ (8 * 2) = x div 256 div 256"
    "x div 2 ^ (8 * 1) = x div 256" "x div 2 ^ (8 * 0) = x" for x :: nat
    by (simp_all flip: div_mult2_eq)
  have "a mod 256 = a" using assms(1) by simp
  then show "octet 3 (v4_of_octets [a, b, c, d]) = a" "octet 2 (v4_of_octets [a, b, c, d]) = b"
    "octet 1 (v4_of_octets [a, b, c, d]) = c" "octet 0 (v4_of_octets [a, b, c, d]) = d"
    by (simp_all only: o p peel assms)
qed

lemma v4_string_of_octets:
  "a < 256 \<Longrightarrow> b < 256 \<Longrightarrow> c < 256 \<Longrightarrow> d < 256 \<Longrightarrow>
     v4_string (v4_of_octets [a, b, c, d]) = dec a @ ''.'' @ dec b @ ''.'' @ dec c @ ''.'' @ dec d"
  by (simp add: v4_string_def octet_v4_of_octets del: One_nat_def)

lemma v4_of_octets_inj:
  assumes "v4_of_octets [a, b, c, d] = v4_of_octets [a', b', c', d']"
    "a < 256" "b < 256" "c < 256" "d < 256" "a' < 256" "b' < 256" "c' < 256" "d' < 256"
  shows "a = a' \<and> b = b' \<and> c = c' \<and> d = d'"
  using assms octet_v4_of_octets [of a b c d] octet_v4_of_octets [of a' b' c' d'] by metis

lemma parse_prefix_v4_string:
  assumes "b \<le> 32" shows "parse_prefix (v4_string w @ ''/'' @ dec b) = Some (Prefix (V4 w) b)"
  using parse_prefix_string [OF assms, of w] by simp

lemma dec_small: "dec 10 = ''10''" "dec 0 = ''0''" "dec (Suc 0) = ''1''" "dec 16 = ''16''" "dec 32 = ''32''"
  by code_simp+

definition host_addr :: "int \<Rightarrow> nat \<Rightarrow> 32 word" where
  "host_addr n m = v4_of_octets [10, nat n, m div 254, m mod 254 + 1]"

lemma host_ip_string:
  assumes "0 \<le> n" "n < 256" "m \<le> 65000"
  shows "host_ip (octet_prefix n) m = pfx_string (Prefix (V4 (host_addr n m)) 32)"
proof -
  have m: "m div 254 < 256" using assms(3) by linarith
  have "m mod 254 < 254" by simp
  then have l: "m mod 254 + 1 < 256" by linarith
  show ?thesis
    using assms m l by (simp add: host_ip_def octet_prefix_def host_addr_def v4_string_of_octets
        is_digit_dec_int_hd dec_small del: dec.simps)
qed

lemma parse_host_ip:
  assumes "0 \<le> n" "n < 256" "m \<le> 65000"
  shows "parse_prefix (host_ip (octet_prefix n) m) = Some (Prefix (V4 (host_addr n m)) 32)"
  by (simp only: host_ip_string [OF assms] parse_prefix_string order_refl)

text \<open>The relay's own address and its subnet, as \<open>RegisterRelay\<close> reports them.\<close>

lemma parse_subnet_of:
  assumes "0 \<le> n" "n < 256"
  shows "parse_prefix (subnet_of n) = Some (Prefix (V4 (v4_of_octets [10, nat n, 0, 0])) 16)"
    "parse_prefix (''10.'' @ dec_int n @ ''.0.1/16'') = Some (Prefix (V4 (v4_of_octets [10, nat n, 0, 1])) 16)"
proof -
  have "subnet_of n = v4_string (v4_of_octets [10, nat n, 0, 0]) @ ''/'' @ dec 16"
    "''10.'' @ dec_int n @ ''.0.1/16'' = v4_string (v4_of_octets [10, nat n, 0, 1]) @ ''/'' @ dec 16"
    using assms by (simp_all add: subnet_of_def v4_string_of_octets is_digit_dec_int_hd dec_small)
  then show "parse_prefix (subnet_of n) = Some (Prefix (V4 (v4_of_octets [10, nat n, 0, 0])) 16)"
    "parse_prefix (''10.'' @ dec_int n @ ''.0.1/16'') = Some (Prefix (V4 (v4_of_octets [10, nat n, 0, 1])) 16)"
    by (simp_all only: parse_prefix_v4_string)
qed

lemma host_addr_in_subnet:
  assumes "0 \<le> n" "n < 256" "1 \<le> m" "m \<le> 65000"
  shows "contains (Prefix (V4 (v4_of_octets [10, nat n, 0, 0])) 16) (V4 (host_addr n m))"
    "host_addr n m \<noteq> v4_of_octets [10, nat n, 0, 1]"
proof -
  have m: "m div 254 < 256" "m mod 254 + 1 < 256" using assms(4) by (linarith, simp)
  have n: "nat n < 256" using assms by simp
  have h: "unat (host_addr n m) = ((10 * 256 + nat n) * 256 + m div 254) * 256 + (m mod 254 + 1)"
    "unat (v4_of_octets [10, nat n, 0, 0]) = ((10 * 256 + nat n) * 256 + 0) * 256 + 0"
    using octet_v4_of_octets(5) [of 10 "nat n" "m div 254" "m mod 254 + 1"] m n
      octet_v4_of_octets(5) [of 10 "nat n" 0 0] by (simp_all add: host_addr_def)
  have "(m div 254) * 256 + (m mod 254 + 1) < 65536" using m by linarith
  then show "contains (Prefix (V4 (v4_of_octets [10, nat n, 0, 0])) 16) (V4 (host_addr n m))"
    unfolding contains_V4 h by simp
  have "\<not> (m div 254 = 0 \<and> m mod 254 = 0)" using assms(3) by (metis One_nat_def div_mult_mod_eq mult_zero_left add_0 not_one_le_zero)
  then show "host_addr n m \<noteq> v4_of_octets [10, nat n, 0, 1]"
    unfolding host_addr_def using v4_of_octets_inj [of 10 "nat n" "m div 254" "m mod 254 + 1" 10 "nat n" 0 1] m n
    by auto
qed

section \<open>A concrete deployment\<close>

text \<open>A stand-in for SHA-256 that computes: injective and longer than the twelve characters
  the ids take.\<close>

definition sample_H :: "string \<Rightarrow> string" where
  "sample_H s = s @ ''------------''"

definition sample_env :: "nanos \<Rightarrow> db_env" where
  "sample_env t = \<lparr>now = t, fails = (\<lambda>_. False), timestamp_text = (\<lambda>t. dec_int t)\<rparr>"

definition sample_key :: string where
  "sample_key = ''GNL-0123-4567-89AB-CDEF''"

definition sample_db :: db where
  "sample_db =
     \<lparr>key_rows = [\<lparr>k_hash = sample_H sample_key, k_status = ''active'', k_max_devices = 3\<rparr>],
      relay_rows = [\<lparr>r_id = ''relay-RELAYKEY----'', r_key_hash = sample_H sample_key, r_region = ''sg'',
        r_hostname = ''box'', r_endpoint = ''203.0.113.10:51820'', r_pubkey = ''RELAYKEY'',
        r_subnet = ''10.77.0.0/16'', r_status = ''up'', r_last_seen = None, r_active_peers = 0,
        r_rx_bytes = 0, r_tx_bytes = 0, r_trusted_after = 172800000000000,
        r_token_hash = sample_H ''61'', r_reachable_at = Some 7, r_detail = []\<rparr>],
      device_rows = [\<lparr>d_id = ''dev-DEVKEY------'', d_key_hash = sample_H sample_key,
        d_pubkey = ''DEVKEY'', d_fingerprint = ''laptop'', d_last_seen = None, d_created_at = 8\<rparr>],
      binding_rows = [\<lparr>b_device = ''dev-DEVKEY------'', b_relay = ''relay-RELAYKEY----'',
        b_inner_ip = ''10.77.0.2/32''\<rparr>],
      profile_rows = [], observed_rows = [], octet_seq = 78\<rparr>"

definition sample_register :: register_input where
  "sample_register = \<lparr>ri_key = sample_key, ri_pubkey = ''RELAYKEY'', ri_endpoint = ''203.0.113.10:51820'',
     ri_region = ''sg'', ri_hostname = ''box''\<rparr>"

lemma sample_run:
  "activate_device sample_H (sample_env 8) sample_key ''DEVKEY'' ''laptop''
     (fst (record_reachability sample_H (sample_env 7) sample_key ''RELAYKEY'' True []
       (fst (register_relay sample_H (sample_env 0) (Some ''a'') sample_register
         (fst (create_contributor_key sample_H (sample_env 0) (Some [0..<16]) empty_db))))))
   = (sample_db, [], Inr ''dev-DEVKEY------'')"
  by code_simp

lemma reachable_fst:
  "reachable H db \<Longrightarrow> reachable H (fst (create_contributor_key H env rnd db))"
  "reachable H db \<Longrightarrow> reachable H (fst (register_relay H env rnd' inp db))"
  "reachable H db \<Longrightarrow> reachable H (fst (record_reachability H env key pub ok detail db))"
  by (metis next_step db_step.create db_step.register db_step.reachability prod.collapse)+

lemma reachable_activate:
  "reachable H db \<Longrightarrow> reachable H (fst (activate_device H env key pub fp db))"
  by (metis next_step db_step.activate prod.collapse)

lemma sample_reachable: "reachable sample_H sample_db"
  and sample_before: "reachable sample_H (fst (record_reachability sample_H (sample_env 7) sample_key ''RELAYKEY'' True []
       (fst (register_relay sample_H (sample_env 0) (Some ''a'') sample_register
         (fst (create_contributor_key sample_H (sample_env 0) (Some [0..<16]) empty_db))))))"
proof -
  show r: "reachable sample_H (fst (record_reachability sample_H (sample_env 7) sample_key ''RELAYKEY'' True []
       (fst (register_relay sample_H (sample_env 0) (Some ''a'') sample_register
         (fst (create_contributor_key sample_H (sample_env 0) (Some [0..<16]) empty_db))))))"
    by (intro reachable_fst reachable.start)
  show "reachable sample_H sample_db" by (rule next_step [OF r db_step.activate [OF sample_run]])
qed

section \<open>The invariant\<close>



section \<open>What a relay is told\<close>

lemma in_peer_rows:
  "p \<in> set (peer_rows db rid) \<longleftrightarrow>
     (\<exists>b \<in> set (binding_rows db). \<exists>d \<in> set (device_rows db). \<exists>r \<in> set (relay_rows db).
        b_relay b = rid \<and> d_id d = b_device b \<and> key_active db (d_key_hash d) \<and>
        r_id r = rid \<and> key_active db (r_key_hash r) \<and>
        p = \<lparr>PublicKey = d_pubkey d, InnerIP = b_inner_ip b\<rparr>)"
  by (auto simp: peer_rows_def)

lemma peer_rowE:
  assumes "p \<in> set (peer_rows db rid)"
  obtains b d r where "b \<in> set (binding_rows db)" "d \<in> set (device_rows db)" "r \<in> set (relay_rows db)"
    "b_relay b = rid" "d_id d = b_device b" "r_id r = rid" "key_active db (d_key_hash d)"
    "key_active db (r_key_hash r)" "p = \<lparr>PublicKey = d_pubkey d, InnerIP = b_inner_ip b\<rparr>"
  using assms unfolding in_peer_rows by blast

lemma desired_stateD:
  "desired_state env rid db = Inr (ps, cs) \<Longrightarrow> ps = peer_rows db rid"
  by (auto simp: desired_state_def split: if_splits option.splits)

lemma db_ok_parts:
  assumes "db_ok db"
  shows "distinct (map d_id (device_rows db))" "distinct (map d_pubkey (device_rows db))"
    "distinct (map r_id (relay_rows db))" "distinct (map r_pubkey (relay_rows db))"
    "distinct (map r_token_hash (relay_rows db))" "distinct (map k_hash (key_rows db))"
    "distinct (map (\<lambda>b. (b_device b, b_relay b)) (binding_rows db))"
    "distinct (map (\<lambda>b. (b_relay b, b_inner_ip b)) (binding_rows db))"
  using assms by (simp_all add: db_ok_def ok_defs)

lemma distinct_map_eq: "distinct (map f xs) \<Longrightarrow> x \<in> set xs \<Longrightarrow> y \<in> set xs \<Longrightarrow> f x = f y \<Longrightarrow> x = y"
  by (auto simp: distinct_map inj_on_def)

lemma binding_address:
  assumes "db_ok db" "b \<in> set (binding_rows db)"
  obtains r n m where "r \<in> set (relay_rows db)" "r_id r = b_relay b" "77 \<le> n" "n < 256"
    "r_subnet r = subnet_of n" "1 \<le> m" "m \<le> 65000" "b_inner_ip b = host_ip (octet_prefix n) m"
proof -
  obtain r where r: "r \<in> set (relay_rows db)" "r_id r = b_relay b" "host_in (r_subnet r) (b_inner_ip b)"
    using assms unfolding db_ok_def bindings_ok_def by blast
  have "subnet_ok (octet_seq db) (r_subnet r)" "octet_seq db \<le> 256"
    using assms(1) r(1) unfolding db_ok_def relays_ok_def by blast+
  then obtain n where n: "scan_octet (r_subnet r) = Some n" "77 \<le> n" "n < 256" "r_subnet r = subnet_of n"
    by (auto simp: subnet_ok_def split: option.splits)
  with r(3) obtain m where "1 \<le> m" "m \<le> 65000" "b_inner_ip b = host_ip (octet_prefix n) m"
    by (auto simp: host_in_def)
  with r n that show thesis by blast
qed

lemma peer_rows_inj:
  assumes ok: "db_ok db" and p: "p \<in> set (peer_rows db rid)" and q: "q \<in> set (peer_rows db rid)"
    and e: "InnerIP p = InnerIP q \<or> PublicKey p = PublicKey q"
  shows "p = q"
proof -
  note u = db_ok_parts [OF ok]
  obtain b d where b: "b \<in> set (binding_rows db)" "d \<in> set (device_rows db)" "b_relay b = rid"
    "d_id d = b_device b" "p = \<lparr>PublicKey = d_pubkey d, InnerIP = b_inner_ip b\<rparr>"
    using p by (rule peer_rowE)
  obtain c f where c: "c \<in> set (binding_rows db)" "f \<in> set (device_rows db)" "b_relay c = rid"
    "d_id f = b_device c" "q = \<lparr>PublicKey = d_pubkey f, InnerIP = b_inner_ip c\<rparr>"
    using q by (rule peer_rowE)
  have "b = c"
    using e
  proof
    assume "InnerIP p = InnerIP q"
    then show ?thesis using distinct_map_eq [OF u(8) b(1) c(1)] b(3,5) c(3,5) by simp
  next
    assume "PublicKey p = PublicKey q"
    then have "d = f" using distinct_map_eq [OF u(2) b(2) c(2)] b(5) c(5) by simp
    then show ?thesis using distinct_map_eq [OF u(7) b(1) c(1)] b(3,4) c(3,4) by simp
  qed
  then show ?thesis using b c distinct_map_eq [OF u(1) b(2) c(2)] by simp
qed



section \<open>What a client is offered\<close>

lemma in_offer_rows:
  "x \<in> set (offer_rows env dev mtu db) \<longleftrightarrow>
     (\<exists>r \<in> set (relay_rows db). \<exists>b \<in> set (binding_rows db). b_relay b = r_id r \<and> b_device b = dev \<and>
        key_active db (r_key_hash r) \<and> r_status r = ''up'' \<and> r_trusted_after r \<le> now env \<and>
        x = \<lparr>ro_relay_id = r_id r, ro_endpoint = r_endpoint r, ro_public_key = r_pubkey r,
             ro_inner_ip = b_inner_ip b, ro_region = r_region r, ro_mtu = mtu\<rparr>)"
  by (auto simp: offer_rows_def)

lemma offer_rowE:
  assumes "x \<in> set (offer_rows env dev mtu db)"
  obtains r b where "r \<in> set (relay_rows db)" "b \<in> set (binding_rows db)" "b_relay b = r_id r" "b_device b = dev"
    "key_active db (r_key_hash r)" "r_status r = ''up''" "r_trusted_after r \<le> now env"
    "x = \<lparr>ro_relay_id = r_id r, ro_endpoint = r_endpoint r, ro_public_key = r_pubkey r,
         ro_inner_ip = b_inner_ip b, ro_region = r_region r, ro_mtu = mtu\<rparr>"
  using assms unfolding in_offer_rows by blast

lemma offer_rows_devices [simp]: "offer_rows env dev mtu (db\<lparr>device_rows := ds\<rparr>) = offer_rows env dev mtu db"
  unfolding offer_rows_def key_active_def by (simp cong: if_cong)

lemma binding_in:
  "b \<in> B \<Longrightarrow> b_device b = d \<Longrightarrow> b_relay b = r \<Longrightarrow> \<lparr>b_device = d, b_relay = r, b_inner_ip = b_inner_ip b\<rparr> \<in> B"
  by (cases b) simp

lemma session_Inr:
  assumes "session H env key pub mtu db = (db', Inr s)"
  obtains d where "d \<in> set (device_rows db)" "d_pubkey d = pub" "d_key_hash d = H key" "key_active db (H key)"
    "Relays s = offer_rows env (d_id d) mtu db" "key_rows db' = key_rows db" "relay_rows db' = relay_rows db"
    "binding_rows db' = binding_rows db"
proof -
  obtain d where d: "find (\<lambda>d. d_pubkey d = pub \<and> d_key_hash d = H key \<and> key_active db (d_key_hash d)) (device_rows db) = Some d"
    using assms by (auto simp: session_def stmt_def split: if_splits option.splits)
  let ?db1 = "db\<lparr>device_rows := map (\<lambda>e. if d_id e = d_id d
               then e\<lparr>d_last_seen := Some (now env)\<rparr> else e) (device_rows db)\<rparr>"
  have "db' = ?db1" "Relays s = offer_rows env (d_id d) mtu ?db1"
    using assms d by (auto simp: session_def stmt_def Let_def split: if_splits)
  with d show thesis by (intro that [of d]) (auto simp: find_Some_iff)
qed


definition sample_offer :: relay_offer where
  "sample_offer = \<lparr>ro_relay_id = ''relay-RELAYKEY----'', ro_endpoint = ''203.0.113.10:51820'',
     ro_public_key = ''RELAYKEY'', ro_inner_ip = ''10.77.0.2/32'', ro_region = ''sg'', ro_mtu = 1420\<rparr>"


lemma activate_Inr:
  assumes "activate_device H env key pub fp db = (db1, held, Inr dev)"
  shows "relay_rows db1 = relay_rows db \<and> key_rows db1 = key_rows db \<and>
    (\<exists>e \<in> set (device_rows db1). d_id e = dev \<and> d_pubkey e = pub) \<and>
    (\<forall>r \<in> set (relay_rows db). scan_octet (r_subnet r) \<noteq> None \<longrightarrow>
       (\<exists>b \<in> set (binding_rows db1). b_device b = dev \<and> b_relay b = r_id r))"
  using assms
proof (cases rule: activate_cases)
  case (added k d db1' bs')
  then have "\<exists>e \<in> set (device_rows db1). d_id e = dev \<and> d_pubkey e = pub"
    "relay_rows db1 = relay_rows db" "key_rows db1 = key_rows db"
    by (auto simp: insert_device_Some)
  then show ?thesis using bind_device_covers [OF added(7)] added(8,9) by simp
next
  case (again k d bs')
  let ?f = "\<lambda>e. if d_id e = d_id d then e\<lparr>d_fingerprint := fp, d_last_seen := Some (now env)\<rparr> else e"
  have "?f d \<in> set (device_rows db1)" using again(3,7) by simp
  then have "\<exists>e \<in> set (device_rows db1). d_id e = dev \<and> d_pubkey e = pub"
    using again(4,8) by (intro bexI [of _ "?f d"]) simp_all
  then show ?thesis using bind_device_covers [OF again(6)] again(7,8) by simp
qed simp

text \<open>C20. After a successful activation the device's session offers every relay enrolled at that
  moment that is usable: none is left without an address for it.\<close>

theorem activation_binds_every_relay:
  assumes "reachable H db" "activate_device H env key pub fp db = (db1, held, Inr dev)"
    and "session H env' key pub mtu db1 = (db2, Inr s)"
  shows "ro_relay_id ` set (Relays s) =
    r_id ` {r \<in> set (relay_rows db). r_status r = ''up'' \<and> r_trusted_after r \<le> now env' \<and>
      key_active db (r_key_hash r)}"
proof -
  have ok: "db_ok db" by (rule reachable_ok [OF assms(1)])
  have ok1: "db_ok db1" by (rule activate_device_ok [OF ok assms(2)])
  note tabs = activate_Inr [OF assms(2)]
  obtain d where d: "d \<in> set (device_rows db1)" "d_pubkey d = pub" "Relays s = offer_rows env' (d_id d) mtu db1"
    using assms(3) by (rule session_Inr)
  have dev: "d_id d = dev"
    using tabs d(1,2) distinct_map_eq [OF db_ok_parts(2) [OF ok1]] by metis
  have bound: "\<exists>b \<in> set (binding_rows db1). b_device b = dev \<and> b_relay b = r_id r"
    if "r \<in> set (relay_rows db)" for r
  proof -
    have "scan_octet (r_subnet r) \<noteq> None"
      using ok that by (auto simp: db_ok_def relays_ok_def subnet_ok_def split: option.splits)
    then show ?thesis using tabs that by blast
  qed
  have act: "key_active db1 = key_active db" and rows: "relay_rows db1 = relay_rows db"
    using tabs by (simp_all add: key_active_def fun_eq_iff)
  show ?thesis
  proof (intro equalityI subsetI)
    fix i assume "i \<in> ro_relay_id ` set (Relays s)"
    then show "i \<in> r_id ` {r \<in> set (relay_rows db). r_status r = ''up'' \<and> r_trusted_after r \<le> now env' \<and>
        key_active db (r_key_hash r)}"
      unfolding d(3) using act rows by (auto elim!: offer_rowE)
  next
    fix i assume "i \<in> r_id ` {r \<in> set (relay_rows db). r_status r = ''up'' \<and> r_trusted_after r \<le> now env' \<and>
        key_active db (r_key_hash r)}"
    then obtain r where r: "r \<in> set (relay_rows db)" "i = r_id r" "r_status r = ''up''"
      "r_trusted_after r \<le> now env'" "key_active db (r_key_hash r)" by blast
    with bound [OF r(1)] dev act rows show "i \<in> ro_relay_id ` set (Relays s)"
      unfolding d(3) image_iff by (metis in_offer_rows relay_offer.select_convs(1))
  qed
qed

theorem activation_binds_every_relay_witness:
  "\<exists>s. ro_relay_id ` set (Relays s) = {''relay-RELAYKEY----''} \<and>
     Inr s = snd (session sample_H (sample_env 172800000000000) sample_key ''DEVKEY'' 1420 sample_db)"
proof -
  let ?run = "session sample_H (sample_env 172800000000000) sample_key ''DEVKEY'' 1420 sample_db"
  have s: "snd ?run = Inr \<lparr>Relays = [sample_offer], ProfileVersion = 0\<rparr>" by code_simp
  have run: "?run = (fst ?run, Inr \<lparr>Relays = [sample_offer], ProfileVersion = 0\<rparr>)"
    unfolding s [symmetric] by simp
  have "ro_relay_id ` set (Relays \<lparr>Relays = [sample_offer], ProfileVersion = 0\<rparr>) = {''relay-RELAYKEY----''}"
    unfolding activation_binds_every_relay [OF sample_before sample_run run] by code_simp
  then show ?thesis using s by metis
qed

section \<open>Activation\<close>

lemma bind_device_error: "bind_device env dev rs bs = Inl e \<Longrightarrow> \<exists>l. e = DbError l"
  by (induction rs arbitrary: bs) (auto split: option.splits if_splits)

lemma activate_finish_error:
  "activate_finish env dev a b = (x, Inl e) \<Longrightarrow> \<exists>l. e = DbError l"
  by (cases "bind_device env dev (relay_rows b) (binding_rows b)")
    (auto simp: activate_finish_def bind_device_to_relays_def stmt_def dest: bind_device_error split: if_splits)

lemma activate_own:
  assumes "activate_device H env key pub fp db = (db1, held, Inr dev)"
  shows "(\<exists>e \<in> set (device_rows db1). d_id e = dev \<and> d_pubkey e = pub \<and> d_key_hash e = H key) \<and>
    (\<exists>k. find_key db1 (H key) = Some k \<and> k_status k = ''active'')"
  using assms
proof (cases rule: activate_cases)
  case (added k d db1' bs')
  then show ?thesis by (auto simp: insert_device_Some find_key_def)
next
  case (again k d bs')
  let ?f = "\<lambda>e. if d_id e = d_id d then e\<lparr>d_fingerprint := fp, d_last_seen := Some (now env)\<rparr> else e"
  have "?f d \<in> set (device_rows db1)" using again(3,7) by simp
  then have "\<exists>e \<in> set (device_rows db1). d_id e = dev \<and> d_pubkey e = pub \<and> d_key_hash e = H key"
    using again(4,5,8) by (intro bexI [of _ "?f d"]) simp_all
  then show ?thesis using again(1,2,7) by (simp add: find_key_def)
qed simp

lemma activate_again_error:
  assumes "activate_device H env key pub fp db = (db', held, Inl e)"
    and "\<exists>d \<in> set (device_rows db). d_pubkey d = pub \<and> d_key_hash d = H key"
    and "find_key db (H key) = Some k" "k_status k = ''active''"
  shows "\<exists>l. e = DbError l"
proof -
  obtain d where "find (\<lambda>d. d_pubkey d = pub \<and> d_key_hash d = H key) (device_rows db) = Some d"
    using assms(2) by (cases "find (\<lambda>d. d_pubkey d = pub \<and> d_key_hash d = H key) (device_rows db)")
      (auto simp: find_None_iff)
  then show ?thesis
    using assms(1,3,4) activate_finish_error
    by (auto simp: activate_device_def Let_def split: if_splits prod.splits)
qed



lemma activate_slots_full:
  assumes "activate_device H env key pub fp db = (db', held, Inl ErrSlotsFull)"
  obtains k where "find_key db (H key) = Some k" "k_status k = ''active''"
    "int (length (filter (\<lambda>d. d_key_hash d = H key) (device_rows db))) \<ge> k_max_devices k"
    "devices_for_key env (H key) db = Inr held" "db' = db"
proof -
  have fin: "snd (activate_finish env dev a b) \<noteq> Inl ErrSlotsFull" for dev a b
    using activate_finish_error [of env dev a b] by (metis prod.collapse store_error.distinct(19))
  obtain k where k: "find_key db (H key) = Some k" "k_status k = ''active''"
    using assms by (auto simp: activate_device_def Let_def split: if_splits option.splits)
  show thesis
  proof (cases "find (\<lambda>d. d_pubkey d = pub \<and> d_key_hash d = H key) (device_rows db)")
    case None
    show thesis
    proof (cases "int (length (filter (\<lambda>d. d_key_hash d = H key) (device_rows db))) \<ge> k_max_devices k")
      case True
      then have "devices_for_key env (H key) db = Inr held" "db' = db"
        using assms None k by (auto simp: activate_device_def Let_def devices_for_key_def split: if_splits)
      then show thesis using True k that by blast
    next
      case False
      then have "\<exists>dev b. snd (activate_finish env dev db b) = Inl ErrSlotsFull"
        using assms None k
        by (auto simp: activate_device_def Let_def split_def split: if_splits option.splits)
      then show thesis using fin by blast
    qed
  next
    case (Some d)
    then have "\<exists>dev b. snd (activate_finish env dev db b) = Inl ErrSlotsFull"
      using assms k by (auto simp: activate_device_def Let_def split_def split: if_splits)
    then show thesis using fin by blast
  qed
qed

text \<open>Running out of slots changes nothing and names exactly the devices that hold them, as many
  as the key allows.\<close>

theorem slots_full_names_holders:
  assumes "reachable H db" "activate_device H env key pub fp db = (db', held, Inl ErrSlotsFull)"
  shows "db' = db \<and>
    (\<exists>k. find_key db (H key) = Some k \<and> k_status k = ''active'' \<and>
       int (card (ds_id ` set held)) = k_max_devices k) \<and>
    ds_id ` set held = d_id ` {d \<in> set (device_rows db). d_key_hash d = H key}"
proof -
  have ok: "db_ok db" by (rule reachable_ok [OF assms(1)])
  let ?mine = "filter (\<lambda>d. d_key_hash d = H key) (device_rows db)"
  obtain k where k: "find_key db (H key) = Some k" "k_status k = ''active''"
      "int (length ?mine) \<ge> k_max_devices k" "devices_for_key env (H key) db = Inr held" "db' = db"
    using assms(2) by (rule activate_slots_full)
  have kin: "k \<in> set (key_rows db)" "k_hash k = H key" using find_key_Some [OF k(1)] by auto
  then have "int (length ?mine) \<le> k_max_devices k"
    using ok unfolding db_ok_def devices_ok_def by metis
  moreover have ids: "ds_id ` set held = d_id ` set ?mine"
    using k(4) by (auto simp: devices_for_key_def image_image split: if_splits)
  moreover have "card (d_id ` set ?mine) = length ?mine"
    using db_ok_parts(1) [OF ok] by (metis distinct_card distinct_map_filter_subset length_map list.set_map)
  ultimately show ?thesis using k by auto
qed

theorem slots_full_names_holders_witness:
  "\<exists>held. snd (activate_device sample_H (sample_env 20) sample_key ''D'' ''x''
       (fst (activate_device sample_H (sample_env 20) sample_key ''C'' ''x''
         (fst (activate_device sample_H (sample_env 20) sample_key ''B'' ''x'' sample_db))))) =
     (held, Inl ErrSlotsFull) \<and> card (ds_id ` set held) = 3"
proof -
  let ?b = "fst (activate_device sample_H (sample_env 20) sample_key ''B'' ''x'' sample_db)"
  let ?c = "fst (activate_device sample_H (sample_env 20) sample_key ''C'' ''x'' ?b)"
  let ?d = "activate_device sample_H (sample_env 20) sample_key ''D'' ''x'' ?c"
  have r: "reachable sample_H ?c" by (intro reachable_activate sample_reachable)
  have full: "snd (snd ?d) = Inl ErrSlotsFull" by code_simp
  have mx: "map_option k_max_devices (find_key ?c (sample_H sample_key)) = Some 3" by code_simp
  have "?d = (fst ?d, fst (snd ?d), Inl ErrSlotsFull)" using full by (metis prod.collapse)
  from slots_full_names_holders [OF r this] mx have "card (ds_id ` set (fst (snd ?d))) = 3" by auto
  then show ?thesis using full by (metis prod.collapse)
qed

end
