(* ===== verification/Store_Relays.thy ===== *)
theory Store_Relays
  imports Store_Props
begin

text \<open>
  The life of a relay in the control plane's tables: enrolment under a contributor key, the
  verdicts on its reachability, what revoking a key does, and the published profiles and
  observations. The runs are those of \<open>Store_Props\<close>.
\<close>

section \<open>Registration\<close>

lemma register_relay_cases:
  assumes "register_relay H env rnd inp db = (db', res)"
  obtains (same) e where "res = Inl e" "db' = db"
  | (burnt) e where "res = Inl e" "octet_seq db \<le> 255" "db' = db\<lparr>octet_seq := octet_seq db + 1\<rparr>"
  | (added) k bs r where "find_key db (H (ri_key inp)) = Some k" "k_status k = ''active''" "rnd = Some bs"
      "r = new_relay H env (new_relay_token bs) inp (octet_seq db)" "octet_seq db \<le> 255"
      "\<not> (\<exists>q \<in> set (relay_rows db). r_id q = r_id r \<or> r_pubkey q = r_pubkey r \<or> r_token_hash q = r_token_hash r)"
      "db' = db\<lparr>octet_seq := octet_seq db + 1, relay_rows := relay_rows db @ [r]\<rparr>"
      "res = register_result (r_id r) (new_relay_token bs) (r_subnet r)"
  | (again) k bs r where "find_key db (H (ri_key inp)) = Some k" "k_status k = ''active''" "rnd = Some bs"
      "r \<in> set (relay_rows db)" "r_pubkey r = ri_pubkey inp" "r_key_hash r = H (ri_key inp)"
      "\<not> (\<exists>q \<in> set (relay_rows db). r_id q \<noteq> r_id r \<and> r_token_hash q = H (new_relay_token bs))"
      "db' = db\<lparr>relay_rows := map (\<lambda>q. if r_id q = r_id r \<and> r_key_hash q = H (ri_key inp)
             then q\<lparr>r_token_hash := H (new_relay_token bs), r_endpoint := ri_endpoint inp,
                    r_region := ri_region inp, r_hostname := ri_hostname inp\<rparr> else q) (relay_rows db)\<rparr>"
      "res = register_result (r_id r) (new_relay_token bs) (r_subnet r)"
proof -
  consider (early) e where "res = Inl e" "db' = db"
    | (go) k bs where "find_key db (H (ri_key inp)) = Some k" "k_status k = ''active''" "rnd = Some bs"
      "(case find (\<lambda>r. r_pubkey r = ri_pubkey inp \<and> r_key_hash r = H (ri_key inp)) (relay_rows db) of
          None \<Rightarrow> register_new H env (new_relay_token bs) inp db
        | Some r \<Rightarrow> register_again H env (new_relay_token bs) inp r db) = (db', res)"
  proof (cases "fails env ''look up contributor key'' \<or> find_key db (H (ri_key inp)) = None \<or>
      k_status (the (find_key db (H (ri_key inp)))) \<noteq> ''active'' \<or> rnd = None \<or> fails env ''begin'' \<or>
      fails env ''look up relay''")
    case True
    then show thesis using assms early
      by (auto simp: register_relay_def stmt_def Let_def split: if_splits option.splits)
  next
    case False
    then obtain k bs where "find_key db (H (ri_key inp)) = Some k" "rnd = Some bs" by auto
    with False assms show thesis
      by (intro go [of k bs]) (simp_all add: register_relay_def stmt_def Let_def)
  qed
  then show thesis
  proof cases
    case early
    then show thesis using same by blast
  next
    case (go k bs)
    show thesis
    proof (cases "find (\<lambda>r. r_pubkey r = ri_pubkey inp \<and> r_key_hash r = H (ri_key inp)) (relay_rows db)")
      case None
      then have "register_new H env (new_relay_token bs) inp db = (db', res)" using go(4) by simp
      then show thesis
      proof (cases rule: register_new_cases)
        case same
        then show thesis using \<open>\<And>e. res = Inl e \<Longrightarrow> db' = db \<Longrightarrow> thesis\<close> by blast
      next
        case burnt
        then show thesis using \<open>\<And>e. res = Inl e \<Longrightarrow> octet_seq db \<le> 255 \<Longrightarrow> db' = db\<lparr>octet_seq := octet_seq db + 1\<rparr> \<Longrightarrow> thesis\<close>
          by blast
      next
        case new: (added r)
        show thesis by (rule added [OF go(1,2,3) new(1,2,4,6,7)])
      qed
    next
      case (Some r)
      then have r: "r \<in> set (relay_rows db)" "r_pubkey r = ri_pubkey inp" "r_key_hash r = H (ri_key inp)"
        by (auto simp: find_Some_iff)
      have run: "register_again H env (new_relay_token bs) inp r db = (db', res)" using go(4) Some by simp
      show thesis
      proof (cases "fails env ''rotate relay token'' \<or> fails env ''commit'' \<or>
          (\<exists>q \<in> set (relay_rows db). r_id q \<noteq> r_id r \<and> r_token_hash q = H (new_relay_token bs))")
        case True
        then have "(\<exists>e. res = Inl e) \<and> db' = db"
          using run by (auto simp: register_again_def stmt_def split: if_splits)
        then show thesis using same by blast
      next
        case False
        then have no: "\<not> (\<exists>q \<in> set (relay_rows db). r_id q \<noteq> r_id r \<and> r_token_hash q = H (new_relay_token bs))"
          by blast
        have "register_again H env (new_relay_token bs) inp r db =
            (db\<lparr>relay_rows := map (\<lambda>q. if r_id q = r_id r \<and> r_key_hash q = H (ri_key inp)
             then q\<lparr>r_token_hash := H (new_relay_token bs), r_endpoint := ri_endpoint inp,
                    r_region := ri_region inp, r_hostname := ri_hostname inp\<rparr> else q) (relay_rows db)\<rparr>,
             register_result (r_id r) (new_relay_token bs) (r_subnet r))"
          using False unfolding register_again_def stmt_def by (simp only: no if_False de_Morgan_disj simp_thms)
        then show thesis using run by (intro again [OF go(1,2,3) r no]) simp_all
      qed
    qed
  qed
qed

text \<open>Registering never touches a relay of another contributor: every row under a different
  key hash is kept as it is, no row under another key hash appears, and devices, bindings, keys,
  profiles and observations are untouched. Re-registering keeps the relay's id and subnet.\<close>

theorem register_touches_only_own_relays:
  assumes "register_relay H env rnd inp db = (db', res)"
  shows "filter (\<lambda>r. r_key_hash r \<noteq> H (ri_key inp)) (relay_rows db') =
      filter (\<lambda>r. r_key_hash r \<noteq> H (ri_key inp)) (relay_rows db) \<and>
    (\<exists>new. map (\<lambda>r. (r_id r, r_pubkey r, r_key_hash r, r_subnet r)) (relay_rows db') =
       map (\<lambda>r. (r_id r, r_pubkey r, r_key_hash r, r_subnet r)) (relay_rows db) @ new) \<and>
    db' = db\<lparr>relay_rows := relay_rows db', octet_seq := octet_seq db'\<rparr>"
  using assms
proof (cases rule: register_relay_cases)
  case (added k bs r)
  have "r_key_hash r = H (ri_key inp)" using added(4) by (simp add: new_relay_def)
  then show ?thesis using added(7) by simp
next
  case (again k bs r)
  have "filter P (map f rs) = filter P rs"
    if "\<And>q. P q \<Longrightarrow> f q = q" "\<And>q. P (f q) = P q" for P :: "relay_row \<Rightarrow> bool" and f rs
    using that by (induction rs) auto
  note same = this [of "\<lambda>r. r_key_hash r \<noteq> H (ri_key inp)"]
  have "map (\<lambda>r. (r_id r, r_pubkey r, r_key_hash r, r_subnet r)) (relay_rows db') =
       map (\<lambda>r. (r_id r, r_pubkey r, r_key_hash r, r_subnet r)) (relay_rows db)"
    using again(8) by simp
  then have "\<exists>new. map (\<lambda>r. (r_id r, r_pubkey r, r_key_hash r, r_subnet r)) (relay_rows db') =
       map (\<lambda>r. (r_id r, r_pubkey r, r_key_hash r, r_subnet r)) (relay_rows db) @ new"
    by (intro exI [of _ "[]"]) simp
  then show ?thesis using again(8) same by simp
qed simp_all

theorem register_touches_only_own_relays_witness:
  "relay_rows (fst (register_relay sample_H (sample_env 30) (Some ''c'')
     (sample_register\<lparr>ri_key := ''GNL-OTHER''\<rparr>) sample_db)) = relay_rows sample_db"
proof -
  let ?inp = "sample_register\<lparr>ri_key := ''GNL-OTHER''\<rparr>"
  let ?run = "register_relay sample_H (sample_env 30) (Some ''c'') ?inp sample_db"
  have "?run = (fst ?run, snd ?run)" by simp
  from register_touches_only_own_relays [OF this]
  have k: "filter (\<lambda>r. r_key_hash r \<noteq> sample_H ''GNL-OTHER'') (relay_rows (fst ?run)) =
      filter (\<lambda>r. r_key_hash r \<noteq> sample_H ''GNL-OTHER'') (relay_rows sample_db)"
    by (simp add: sample_register_def)
  moreover have "filter (\<lambda>r. r_key_hash r \<noteq> sample_H ''GNL-OTHER'') (relay_rows sample_db) = relay_rows sample_db"
    "filter (\<lambda>r. r_key_hash r \<noteq> sample_H ''GNL-OTHER'') (relay_rows (fst ?run)) = relay_rows (fst ?run)"
    by code_simp+
  ultimately show ?thesis by simp
qed

lemma new_relay_token_Nil: "new_relay_token bs = [] \<longleftrightarrow> bs = []"
  by (simp add: new_relay_token_def hex_encode_def)

lemma register_result_Inr:
  assumes "subnet_ok seq sub" "seq \<le> 256" "register_result i t sub = Inr out"
  shows "out = \<lparr>RelayID = i, RelayToken = t, InnerSubnet = sub, RelayInnerIP = RelayInnerIP out\<rparr>"
    "\<exists>pfx w. parse_prefix sub = Some pfx \<and> parse_prefix (RelayInnerIP out) = Some (Prefix (V4 w) 16) \<and>
       contains pfx (V4 w) \<and> octet 1 w * 256 + octet 0 w = 1"
proof -
  obtain n where n: "scan_octet sub = Some n" "77 \<le> n" "n < 256" "sub = subnet_of n"
    using assms(1,2) by (auto simp: subnet_ok_def split: option.splits)
  then have o: "out = \<lparr>RelayID = i, RelayToken = t, InnerSubnet = sub, RelayInnerIP = ''10.'' @ dec_int n @ ''.0.1/16''\<rparr>"
    using assms(3) by (simp add: register_result_def)
  then show "out = \<lparr>RelayID = i, RelayToken = t, InnerSubnet = sub, RelayInnerIP = RelayInnerIP out\<rparr>" by simp
  have lt: "nat n < 256" using n by simp
  have "contains (Prefix (V4 (v4_of_octets [10, nat n, 0, 0])) 16) (V4 (v4_of_octets [10, nat n, 0, 1]))"
    unfolding contains_V4 using octet_v4_of_octets(5) [of 10 "nat n" 0 0] octet_v4_of_octets(5) [of 10 "nat n" 0 1] lt
    by simp
  moreover have "octet 1 (v4_of_octets [10, nat n, 0, 1]) * 256 + octet 0 (v4_of_octets [10, nat n, 0, 1]) = 1"
    using octet_v4_of_octets [of 10 "nat n" 0 1] lt by simp
  ultimately show "\<exists>pfx w. parse_prefix sub = Some pfx \<and> parse_prefix (RelayInnerIP out) = Some (Prefix (V4 w) 16) \<and>
       contains pfx (V4 w) \<and> octet 1 w * 256 + octet 0 w = 1"
    using n parse_subnet_of [of n] o by simp
qed

lemma find_unique:
  assumes "x \<in> set xs" "P x" "\<And>y. y \<in> set xs \<Longrightarrow> P y \<Longrightarrow> y = x"
  shows "find P xs = Some x"
proof (cases "find P xs")
  case None
  then show ?thesis using assms(1,2) by (simp add: find_None_iff)
next
  case (Some y)
  then have "y \<in> set xs" "P y" by (auto simp: find_Some_iff)
  then show ?thesis using Some assms(3) by simp
qed

lemma register_Inr_row:
  assumes ok: "db_ok db" and run: "register_relay H env (Some bs) inp db = (db', Inr out)"
  shows "\<exists>r \<in> set (relay_rows db'). r_pubkey r = ri_pubkey inp \<and> r_key_hash r = H (ri_key inp) \<and>
    r_token_hash r = H (new_relay_token bs) \<and> r_endpoint r = ri_endpoint inp \<and>
    register_result (r_id r) (new_relay_token bs) (r_subnet r) = Inr out \<and>
    (\<forall>q \<in> set (relay_rows db). r_pubkey q = ri_pubkey inp \<longrightarrow> r_id r = r_id q \<and> r_subnet r = r_subnet q) \<and>
    (\<forall>q \<in> set (relay_rows db'). r_id q = r_id r \<or> q \<in> set (relay_rows db))"
  using run
proof (cases rule: register_relay_cases)
  case (added k bs' r)
  then show ?thesis by (intro bexI [of _ r]) (auto simp: new_relay_def)
next
  case (again k bs' r)
  define f :: "relay_row \<Rightarrow> relay_row" where "f = (\<lambda>q. if r_id q = r_id r \<and> r_key_hash q = H (ri_key inp)
             then q\<lparr>r_token_hash := H (new_relay_token bs'), r_endpoint := ri_endpoint inp,
                    r_region := ri_region inp, r_hostname := ri_hostname inp\<rparr> else q)"
  have rows: "relay_rows db' = map f (relay_rows db)" using again(8) by (simp add: f_def)
  have fr: "f r \<in> set (relay_rows db')" using again(4) rows by simp
  have sel: "r_id (f r) = r_id r" "r_pubkey (f r) = ri_pubkey inp" "r_key_hash (f r) = H (ri_key inp)"
    "r_token_hash (f r) = H (new_relay_token bs')" "r_endpoint (f r) = ri_endpoint inp" "r_subnet (f r) = r_subnet r"
    using again(5,6) by (simp_all add: f_def)
  have "r_id r = r_id q \<and> r_subnet r = r_subnet q"
    if "q \<in> set (relay_rows db)" "r_pubkey q = ri_pubkey inp" for q
    using distinct_map_eq [OF db_ok_parts(4) [OF ok] that(1) again(4)] that(2) again(5) by simp
  moreover have "r_id q = r_id r \<or> q \<in> set (relay_rows db)" if "q \<in> set (relay_rows db')" for q
    using that unfolding rows f_def by (auto split: if_splits)
  ultimately show ?thesis
    using again(3,9) sel by (intro bexI [OF _ fr]) simp
qed simp_all

text \<open>C22. A successful registration hands out a token that authenticates as this relay, a /16 that
  is the relay's alone and the first host of it as the relay's own address; a relay already
  enrolled under the key keeps its id and subnet, so its bindings stay valid, and its previous
  token stops working unless it has the same hash.\<close>

theorem registration_gives_working_identity:
  assumes "reachable H db" "register_relay H env (Some bs) inp db = (db', Inr out)" "bs \<noteq> []"
  shows "\<exists>r \<in> set (relay_rows db'). r_id r = RelayID out \<and> r_pubkey r = ri_pubkey inp \<and>
      r_key_hash r = H (ri_key inp) \<and> r_subnet r = InnerSubnet out \<and> r_endpoint r = ri_endpoint inp \<and>
      (\<forall>env'. \<not> fails env' ''authenticate relay'' \<longrightarrow>
         authenticate_relay H env' (RelayToken out) db' = Inr (RelayID out)) \<and>
      (\<forall>q \<in> set (relay_rows db'). r_subnet q = InnerSubnet out \<longrightarrow> q = r) \<and>
      (\<exists>pfx w. parse_prefix (InnerSubnet out) = Some pfx \<and>
         parse_prefix (RelayInnerIP out) = Some (Prefix (V4 w) 16) \<and> contains pfx (V4 w) \<and>
         octet 1 w * 256 + octet 0 w = 1) \<and>
      (\<forall>q \<in> set (relay_rows db). r_pubkey q = ri_pubkey inp \<longrightarrow>
         r_id r = r_id q \<and> r_subnet r = r_subnet q \<and>
         (r_token_hash q \<noteq> H (RelayToken out) \<longrightarrow>
            \<not> (\<exists>q' \<in> set (relay_rows db'). r_token_hash q' = r_token_hash q)))"
proof -
  have ok: "db_ok db" by (rule reachable_ok [OF assms(1)])
  have ok': "db_ok db'" by (rule register_relay_ok [OF ok assms(2)])
  obtain r where r: "r \<in> set (relay_rows db')" "r_pubkey r = ri_pubkey inp" "r_key_hash r = H (ri_key inp)"
    "r_token_hash r = H (new_relay_token bs)" "r_endpoint r = ri_endpoint inp"
    "register_result (r_id r) (new_relay_token bs) (r_subnet r) = Inr out"
    "\<forall>q \<in> set (relay_rows db). r_pubkey q = ri_pubkey inp \<longrightarrow> r_id r = r_id q \<and> r_subnet r = r_subnet q"
    "\<forall>q \<in> set (relay_rows db'). r_id q = r_id r \<or> q \<in> set (relay_rows db)"
    using register_Inr_row [OF ok assms(2)] by blast
  have sub: "subnet_ok (octet_seq db') (r_subnet r)" "octet_seq db' \<le> 256" "distinct (map r_subnet (relay_rows db'))"
    using ok' r(1) by (auto simp: db_ok_def relays_ok_def)
  note out = register_result_Inr [OF sub(1,2) r(6)]
  have sel: "RelayID out = r_id r" "RelayToken out = new_relay_token bs" "InnerSubnet out = r_subnet r"
    by (subst out(1), simp)+
  note u = db_ok_parts [OF ok']
  have "find (\<lambda>q. r_token_hash q = H (new_relay_token bs)) (relay_rows db') = Some r"
    using r(1,4) distinct_map_eq [OF u(5)] by (intro find_unique) auto
  then have "authenticate_relay H env' (new_relay_token bs) db' = Inr (r_id r)"
    if "\<not> fails env' ''authenticate relay''" for env'
    using that assms(3) by (simp add: authenticate_relay_def new_relay_token_Nil)
  moreover have "q = r" if "q \<in> set (relay_rows db')" "r_subnet q = r_subnet r" for q
    using distinct_map_eq [OF sub(3) that(1) r(1) that(2)] .
  moreover have "\<not> (\<exists>q' \<in> set (relay_rows db'). r_token_hash q' = r_token_hash q)"
    if q: "q \<in> set (relay_rows db)" "r_pubkey q = ri_pubkey inp" "r_token_hash q \<noteq> H (new_relay_token bs)" for q
  proof
    assume "\<exists>q' \<in> set (relay_rows db'). r_token_hash q' = r_token_hash q"
    then obtain q' where q': "q' \<in> set (relay_rows db')" "r_token_hash q' = r_token_hash q" by blast
    have "r_id q' = r_id r"
    proof (cases "q' \<in> set (relay_rows db)")
      case True
      then have "q' = q" using distinct_map_eq [OF db_ok_parts(5) [OF ok] True q(1) q'(2)] by simp
      then show ?thesis using r(7) q(1,2) by simp
    qed (use r(8) q'(1) in blast)
    then have "q' = r" using distinct_map_eq [OF u(3) q'(1) r(1)] by blast
    then show False using q'(2) q(3) r(4) by simp
  qed
  ultimately show ?thesis unfolding sel
    using r out(2) [unfolded sel] by (intro bexI [OF _ r(1)]) (simp add: sel)
qed

theorem registration_gives_working_identity_witness:
  "authenticate_relay sample_H (sample_env 31) ''62''
     (fst (register_relay sample_H (sample_env 30) (Some ''b'') sample_register sample_db)) =
     Inr ''relay-RELAYKEY----'' \<and>
   \<not> (\<exists>q \<in> set (relay_rows (fst (register_relay sample_H (sample_env 30) (Some ''b'') sample_register sample_db))).
       r_token_hash q = sample_H ''61'')"
proof -
  let ?run = "register_relay sample_H (sample_env 30) (Some ''b'') sample_register sample_db"
  define db' where "db' = fst ?run"
  define out where "out = \<lparr>RelayID = ''relay-RELAYKEY----'', RelayToken = ''62'', InnerSubnet = ''10.77.0.0/16'',
    RelayInnerIP = ''10.77.0.1/16''\<rparr>"
  have "snd ?run = Inr out" unfolding out_def by code_simp
  then have "?run = (db', Inr out)" unfolding db'_def by (metis prod.collapse)
  note w = registration_gives_working_identity [OF sample_reachable this list.distinct(2)]
  have a: "\<not> fails (sample_env 31) ''authenticate relay'' \<longrightarrow>
      authenticate_relay sample_H (sample_env 31) (RelayToken out) db' = Inr (RelayID out)"
    using w by blast
  let ?q = "hd (relay_rows sample_db)"
  have t: "RelayToken out = ''62''" by (simp add: out_def)
  have q: "?q \<in> set (relay_rows sample_db)" "r_pubkey ?q = ri_pubkey sample_register"
    "r_token_hash ?q = sample_H ''61''" "sample_H ''61'' \<noteq> sample_H ''62''"
    by code_simp+
  have "\<not> (\<exists>q' \<in> set (relay_rows db'). r_token_hash q' = r_token_hash ?q)"
    using w q by (metis t)
  then show ?thesis using a q(3) unfolding db'_def [symmetric] out_def by (simp add: sample_env_def)
qed

section \<open>Identity over time\<close>

text \<open>Every step but a registration keeps the rows, updates them in place or deletes some.\<close>

definition same_identity :: "relay_row \<Rightarrow> relay_row \<Rightarrow> bool" where
  "same_identity r r' \<longleftrightarrow> r_id r = r_id r' \<and> r_pubkey r = r_pubkey r' \<and> r_key_hash r = r_key_hash r' \<and>
     r_subnet r = r_subnet r' \<and> r_trusted_after r = r_trusted_after r'"

definition rows_kept :: "db \<Rightarrow> db \<Rightarrow> bool" where
  "rows_kept db db' \<longleftrightarrow> octet_seq db' = octet_seq db \<and>
     (\<forall>r' \<in> set (relay_rows db'). \<exists>r \<in> set (relay_rows db). same_identity r r')"

lemma rows_kept_same: "octet_seq db' = octet_seq db \<Longrightarrow> relay_rows db' = relay_rows db \<Longrightarrow> rows_kept db db'"
  unfolding rows_kept_def by (auto simp: same_identity_def)

lemma rows_kept_map:
  "(\<And>r. same_identity r (f r)) \<Longrightarrow> rows_kept db (db\<lparr>relay_rows := map f (relay_rows db)\<rparr>)"
  unfolding rows_kept_def by auto

lemma rows_kept_ops:
  "create_contributor_key H env rnd db = (db', k) \<Longrightarrow> rows_kept db db'"
  "record_status env rid st db = (db', u) \<Longrightarrow> rows_kept db db'"
  "record_reachability H env key pub ok detail db = (db', u) \<Longrightarrow> rows_kept db db'"
  "mark_stale_relays_down env after db = (db', n) \<Longrightarrow> rows_kept db db'"
  "activate_device H env key pub fp db = (db', held, res) \<Longrightarrow> rows_kept db db'"
  "session H env key pub mtu db = (db', s) \<Longrightarrow> rows_kept db db'"
  "release_device H env key dev db = (db', u) \<Longrightarrow> rows_kept db db'"
  "publish_profile env cidrs db = (db', v) \<Longrightarrow> rows_kept db db'"
  "record_observation H env key game ip port db = (db', u) \<Longrightarrow> rows_kept db db'"
  "rows_kept db (revoke_key kh db)"
  "rows_kept db (delete_relay rid db)"
proof -
  show "create_contributor_key H env rnd db = (db', k) \<Longrightarrow> rows_kept db db'"
    by (rule rows_kept_same; auto simp: create_contributor_key_def stmt_def Let_def split: if_splits option.splits)
  show "record_status env rid st db = (db', u) \<Longrightarrow> rows_kept db db'"
    by (auto simp: record_status_def stmt_def same_identity_def split: if_splits
        intro: rows_kept_same intro!: rows_kept_map)
  show "record_reachability H env key pub ok detail db = (db', u) \<Longrightarrow> rows_kept db db'"
    by (auto simp: record_reachability_def stmt_def same_identity_def Let_def split: if_splits
        intro: rows_kept_same intro!: rows_kept_map)
  show "mark_stale_relays_down env after db = (db', n) \<Longrightarrow> rows_kept db db'"
    by (auto simp: mark_stale_relays_down_def stmt_def same_identity_def split: if_splits
        intro: rows_kept_same intro!: rows_kept_map)
  show "activate_device H env key pub fp db = (db', held, res) \<Longrightarrow> rows_kept db db'"
    by (erule activate_cases; rule rows_kept_same; auto simp: insert_device_Some)
  show "session H env key pub mtu db = (db', s) \<Longrightarrow> rows_kept db db'"
    by (rule rows_kept_same; auto simp: session_def stmt_def Let_def split: if_splits option.splits)
  show "release_device H env key dev db = (db', u) \<Longrightarrow> rows_kept db db'"
    by (rule rows_kept_same; auto simp: release_device_def delete_device_def stmt_def Let_def split: if_splits)
  show "publish_profile env cidrs db = (db', v) \<Longrightarrow> rows_kept db db'"
    by (rule rows_kept_same; auto simp: publish_profile_def stmt_def Let_def split: if_splits)
  show "record_observation H env key game ip port db = (db', u) \<Longrightarrow> rows_kept db db'"
    by (rule rows_kept_same; auto simp: record_observation_def stmt_def Let_def split: if_splits)
  show "rows_kept db (revoke_key kh db)" by (rule rows_kept_same) (simp_all add: revoke_key_def)
  show "rows_kept db (delete_relay rid db)"
    by (auto simp: rows_kept_def delete_relay_def same_identity_def)
qed



section \<open>Verdicts on reachability\<close>

text \<open>A relay that an external check once reached and now finds unreachable is put back to
  \<open>up\<close> by its own next sync: the check keeps \<open>reachable_at\<close>, and that column is what a
  status report reads. The only defence left is the next external check.\<close>

theorem sync_revives_unreachable_relay:
  assumes "reachable H db" "r \<in> set (relay_rows db)" "r_reachable_at r \<noteq> None"
    and "record_reachability H env key (r_pubkey r) False detail db = (db1, Inr ())"
    and "record_status env' (r_id r) st db1 = (db2, Inr ())"
  shows "(\<exists>q \<in> set (relay_rows db1). r_id q = r_id r \<and> r_status q = ''unreachable'') \<and>
    (\<exists>q \<in> set (relay_rows db2). r_id q = r_id r \<and> r_status q = ''up'')"
proof -
  have ok: "db_ok db" by (rule reachable_ok [OF assms(1)])
  define hit :: "relay_row \<Rightarrow> bool" where "hit = (\<lambda>q. r_pubkey q = r_pubkey r \<and> r_key_hash q = H key \<and> key_active db (r_key_hash q))"
  define down :: "relay_row \<Rightarrow> relay_row" where "down = (\<lambda>q. q\<lparr>r_status := ''unreachable'', r_detail := detail\<rparr>)"
  have run: "filter hit (relay_rows db) \<noteq> []" "relay_rows db1 = map (\<lambda>q. if hit q then down q else q) (relay_rows db)"
  proof -
    have "record_reachability H env key (r_pubkey r) False detail db =
      stmt env ''record reachability'' db
        (if filter hit (relay_rows db) = [] then (db, Inl ErrUnknownKey)
         else (db\<lparr>relay_rows := map (\<lambda>q. if hit q then down q else q) (relay_rows db)\<rparr>, Inr ()))"
      by (simp add: record_reachability_def hit_def down_def cong: if_cong)
    then show "filter hit (relay_rows db) \<noteq> []" "relay_rows db1 = map (\<lambda>q. if hit q then down q else q) (relay_rows db)"
      using assms(4) by (auto simp: stmt_def split: if_splits)
  qed
  then obtain q where q: "q \<in> set (relay_rows db)" "hit q" by (auto simp: filter_empty_conv)
  then have "q = r" using distinct_map_eq [OF db_ok_parts(4) [OF ok] q(1) assms(2)] by (simp add: hit_def)
  then have d: "down r \<in> set (relay_rows db1)" using q run(2) by auto
  define u :: "relay_row \<Rightarrow> relay_row" where "u = (\<lambda>q. if r_id q = r_id r
    then q\<lparr>r_last_seen := Some (now env'), r_active_peers := ActivePeers st, r_rx_bytes := RxBytes st,
           r_tx_bytes := TxBytes st, r_status := (if r_reachable_at q \<noteq> None then ''up'' else r_status q)\<rparr> else q)"
  have "record_status env' (r_id r) st db1 =
      stmt env' ''record status'' db1 (db1\<lparr>relay_rows := map u (relay_rows db1)\<rparr>, Inr ())"
    unfolding record_status_def u_def ..
  then have "relay_rows db2 = map u (relay_rows db1)"
    using assms(5) by (auto simp: stmt_def split: if_splits)
  then have "u (down r) \<in> set (relay_rows db2)" using d by simp
  moreover have "r_id (u (down r)) = r_id r" "r_status (u (down r)) = ''up''"
    using assms(3) by (simp_all add: u_def down_def)
  moreover have "r_id (down r) = r_id r" "r_status (down r) = ''unreachable''" by (simp_all add: down_def)
  ultimately show ?thesis using d by blast
qed

definition sample_status :: relay_status where
  "sample_status = \<lparr>ActivePeers = 1, TotalPeers = 1, RxBytes = 10, TxBytes = 20, LoadAvg1 = 0,
     AgentVersion = ''1''\<rparr>"

theorem sync_revives_unreachable_relay_witness:
  "\<exists>q \<in> set (relay_rows (fst (record_status (sample_env 41) ''relay-RELAYKEY----'' sample_status
       (fst (record_reachability sample_H (sample_env 40) sample_key ''RELAYKEY'' False ''closed'' sample_db))))).
     r_status q = ''up''"
proof -
  let ?r = "hd (relay_rows sample_db)"
  let ?a = "record_reachability sample_H (sample_env 40) sample_key (r_pubkey ?r) False ''closed'' sample_db"
  let ?b = "record_status (sample_env 41) (r_id ?r) sample_status (fst ?a)"
  have "?r \<in> set (relay_rows sample_db)" "r_reachable_at ?r \<noteq> None" "snd ?a = Inr ()" "snd ?b = Inr ()"
    "r_pubkey ?r = ''RELAYKEY''" "r_id ?r = ''relay-RELAYKEY----''"
    by code_simp+
  then show ?thesis
    using sync_revives_unreachable_relay [OF sample_reachable, of ?r "sample_env 40" sample_key "''closed''" "fst ?a"
        "sample_env 41" sample_status "fst ?b"] by (metis prod.collapse)
qed

end
