(* ===== verification/Store_Evidence.thy ===== *)
theory Store_Evidence
  imports Store_Props
begin

text \<open>
  Revoking a key, relays that fall silent, published profiles and the observations profiles are
  built from: the remaining properties of the control plane's tables.
\<close>

section \<open>Revocation\<close>

lemma revoked_not_active: "\<not> key_active (revoke_key kh db) kh"
proof
  assume "key_active (revoke_key kh db) kh"
  then obtain k' where k': "k' \<in> set (key_rows (revoke_key kh db))" "k_hash k' = kh" "k_status k' = ''active''"
    unfolding key_active_def by blast
  have "key_rows (revoke_key kh db) =
      map (\<lambda>k. if k_hash k = kh then k\<lparr>k_status := ''revoked''\<rparr> else k) (key_rows db)"
    by (simp add: revoke_key_def cong: if_cong)
  from k'(1) [unfolded this set_map] obtain k where "k' = (if k_hash k = kh then k\<lparr>k_status := ''revoked''\<rparr> else k)"
    by (rule imageE)
  then show False using k'(2,3) by (cases "k_hash k = kh") simp_all
qed

lemma revoke_key_tables [simp]:
  "relay_rows (revoke_key kh db) = relay_rows db" "device_rows (revoke_key kh db) = device_rows db"
  "binding_rows (revoke_key kh db) = binding_rows db" "observed_rows (revoke_key kh db) = observed_rows db"
  by (simp_all add: revoke_key_def)

lemma find_key_revoked: "find_key (revoke_key kh db) kh = Some k \<Longrightarrow> k_status k \<noteq> ''active''"
  using revoked_not_active [of kh db] find_key_Some [of "revoke_key kh db" kh k] by (auto simp: key_active_def)

text \<open>C14. Revoking a key takes effect at once on what is handed out: no relay is told of a device of
  that key, a relay of that key is told of nobody and is offered to nobody, and none of the key's
  reports counts towards a candidate address.\<close>

theorem revocation_cuts_tunnels:
  assumes "reachable H db"
  shows
    "(\<forall>env rid ps cs. desired_state env rid (revoke_key kh db) = Inr (ps, cs) \<longrightarrow>
       (\<forall>p \<in> set ps. \<forall>d \<in> set (device_rows db). d_pubkey d = PublicKey p \<longrightarrow> d_key_hash d \<noteq> kh) \<and>
       ((\<exists>r \<in> set (relay_rows db). r_id r = rid \<and> r_key_hash r = kh) \<longrightarrow> ps = [])) \<and>
     (\<forall>env key pub mtu db' s. session H env key pub mtu (revoke_key kh db) = (db', Inr s) \<longrightarrow>
       H key \<noteq> kh \<and> (\<forall>x \<in> set (Relays s). \<forall>r \<in> set (relay_rows db). r_id r = ro_relay_id x \<longrightarrow> r_key_hash r \<noteq> kh)) \<and>
     (\<forall>game. \<forall>o' \<in> set (counted_reports game (revoke_key kh db)). o_key_hash o' \<noteq> kh)"
proof -
  note u = db_ok_parts [OF reachable_ok [OF assms]]
  note na = revoked_not_active [of kh db]
  have "(\<forall>d \<in> set (device_rows db). d_pubkey d = PublicKey p \<longrightarrow> d_key_hash d \<noteq> kh) \<and>
      \<not> (\<exists>r \<in> set (relay_rows db). r_id r = rid \<and> r_key_hash r = kh)"
    if "p \<in> set (peer_rows (revoke_key kh db) rid)" for p rid
    using that
  proof (rule peer_rowE)
    fix b e r assume e: "e \<in> set (device_rows (revoke_key kh db))" "key_active (revoke_key kh db) (d_key_hash e)"
      "p = \<lparr>PublicKey = d_pubkey e, InnerIP = b_inner_ip b\<rparr>"
      and r: "r \<in> set (relay_rows (revoke_key kh db))" "r_id r = rid" "key_active (revoke_key kh db) (r_key_hash r)"
    show ?thesis
    proof (intro conjI ballI impI notI; (elim bexE conjE)?)
      fix d assume "d \<in> set (device_rows db)" "d_pubkey d = PublicKey p" "d_key_hash d = kh"
      then show False using distinct_map_eq [OF u(2), of d e] e na by auto
    next
      fix q assume "q \<in> set (relay_rows db)" "r_id q = rid" "r_key_hash q = kh"
      then show False using distinct_map_eq [OF u(3), of q r] r na by auto
    qed
  qed
  then have "(\<forall>p \<in> set ps. \<forall>d \<in> set (device_rows db). d_pubkey d = PublicKey p \<longrightarrow> d_key_hash d \<noteq> kh) \<and>
       ((\<exists>r \<in> set (relay_rows db). r_id r = rid \<and> r_key_hash r = kh) \<longrightarrow> ps = [])"
    if "desired_state env rid (revoke_key kh db) = Inr (ps, cs)" for env rid ps cs
    using desired_stateD [OF that] by (metis list.set_intros(1) neq_Nil_conv)
  moreover have "H key \<noteq> kh \<and> (\<forall>x \<in> set (Relays s). \<forall>r \<in> set (relay_rows db). r_id r = ro_relay_id x \<longrightarrow> r_key_hash r \<noteq> kh)"
    if run: "session H env key pub mtu (revoke_key kh db) = (db', Inr s)" for env key pub mtu db' s
    using run
  proof (rule session_Inr)
    fix d assume d: "key_active (revoke_key kh db) (H key)" "Relays s = offer_rows env (d_id d) mtu (revoke_key kh db)"
    have "r_key_hash r \<noteq> kh" if "x \<in> set (Relays s)" "r \<in> set (relay_rows db)" "r_id r = ro_relay_id x" for x r
      using that(1) unfolding d(2)
      by (rule offer_rowE) (use that(2,3) distinct_map_eq [OF u(3), of r] na in auto)
    then show ?thesis using d(1) na by blast
  qed
  moreover have "\<forall>o' \<in> set (counted_reports game (revoke_key kh db)). o_key_hash o' \<noteq> kh" for game
    using na by (auto simp: counted_reports_def)
  ultimately show ?thesis by blast
qed

theorem revocation_cuts_tunnels_witness:
  "desired_state (sample_env 9) ''relay-RELAYKEY----'' (revoke_key (sample_H sample_key) sample_db) = Inr ([], [])"
proof -
  obtain ps where ps: "desired_state (sample_env 9) ''relay-RELAYKEY----'' (revoke_key (sample_H sample_key) sample_db) =
      Inr (ps, [])"
    by (simp add: desired_state_def sample_env_def newest_profile_def revoke_key_def sample_db_def)
  have "\<exists>r \<in> set (relay_rows sample_db). r_id r = ''relay-RELAYKEY----'' \<and> r_key_hash r = sample_H sample_key"
    by (simp add: sample_db_def)
  then show ?thesis using revocation_cuts_tunnels [OF sample_reachable] ps by blast
qed

text \<open>A revoked key can do nothing more: it can neither register, activate, open a session, report
  reachability nor report an observation, whatever the statements do.\<close>

theorem revoked_key_refused:
  "(\<forall>db' out. register_relay H env rnd inp (revoke_key (H (ri_key inp)) db) \<noteq> (db', Inr out)) \<and>
   (\<forall>db' held dev. activate_device H env key pub fp (revoke_key (H key) db) \<noteq> (db', held, Inr dev)) \<and>
   (\<forall>db' s. session H env key pub mtu (revoke_key (H key) db) \<noteq> (db', Inr s)) \<and>
   (\<forall>db'. record_reachability H env key pub ok detail (revoke_key (H key) db) \<noteq> (db', Inr ())) \<and>
   (\<forall>db'. record_observation H env key game ip port (revoke_key (H key) db) \<noteq> (db', Inr ()))"
proof (intro conjI allI notI)
  fix db' out assume "register_relay H env rnd inp (revoke_key (H (ri_key inp)) db) = (db', Inr out)"
  then show False using find_key_revoked [of "H (ri_key inp)" db]
    by (auto simp: register_relay_def stmt_def split: if_splits option.splits)
next
  fix db' held dev assume "activate_device H env key pub fp (revoke_key (H key) db) = (db', held, Inr dev)"
  then show False using find_key_revoked [of "H key" db] by (cases rule: activate_cases) auto
next
  fix db' s assume "session H env key pub mtu (revoke_key (H key) db) = (db', Inr s)"
  then show False by (rule session_Inr) (use revoked_not_active [of "H key" db] in blast)
next
  fix db' assume "record_reachability H env key pub ok detail (revoke_key (H key) db) = (db', Inr ())"
  then have "filter (\<lambda>r. r_pubkey r = pub \<and> r_key_hash r = H key \<and> key_active (revoke_key (H key) db) (r_key_hash r))
      (relay_rows db) \<noteq> []"
    by (auto simp: record_reachability_def stmt_def Let_def split: if_splits)
  then show False using revoked_not_active [of "H key" db] by (auto simp: filter_empty_conv)
next
  fix db' assume "record_observation H env key game ip port (revoke_key (H key) db) = (db', Inr ())"
  then show False using revoked_not_active [of "H key" db]
    by (auto simp: record_observation_def stmt_def Let_def split: if_splits)
qed

section \<open>Silent relays\<close>

text \<open>Once stale relays are marked down, no session opened at that time offers a relay whose last
  sync is older than the bound (in whole seconds) or that never synced; the relays marked are
  counted, and nothing else about any relay changes.\<close>

theorem stale_relays_leave_service:
  assumes "reachable H db" "mark_stale_relays_down env after db = (db1, Inr n)"
    and "session H env' key pub mtu db1 = (db2, Inr s)"
  shows "(\<forall>x \<in> set (Relays s). \<exists>r \<in> set (relay_rows db). r_id r = ro_relay_id x \<and>
      (\<exists>t. r_last_seen r = Some t \<and> now env - whole_seconds after * second \<le> t)) \<and>
    n = card {r_id r | r. r \<in> set (relay_rows db) \<and> relay_stale env after r} \<and>
    map (\<lambda>r. r\<lparr>r_status := []\<rparr>) (relay_rows db1) = map (\<lambda>r. r\<lparr>r_status := []\<rparr>) (relay_rows db)"
proof -
  define f :: "relay_row \<Rightarrow> relay_row" where "f = (\<lambda>r. if relay_stale env after r then r\<lparr>r_status := ''down''\<rparr> else r)"
  have "mark_stale_relays_down env after db = stmt env ''mark stale relays down'' db
       (db\<lparr>relay_rows := map f (relay_rows db)\<rparr>, Inr (length (filter (relay_stale env after) (relay_rows db))))"
    unfolding mark_stale_relays_down_def f_def ..
  then have db1: "relay_rows db1 = map f (relay_rows db)" "n = length (filter (relay_stale env after) (relay_rows db))"
    using assms(2) by (auto simp: stmt_def split: if_splits)
  have "\<exists>r \<in> set (relay_rows db). r_id r = ro_relay_id x \<and>
      (\<exists>t. r_last_seen r = Some t \<and> now env - whole_seconds after * second \<le> t)" if x: "x \<in> set (Relays s)" for x
  proof -
    obtain d :: device_row where "Relays s = offer_rows env' (d_id d) mtu db1" by (rule session_Inr [OF assms(3)]) blast
    with x have "x \<in> set (offer_rows env' (d_id d) mtu db1)" by simp
    then obtain q where q: "q \<in> set (relay_rows db1)" "r_status q = ''up''" "ro_relay_id x = r_id q"
      by (auto elim: offer_rowE)
    then obtain r where r: "r \<in> set (relay_rows db)" "q = f r" using db1(1) by auto
    then have "r_status r = ''up''" "\<not> relay_stale env after r" "r_id r = ro_relay_id x"
      using q by (auto simp: f_def split: if_splits)
    then show ?thesis using r(1) by (auto simp: relay_stale_def split: option.splits)
  qed
  moreover have "n = card {r_id r | r. r \<in> set (relay_rows db) \<and> relay_stale env after r}"
  proof -
    have "{r_id r | r. r \<in> set (relay_rows db) \<and> relay_stale env after r} =
        set (map r_id (filter (relay_stale env after) (relay_rows db)))" by auto
    then show ?thesis
      using db1(2) distinct_map_filter_subset [OF db_ok_parts(3) [OF reachable_ok [OF assms(1)]]]
      by (metis distinct_card length_map)
  qed
  moreover have "map (\<lambda>r. r\<lparr>r_status := []\<rparr>) (relay_rows db1) = map (\<lambda>r. r\<lparr>r_status := []\<rparr>) (relay_rows db)"
    using db1(1) by (simp add: f_def)
  ultimately show ?thesis by blast
qed

theorem stale_relays_leave_service_witness:
  "Relays (case snd (session sample_H (sample_env 172800000000001) sample_key ''DEVKEY'' 1420
       (fst (mark_stale_relays_down (sample_env 172800000000000) 300000000000 sample_db))) of Inr s \<Rightarrow> s) = []"
proof -
  let ?m = "mark_stale_relays_down (sample_env 172800000000000) 300000000000 sample_db"
  let ?s = "session sample_H (sample_env 172800000000001) sample_key ''DEVKEY'' 1420 (fst ?m)"
  define s where "s = (case snd ?s of Inr s \<Rightarrow> s)"
  have "snd ?m = Inr 1" by code_simp
  then have m: "?m = (fst ?m, Inr 1)" by (metis prod.collapse)
  have "snd ?s = Inr s" unfolding s_def by code_simp
  then have run: "?s = (fst ?s, Inr s)" by (metis prod.collapse)
  have never: "r_last_seen r = None" if "r \<in> set (relay_rows sample_db)" for r
    using that by (simp add: sample_db_def)
  have "x \<notin> set (Relays s)" for x
    using stale_relays_leave_service [OF sample_reachable m run, THEN conjunct1] never by fastforce
  then show ?thesis unfolding s_def [symmetric] by (metis list.set_intros(1) neq_Nil_conv)
qed

section \<open>Profiles\<close>

lemma newest_profile_Some:
  assumes "newest_profile db = Some p"
  shows "p \<in> set (profile_rows db)" "\<forall>q \<in> set (profile_rows db). p_version q \<le> p_version p"
proof -
  obtain rest where e: "sort_key (\<lambda>p. - p_version p) (profile_rows db) = p # rest"
    using assms by (auto simp: newest_profile_def split: list.splits)
  then have "set (p # rest) = set (profile_rows db)" by (metis set_sort)
  then show "p \<in> set (profile_rows db)" by auto
  have "sorted (map (\<lambda>p. - p_version p) (p # rest))" using e by (metis sorted_sort_key)
  then show "\<forall>q \<in> set (profile_rows db). p_version q \<le> p_version p"
    using \<open>set (p # rest) = set (profile_rows db)\<close> [symmetric] by auto
qed

lemma newest_profile_None: "newest_profile db = None \<longleftrightarrow> profile_rows db = []"
proof -
  have "sort_key (\<lambda>p. - p_version p) (profile_rows db) = [] \<longleftrightarrow> profile_rows db = []"
    by (metis length_0_conv length_sort)
  then show ?thesis by (auto simp: newest_profile_def split: list.splits)
qed

text \<open>Publishing gives a version above every earlier one and keeps the earlier ones; from then on
  clients are served exactly this list, and relays are told exactly this list. An empty list is
  refused and changes nothing.\<close>

theorem publish_becomes_current:
  assumes "publish_profile env cidrs db = (db', res)"
  shows "(\<forall>v. res = Inr v \<longrightarrow>
      cidrs \<noteq> [] \<and> (\<forall>p \<in> set (profile_rows db). p_version p < v) \<and>
      set (profile_rows db) \<subseteq> set (profile_rows db') \<and>
      (\<forall>env'. \<not> fails env' ''read profile'' \<longrightarrow> get_profile env' db' = Inr \<lparr>pr_version = v, pr_cidrs = cidrs\<rparr>) \<and>
      (\<forall>env' rid ps cs. desired_state env' rid db' = Inr (ps, cs) \<longrightarrow> cs = cidrs)) \<and>
    ((\<exists>e. res = Inl e) \<longrightarrow> db' = db) \<and> (cidrs = [] \<longrightarrow> (\<exists>e. res = Inl e))"
proof -
  let ?new = "\<lparr>p_version = max_version db + 1, p_cidrs = cidrs\<rparr>"
  have "newest_profile db' = Some ?new" if db': "profile_rows db' = profile_rows db @ [?new]" for db'
  proof (cases "newest_profile db'")
    case None
    then show ?thesis using db' by (simp add: newest_profile_None)
  next
    case (Some q)
    then have "q \<in> set (profile_rows db) \<or> q = ?new" "max_version db + 1 \<le> p_version q"
      using newest_profile_Some [OF Some] db' by auto
    then show ?thesis using Some max_version_ge [of q db] by auto
  qed
  then show ?thesis
    using assms max_version_ge [of _ db]
    by (fastforce simp: publish_profile_def stmt_def Let_def get_profile_def desired_state_def
        split: if_splits)
qed

theorem publish_becomes_current_witness:
  "get_profile (sample_env 60) (fst (publish_profile (sample_env 50) [''13.32.0.0/20''] sample_db)) =
     Inr \<lparr>pr_version = 1, pr_cidrs = [''13.32.0.0/20'']\<rparr>"
proof -
  let ?run = "publish_profile (sample_env 50) [''13.32.0.0/20''] sample_db"
  have "?run = (fst ?run, snd ?run)" "snd ?run = Inr 1" "\<not> fails (sample_env 60) ''read profile''"
    by (simp, code_simp+)
  then show ?thesis using publish_becomes_current by blast
qed

section \<open>Observations\<close>

text \<open>The active keys that reported an address for a game.\<close>

definition reporters :: "db \<Rightarrow> string \<Rightarrow> string \<Rightarrow> string set" where
  "reporters db game ip = {o_key_hash o' | o'. o' \<in> set (observed_rows db) \<and> o_game o' = game \<and>
     o_dst_ip o' = ip \<and> key_active db (o_key_hash o')}"

lemma in_reporters:
  "h \<in> reporters db game ip \<longleftrightarrow> (\<exists>x \<in> set (observed_rows db). o_key_hash x = h \<and> o_game x = game \<and>
     o_dst_ip x = ip \<and> key_active db h)"
  by (auto simp: reporters_def)

lemma reporters_counted:
  "reporters db game ip = set (map o_key_hash (filter (\<lambda>o'. o_dst_ip o' = ip) (counted_reports game db)))"
  by (auto simp: reporters_def counted_reports_def)

text \<open>The candidates are exactly the addresses reported by at least the required number of
  different contributors whose keys are active, sorted and without repetition; and recording an
  observation adds its contributor to that address's reporters and to nothing else, so reporting
  again changes no count.\<close>

theorem candidates_count_contributors:
  "(candidate_addresses env game k db = Inr ips \<longrightarrow> sorted ips \<and> distinct ips \<and>
     (\<forall>ip. ip \<in> set ips \<longleftrightarrow> reporters db game ip \<noteq> {} \<and> k \<le> int (card (reporters db game ip)))) \<and>
   (record_observation H env' key game' ip' port db = (db', Inr ()) \<longrightarrow>
     (\<forall>g ip. reporters db' g ip =
        (if g = game' \<and> ip = ip' then insert (H key) (reporters db g ip) else reporters db g ip)))"
proof (intro conjI impI)
  assume "candidate_addresses env game k db = Inr ips"
  then have ips: "ips = sort (filter (\<lambda>ip. k \<le> int (length (remdups (map o_key_hash
      (filter (\<lambda>o'. o_dst_ip o' = ip) (counted_reports game db)))))) (remdups (map o_dst_ip (counted_reports game db))))"
    by (simp add: candidate_addresses_def Let_def split: if_splits)
  have card: "length (remdups (map o_key_hash (filter (\<lambda>o'. o_dst_ip o' = ip) (counted_reports game db)))) =
      card (reporters db game ip)" for ip
    by (simp only: reporters_counted length_remdups_card_conv)
  have ne: "ip \<in> o_dst_ip ` set (counted_reports game db) \<longleftrightarrow> reporters db game ip \<noteq> {}" for ip
    unfolding reporters_counted by auto
  show "sorted ips" "distinct ips" unfolding ips by simp_all
  show "\<forall>ip. ip \<in> set ips \<longleftrightarrow> reporters db game ip \<noteq> {} \<and> k \<le> int (card (reporters db game ip))"
    unfolding ips card using ne by simp
next
  assume run: "record_observation H env' key game' ip' port db = (db', Inr ())"
  let ?same = "\<lambda>o'. o_game o' = game' \<and> o_dst_ip o' = ip' \<and> o_dst_port o' = port \<and> o_key_hash o' = H key"
  define touch :: "observed_row \<Rightarrow> observed_row" where "touch = (\<lambda>o'. if ?same o' then o'\<lparr>o_last_seen := now env'\<rparr> else o')"
  have act: "key_active db (H key)" and keys: "key_active db' = key_active db"
    using run by (auto simp: record_observation_def stmt_def Let_def key_active_def fun_eq_iff split: if_splits)
  consider (old) "\<exists>o' \<in> set (observed_rows db). ?same o'" "observed_rows db' = map touch (observed_rows db)"
    | (new) new where "observed_rows db' = observed_rows db @ [new]" "?same new"
    using run by (auto simp: record_observation_def stmt_def Let_def touch_def split: if_splits)
  then show "\<forall>g ip. reporters db' g ip =
        (if g = game' \<and> ip = ip' then insert (H key) (reporters db g ip) else reporters db g ip)"
  proof cases
    case old
    have "o_game (touch o') = o_game o' \<and> o_dst_ip (touch o') = o_dst_ip o' \<and> o_key_hash (touch o') = o_key_hash o'" for o'
      by (simp add: touch_def)
    note t = this
    have "reporters db' g ip = reporters db g ip" for g ip
    proof (intro equalityI subsetI)
      fix h assume "h \<in> reporters db' g ip"
      then show "h \<in> reporters db g ip" unfolding reporters_def keys old(2) using t by auto
    next
      fix h assume "h \<in> reporters db g ip"
      then obtain x where "x \<in> set (observed_rows db)" "o_game x = g" "o_dst_ip x = ip" "h = o_key_hash x"
        "key_active db (o_key_hash x)" by (auto simp: reporters_def)
      then show "h \<in> reporters db' g ip"
        unfolding reporters_def keys old(2) using t [of x] by (intro CollectI exI [of _ "touch x"]) simp
    qed
    moreover have "H key \<in> reporters db game' ip'"
      unfolding in_reporters using old(1) act by metis
    ultimately show ?thesis by (simp add: insert_absorb)
  next
    case new
    then have "h \<in> reporters db' g ip \<longleftrightarrow> h \<in> reporters db g ip \<or> h = H key \<and> g = game' \<and> ip = ip'" for g ip h
      unfolding in_reporters keys using act by auto
    then show ?thesis by (auto simp: set_eq_iff)
  qed
qed

theorem candidates_count_contributors_witness:
  "reporters (fst (record_observation sample_H (sample_env 51) sample_key ''cs'' ''13.32.1.5'' 27015 sample_db))
     ''cs'' ''13.32.1.5'' = {sample_H sample_key}"
proof -
  let ?run = "record_observation sample_H (sample_env 51) sample_key ''cs'' ''13.32.1.5'' 27015 sample_db"
  have "snd ?run = Inr ()" by code_simp
  then have "?run = (fst ?run, Inr ())" by (metis prod.collapse)
  then show ?thesis using candidates_count_contributors by (simp add: reporters_def sample_db_def)
qed

end
