(* ===== verification/Wgsync.thy ===== *)
theory Wgsync
  imports Api
begin

text \<open>
  \<open>internal/wgsync\<close>: the difference between the peers a relay holds and those it should hold,
  the devices it is applied to, and the contract between the two as a locale. \<open>FakeDevice\<close> is
  the source's in-memory device; the kernel device goes through \<open>wgctrl\<close>, whose calls are
  parameters.
\<close>

section \<open>Diff\<close>

record change =
  ch_add :: "api_peer list"
  ch_update :: "api_peer list"
  ch_remove :: "string list"

definition change_empty :: "change \<Rightarrow> bool" where
  "change_empty c \<longleftrightarrow> length (ch_add c) = 0 \<and> length (ch_update c) = 0 \<and> length (ch_remove c) = 0"

text \<open>The maps \<open>cur\<close> and \<open>des\<close> keep the last peer of a key; the loops keep the order of the
  lists.\<close>

definition diff :: "api_peer list \<Rightarrow> api_peer list \<Rightarrow> change" where
  "diff current desired =
     (let cur = last_by PublicKey current; des = last_by PublicKey desired in
      \<lparr>ch_add = filter (\<lambda>want. cur (PublicKey want) = None) desired,
       ch_update = filter (\<lambda>want. case cur (PublicKey want) of None \<Rightarrow> False
                                 | Some have' \<Rightarrow> InnerIP have' \<noteq> InnerIP want) desired,
       ch_remove = map PublicKey (filter (\<lambda>have'. des (PublicKey have') = None) current)\<rparr>)"

section \<open>The in-memory device\<close>

record fake_device =
  fd_peers :: "(string \<times> string) list"
  fd_err :: "string option"

definition new_fake_device :: fake_device where
  "new_fake_device = \<lparr>fd_peers = [], fd_err = None\<rparr>"

definition put :: "string \<Rightarrow> string \<Rightarrow> (string \<times> string) list \<Rightarrow> (string \<times> string) list" where
  "put k v m = (k, v) # filter (\<lambda>e. fst e \<noteq> k) m"

definition fake_peers :: "fake_device \<Rightarrow> string + api_peer list" where
  "fake_peers d = (case fd_err d of Some e \<Rightarrow> Inl e
     | None \<Rightarrow> Inr (map (\<lambda>(k, ip). \<lparr>PublicKey = k, InnerIP = ip\<rparr>) (fd_peers d)))"

record wg_stats =
  st_active :: int
  st_total :: int
  st_rx :: int
  st_tx :: int

definition fake_stats :: "fake_device \<Rightarrow> string + wg_stats" where
  "fake_stats d = (case fd_err d of Some e \<Rightarrow> Inl e
     | None \<Rightarrow> Inr \<lparr>st_active = int (length (fd_peers d)), st_total = int (length (fd_peers d)), st_rx = 0, st_tx = 0\<rparr>)"

definition fake_apply :: "change \<Rightarrow> fake_device \<Rightarrow> fake_device \<times> string option" where
  "fake_apply c d = (case fd_err d of Some e \<Rightarrow> (d, Some e)
     | None \<Rightarrow>
         let m1 = foldl (\<lambda>m p. put (PublicKey p) (InnerIP p) m) (fd_peers d) (ch_add c);
             m2 = foldl (\<lambda>m p. put (PublicKey p) (InnerIP p) m) m1 (ch_update c);
             m3 = foldl (\<lambda>m k. filter (\<lambda>e. fst e \<noteq> k) m) m2 (ch_remove c)
         in (d\<lparr>fd_peers := m3\<rparr>, None))"

section \<open>The kernel device\<close>

text \<open>What \<open>wgctrl\<close> reports of a peer and what it is asked for; keys are those of the library.\<close>

record 'k kernel_peer =
  kp_key :: 'k
  kp_allowed :: "prefix list"
  kp_rx :: int
  kp_tx :: int
  kp_handshake :: nanos

record 'k peer_config =
  pc_key :: 'k
  pc_remove :: bool
  pc_replace_allowed :: bool
  pc_allowed :: "prefix list"

text \<open>\<open>net.IPNet.String\<close>, which writes an address mapped from IPv4 in dotted form.\<close>

fun ipnet_string :: "prefix \<Rightarrow> string" where
  "ipnet_string (Prefix (V6 w z) b) =
     (if drop_bit 32 w = 0xFFFF then v4_string (ucast w) @ ''/'' @ dec (b - 96) else v6_string w @ ''/'' @ dec b)"
| "ipnet_string p = pfx_string p"

definition activeWindow :: nanos where "activeWindow = 180 * second"

definition wgctl_peers :: "('k \<Rightarrow> string) \<Rightarrow> 'k kernel_peer list \<Rightarrow> api_peer list" where
  "wgctl_peers key_string ps =
     map (\<lambda>p. \<lparr>PublicKey = key_string (kp_key p), InnerIP = join '','' (map ipnet_string (kp_allowed p))\<rparr>) ps"

definition wgctl_stats :: "nanos \<Rightarrow> 'k kernel_peer list \<Rightarrow> wg_stats" where
  "wgctl_stats now ps =
     \<lparr>st_active = int (length (filter (\<lambda>p. kp_handshake p > now - activeWindow) ps)),
      st_total = int (length ps), st_rx = sum_list (map kp_rx ps), st_tx = sum_list (map kp_tx ps)\<rparr>"

datatype apply_error = DeviceUnreadable | BadKey string | BadCIDR string | ConfigureFailed

fun upsert_configs :: "(string \<Rightarrow> 'k option) \<Rightarrow> api_peer list \<Rightarrow> apply_error + 'k peer_config list" where
  "upsert_configs parse_key [] = Inr []"
| "upsert_configs parse_key (p # ps) =
     (case parse_key (PublicKey p) of
        None \<Rightarrow> Inl (BadKey (PublicKey p))
      | Some k \<Rightarrow>
          (case parse_cidr (InnerIP p) of
             None \<Rightarrow> Inl (BadCIDR (PublicKey p))
           | Some n \<Rightarrow>
               map_sum id (\<lambda>cs. \<lparr>pc_key = k, pc_remove = False, pc_replace_allowed = True, pc_allowed = [n]\<rparr> # cs)
                 (upsert_configs parse_key ps)))"

definition remove_configs :: "(string \<Rightarrow> 'k option) \<Rightarrow> string list \<Rightarrow> 'k peer_config list" where
  "remove_configs parse_key ks =
     List.map_filter (\<lambda>s. map_option (\<lambda>k. \<lparr>pc_key = k, pc_remove = True, pc_replace_allowed = False, pc_allowed = []\<rparr>)
       (parse_key s)) ks"

text \<open>\<open>Apply\<close>: \<open>configure\<close> is \<open>ConfigureDevice\<close>, a change of the kernel's state \<open>'s\<close> that may
  be refused.\<close>

definition wgctl_apply ::
    "(string \<Rightarrow> 'k option) \<Rightarrow> ('k peer_config list \<Rightarrow> 's \<Rightarrow> 's \<times> bool) \<Rightarrow> change \<Rightarrow> 's \<Rightarrow> 's \<times> apply_error option" where
  "wgctl_apply parse_key configure c s =
     (if change_empty c then (s, None)
      else case upsert_configs parse_key (ch_add c @ ch_update c) of
        Inl e \<Rightarrow> (s, Some e)
      | Inr cfgs \<Rightarrow>
          let (s', ok) = configure (cfgs @ remove_configs parse_key (ch_remove c)) s in
          (s', if ok then None else Some ConfigureFailed))"

section \<open>The effect of a change\<close>

definition peer_map :: "api_peer list \<Rightarrow> (string \<rightharpoonup> string)" where
  "peer_map ps q = map_option InnerIP (last_by PublicKey ps q)"

definition change_map :: "change \<Rightarrow> (string \<rightharpoonup> string) \<Rightarrow> (string \<rightharpoonup> string)" where
  "change_map c m = (\<lambda>q. if q \<in> set (ch_remove c) then None
     else (m ++ peer_map (ch_add c) ++ peer_map (ch_update c)) q)"

lemma peer_map_inj:
  assumes "inj_on PublicKey (set ps)" "p \<in> set ps"
  shows "peer_map ps (PublicKey p) = Some (InnerIP p)"
proof -
  obtain q where q: "last_by PublicKey ps (PublicKey p) = Some q"
    using assms(2) by (cases "last_by PublicKey ps (PublicKey p)") auto
  then have "q = p" using last_by_SomeD [OF q] inj_onD [OF assms(1)] assms(2) by blast
  then show ?thesis using q by (simp add: peer_map_def)
qed

lemma peer_map_None: "peer_map ps q = None \<longleftrightarrow> q \<notin> PublicKey ` set ps"
  by (simp add: peer_map_def)

lemma peer_map_SomeD: "peer_map ps q = Some ip \<Longrightarrow> q \<in> PublicKey ` set ps"
  by (metis option.distinct(1) peer_map_None)

lemma peer_map_Nil [simp]: "peer_map [] = Map.empty"
  by (rule ext) (simp add: peer_map_None)

lemma last_by_peer: "last_by PublicKey ps q = Some p \<Longrightarrow> peer_map ps q = Some (InnerIP p)"
  by (simp add: peer_map_def)

lemma diff_lists:
  "set (ch_add (diff current desired)) = {w \<in> set desired. peer_map current (PublicKey w) = None}"
  "set (ch_update (diff current desired)) =
     {w \<in> set desired. \<exists>ip. peer_map current (PublicKey w) = Some ip \<and> ip \<noteq> InnerIP w}"
  "set (ch_remove (diff current desired)) = {k \<in> PublicKey ` set current. k \<notin> PublicKey ` set desired}"
proof -
  have some: "(case x of None \<Rightarrow> False | Some y \<Rightarrow> P y) \<longleftrightarrow> (\<exists>y. x = Some y \<and> P y)" for x and P :: "api_peer \<Rightarrow> bool"
    by (cases x) auto
  show "set (ch_add (diff current desired)) = {w \<in> set desired. peer_map current (PublicKey w) = None}"
    by (simp add: diff_def Let_def peer_map_None)
  show "set (ch_update (diff current desired)) =
     {w \<in> set desired. \<exists>ip. peer_map current (PublicKey w) = Some ip \<and> ip \<noteq> InnerIP w}"
    unfolding diff_def Let_def some peer_map_def by auto
  show "set (ch_remove (diff current desired)) = {k \<in> PublicKey ` set current. k \<notin> PublicKey ` set desired}"
    by (auto simp: diff_def Let_def)
qed

lemma diff_reaches:
  assumes "inj_on PublicKey (set desired)"
  shows "change_map (diff current desired) (peer_map current) = peer_map desired"
proof
  fix q
  let ?c = "diff current desired"
  have d: "inj_on PublicKey (set (ch_add ?c))" "inj_on PublicKey (set (ch_update ?c))"
    using assms by (auto simp: diff_lists intro: inj_on_subset)
  show "change_map ?c (peer_map current) q = peer_map desired q"
  proof (cases "q \<in> PublicKey ` set desired")
    case False
    then have n: "peer_map (ch_add ?c) q = None" "peer_map (ch_update ?c) q = None" "peer_map desired q = None"
      by (auto simp: diff_lists peer_map_None)
    show ?thesis
    proof (cases "q \<in> set (ch_remove ?c)")
      case True
      then show ?thesis using n by (simp add: change_map_def)
    next
      case keep: False
      then have "peer_map current q = None" using False by (simp add: diff_lists peer_map_None)
      then show ?thesis using n keep by (simp add: change_map_def map_add_def)
    qed
  next
    case True
    then obtain w where w: "w \<in> set desired" "PublicKey w = q" by auto
    have want: "peer_map desired q = Some (InnerIP w)" using peer_map_inj [OF assms w(1)] w(2) by simp
    have keep: "q \<notin> set (ch_remove ?c)" using True by (simp add: diff_lists)
    have only: "v = w" if "v \<in> set desired" "PublicKey v = q" for v
      using assms w that by (auto simp: inj_on_def)
    consider (add) "peer_map current q = None" | (upd) ip where "peer_map current q = Some ip" "ip \<noteq> InnerIP w"
      | (same) "peer_map current q = Some (InnerIP w)" by (cases "peer_map current q") auto
    then show ?thesis
    proof cases
      case add
      have "q \<notin> PublicKey ` set (ch_update ?c)"
        unfolding diff_lists using add by auto
      then have upd: "peer_map (ch_update ?c) q = None" by (simp add: peer_map_None)
      have "peer_map (ch_add ?c) q = Some (InnerIP w)"
        using peer_map_inj [OF d(1), of w] w add by (simp add: diff_lists)
      then show ?thesis using upd keep want by (simp add: change_map_def map_add_def)
    next
      case upd
      have "peer_map (ch_update ?c) q = Some (InnerIP w)"
        using peer_map_inj [OF d(2), of w] w upd by (simp add: diff_lists)
      then show ?thesis using keep want by (simp add: change_map_def map_add_def)
    next
      case same
      have "q \<notin> PublicKey ` set (ch_update ?c)" "q \<notin> PublicKey ` set (ch_add ?c)"
        unfolding diff_lists using same only by auto
      then have "peer_map (ch_update ?c) q = None" "peer_map (ch_add ?c) q = None"
        by (simp_all add: peer_map_None)
      then show ?thesis using keep want same by (simp add: change_map_def map_add_def)
    qed
  qed
qed

section \<open>The device interface\<close>

text \<open>What the agent's loop relies on: reading the peers gives what the device holds, and an accepted
  difference towards peers the device can represent takes effect as a whole. \<open>suits\<close> are the lists of
  peers it can represent.\<close>

locale wg_device =
  fixes peers :: "'d \<Rightarrow> 'e + api_peer list"
    and apply_change :: "change \<Rightarrow> 'd \<Rightarrow> 'd \<times> 'e option"
    and held :: "'d \<Rightarrow> (string \<rightharpoonup> string)"
    and sound :: "'d \<Rightarrow> bool"
    and suits :: "api_peer list \<Rightarrow> bool"
  assumes peers_held: "sound d \<Longrightarrow> peers d = Inr ps \<Longrightarrow> peer_map ps = held d"
    and apply_done: "sound d \<Longrightarrow> peers d = Inr current \<Longrightarrow> suits desired \<Longrightarrow> inj_on PublicKey (set desired) \<Longrightarrow>
      apply_change (diff current desired) d = (d', None) \<Longrightarrow> held d' = change_map (diff current desired) (held d)"
    and apply_sound: "sound d \<Longrightarrow> apply_change c d = (d', r) \<Longrightarrow> sound d'"
begin

lemma diff_applied:
  assumes "sound d" "peers d = Inr current" "inj_on PublicKey (set desired)" "suits desired"
    "apply_change (diff current desired) d = (d', None)"
  shows "held d' = peer_map desired"
  using apply_done [OF assms(1,2,4,3,5)] peers_held [OF assms(1,2)] diff_reaches [OF assms(3), of current] by simp

end

text \<open>A device that, besides, refuses a change as a whole.\<close>

locale wg_device_atomic = wg_device +
  assumes apply_refused: "sound d \<Longrightarrow> apply_change c d = (d', Some e) \<Longrightarrow> held d' = held d"

lemma peer_map_snoc: "peer_map (ps @ [p]) = (peer_map ps)(PublicKey p \<mapsto> InnerIP p)"
  by (rule ext) (simp add: peer_map_def last_by_def)

lemma map_of_filter_not: "map_of (filter (\<lambda>e. fst e \<noteq> k) m) q = (if q = k then None else map_of m q)"
  by (induction m) auto

lemma map_of_put: "map_of (put k v m) = (map_of m)(k \<mapsto> v)"
  by (rule ext) (simp add: put_def map_of_filter_not)

lemma map_of_puts:
  "map_of (foldl (\<lambda>m p. put (PublicKey p) (InnerIP p) m) m ps) = map_of m ++ peer_map ps"
  by (induction ps rule: rev_induct) (auto simp: peer_map_snoc map_of_put fun_eq_iff map_add_def)

lemma map_of_deletes:
  "map_of (foldl (\<lambda>m k. filter (\<lambda>e. fst e \<noteq> k) m) m ks) = (\<lambda>q. if q \<in> set ks then None else map_of m q)"
  by (induction ks rule: rev_induct) (auto simp: map_of_filter_not)

definition fake_ok :: "fake_device \<Rightarrow> bool" where
  "fake_ok d \<longleftrightarrow> distinct (map fst (fd_peers d))"

lemma distinct_put: "distinct (map fst m) \<Longrightarrow> distinct (map fst (put k v m))"
  by (auto simp: put_def distinct_map_filter)

lemma distinct_puts:
  "distinct (map fst m) \<Longrightarrow> distinct (map fst (foldl (\<lambda>m p. put (PublicKey p) (InnerIP p) m) m ps))"
  by (induction ps rule: rev_induct) (simp_all add: distinct_put)

lemma distinct_deletes:
  "distinct (map fst m) \<Longrightarrow> distinct (map fst (foldl (\<lambda>m k. filter (\<lambda>e. fst e \<noteq> k) m) m ks))"
  by (induction ks rule: rev_induct) (simp_all add: distinct_map_filter)

lemma fake_peers_held:
  assumes "fake_ok d" "fake_peers d = Inr ps"
  shows "peer_map ps = map_of (fd_peers d)"
proof -
  have ps: "ps = map (\<lambda>(k, ip). \<lparr>PublicKey = k, InnerIP = ip\<rparr>) (fd_peers d)"
    using assms(2) by (simp add: fake_peers_def split: option.splits)
  have keys: "map PublicKey ps = map fst (fd_peers d)" by (simp add: ps split_def)
  show ?thesis
  proof
    fix q show "peer_map ps q = map_of (fd_peers d) q"
    proof (cases "map_of (fd_peers d) q")
      case None
      then have "q \<notin> set (map fst (fd_peers d))" by (simp add: map_of_eq_None_iff)
      then have "q \<notin> PublicKey ` set ps" using keys by (metis set_map)
      then show ?thesis using None by (simp add: peer_map_None)
    next
      case (Some ip)
      then have "\<lparr>PublicKey = q, InnerIP = ip\<rparr> \<in> set ps" unfolding ps by (force dest: map_of_SomeD)
      then have "peer_map ps (PublicKey \<lparr>PublicKey = q, InnerIP = ip\<rparr>) = Some (InnerIP \<lparr>PublicKey = q, InnerIP = ip\<rparr>)"
        using assms(1) keys unfolding fake_ok_def by (intro peer_map_inj) (metis distinct_map, assumption)
      then show ?thesis using Some by simp
    qed
  qed
qed

interpretation fake: wg_device_atomic fake_peers fake_apply "\<lambda>d. map_of (fd_peers d)" fake_ok "\<lambda>_. True"
proof
  fix d d' c ps e r current desired
  show "fake_ok d \<Longrightarrow> fake_peers d = Inr ps \<Longrightarrow> peer_map ps = map_of (fd_peers d)"
    by (rule fake_peers_held)
  show "fake_ok d \<Longrightarrow> fake_peers d = Inr current \<Longrightarrow> True \<Longrightarrow> inj_on PublicKey (set desired) \<Longrightarrow>
      fake_apply (diff current desired) d = (d', None) \<Longrightarrow>
      map_of (fd_peers d') = change_map (diff current desired) (map_of (fd_peers d))"
    by (auto simp: fake_apply_def change_map_def map_of_deletes map_of_puts Let_def fun_eq_iff split: option.splits)
  show "fake_ok d \<Longrightarrow> fake_apply c d = (d', Some e) \<Longrightarrow> map_of (fd_peers d') = map_of (fd_peers d)"
    by (auto simp: fake_apply_def Let_def split: option.splits)
  show "fake_ok d \<Longrightarrow> fake_apply c d = (d', r) \<Longrightarrow> fake_ok d'"
    by (auto simp: fake_apply_def Let_def fake_ok_def distinct_deletes distinct_puts split: option.splits)
qed

section \<open>Correctness of the difference\<close>

text \<open>C9. Applying the difference turns what the device holds into exactly what is wanted; a peer
  that already has its address is in none of the three lists, and no key is both changed and
  removed, so a session in use is never torn down.\<close>

theorem diff_reaches_desired:
  assumes "inj_on PublicKey (set desired)"
  shows "change_map (diff current desired) (peer_map current) = peer_map desired \<and>
    (\<forall>p \<in> set desired. peer_map current (PublicKey p) = Some (InnerIP p) \<longrightarrow>
       PublicKey p \<notin> PublicKey ` set (ch_add (diff current desired)) \<union>
         PublicKey ` set (ch_update (diff current desired)) \<union> set (ch_remove (diff current desired))) \<and>
    set (ch_remove (diff current desired)) \<inter>
      PublicKey ` (set (ch_add (diff current desired)) \<union> set (ch_update (diff current desired))) = {} \<and>
    (change_empty (diff current desired) \<longleftrightarrow> peer_map current = peer_map desired)"
proof -
  let ?c = "diff current desired"
  have one: "v = p" if "v \<in> set desired" "p \<in> set desired" "PublicKey v = PublicKey p" for v p
    using assms that by (auto simp: inj_on_def)
  have a: "\<forall>p \<in> set desired. peer_map current (PublicKey p) = Some (InnerIP p) \<longrightarrow>
       PublicKey p \<notin> PublicKey ` set (ch_add ?c) \<union> PublicKey ` set (ch_update ?c) \<union> set (ch_remove ?c)"
  proof (intro ballI impI notI)
    fix p assume p: "p \<in> set desired" "peer_map current (PublicKey p) = Some (InnerIP p)"
    assume "PublicKey p \<in> PublicKey ` set (ch_add ?c) \<union> PublicKey ` set (ch_update ?c) \<union> set (ch_remove ?c)"
    then show False
    proof (elim UnE imageE)
      fix v assume "PublicKey p = PublicKey v" "v \<in> set (ch_add ?c)"
      then show False using p(2) by (simp add: diff_lists)
    next
      fix v assume v: "PublicKey p = PublicKey v" "v \<in> set (ch_update ?c)"
      then have "v = p" using one p(1) by (simp add: diff_lists)
      then show False using v(2) p(2) by (simp add: diff_lists)
    qed (use p(1) in \<open>simp add: diff_lists\<close>)
  qed
  have b: "set (ch_remove ?c) \<inter> PublicKey ` (set (ch_add ?c) \<union> set (ch_update ?c)) = {}"
    by (auto simp: diff_lists)
  have "peer_map current = peer_map desired" if "change_empty ?c"
    using that diff_reaches [OF assms, of current] by (simp add: change_empty_def change_map_def)
  moreover have "change_empty ?c" if e: "peer_map current = peer_map desired"
  proof -
    have "set (ch_add ?c) = {}" "set (ch_update ?c) = {}"
      using e peer_map_inj [OF assms] by (auto simp: diff_lists)
    moreover have "PublicKey ` set current = PublicKey ` set desired"
      using e by (metis (no_types) dom_last_by map_option_is_None peer_map_None set_eqI)
    ultimately show ?thesis by (simp add: change_empty_def diff_lists flip: set_empty)
  qed
  ultimately show ?thesis using diff_reaches [OF assms] a b by blast
qed

theorem diff_reaches_desired_witness:
  "let c = diff [\<lparr>PublicKey = ''A'', InnerIP = ''10.77.0.2/32''\<rparr>, \<lparr>PublicKey = ''B'', InnerIP = ''10.77.0.3/32''\<rparr>]
       [\<lparr>PublicKey = ''B'', InnerIP = ''10.77.0.9/32''\<rparr>, \<lparr>PublicKey = ''C'', InnerIP = ''10.77.0.4/32''\<rparr>]
   in ch_remove c = [''A''] \<and> map PublicKey (ch_add c) = [''C''] \<and> map PublicKey (ch_update c) = [''B''] \<and>
     set (ch_remove c) \<inter> PublicKey ` (set (ch_add c) \<union> set (ch_update c)) = {}"
proof -
  let ?cur = "[\<lparr>PublicKey = ''A'', InnerIP = ''10.77.0.2/32''\<rparr>, \<lparr>PublicKey = ''B'', InnerIP = ''10.77.0.3/32''\<rparr>]"
  let ?des = "[\<lparr>PublicKey = ''B'', InnerIP = ''10.77.0.9/32''\<rparr>, \<lparr>PublicKey = ''C'', InnerIP = ''10.77.0.4/32''\<rparr>]"
  have d: "inj_on PublicKey (set ?des)" by simp
  have "ch_remove (diff ?cur ?des) = [''A'']" "map PublicKey (ch_add (diff ?cur ?des)) = [''C'']"
    "map PublicKey (ch_update (diff ?cur ?des)) = [''B'']" by code_simp+
  with diff_reaches_desired [OF d, of ?cur] show ?thesis unfolding Let_def by blast
qed

end
