(* ===== verification/Ipsetsync.thy ===== *)
theory Ipsetsync
  imports Api
begin

text \<open>
  \<open>internal/ipsetsync\<close>: the relay's egress allowlist. \<open>sha256\<close> stands for the hexadecimal
  SHA-256 digest and \<open>exec\<close> for running the \<open>ipset\<close> command, which changes a state of the
  kernel; what the properties need of the command is \<open>ipset_documented\<close>. The properties show
  that the live set is never half-built and that a list that was applied is not applied again.
\<close>

section \<open>Normalised lists\<close>

definition usable :: "string \<Rightarrow> bool" where
  "usable c \<longleftrightarrow> (if has_prefix c ''-'' then False else parse_cidr c \<noteq> None)"

text \<open>The loop of \<open>Normalise\<close>, with the set \<open>seen\<close> and the output so far.\<close>

fun normalise_loop :: "string set \<Rightarrow> string list \<Rightarrow> string list \<Rightarrow> string list" where
  "normalise_loop seen out [] = out"
| "normalise_loop seen out (x # cidrs) =
     (let c = trim_space x in
      if c = [] \<or> c \<in> seen \<or> \<not> usable c then normalise_loop seen out cidrs
      else normalise_loop (insert c seen) (out @ [c]) cidrs)"

definition normalise :: "string list \<Rightarrow> string list" where
  "normalise cidrs = sort (normalise_loop {} [] cidrs)"

text \<open>What is written to the hash: every entry with a line feed.\<close>

definition fingerprint_text :: "string list \<Rightarrow> string" where
  "fingerprint_text cs = concat (map (\<lambda>c. c @ [CHR 0x0A]) cs)"

definition fingerprint :: "(string \<Rightarrow> string) \<Rightarrow> string list \<Rightarrow> string" where
  "fingerprint sha256 cidrs = sha256 (fingerprint_text (normalise cidrs))"

section \<open>The syncer\<close>

record syncer =
  sy_set_name :: string
  sy_applied :: string

definition new_syncer :: "string \<Rightarrow> syncer" where
  "new_syncer name = \<lparr>sy_set_name = name, sy_applied = []\<rparr>"

definition sync_set ::
    "(string \<Rightarrow> string) \<Rightarrow> (string \<Rightarrow> string list \<Rightarrow> 's \<Rightarrow> 's \<times> 'e option) \<Rightarrow> string list
     \<Rightarrow> syncer \<times> 's \<Rightarrow> (syncer \<times> 's) \<times> 'e option" where
  "sync_set sha256 apply_set cidrs st =
     (let (sy, k) = st; fp = fingerprint sha256 cidrs in
      if fp = sy_applied sy then ((sy, k), None)
      else case apply_set (sy_set_name sy) (normalise cidrs) k of
        (k', Some e) \<Rightarrow> ((sy, k'), Some e)
      | (k', None) \<Rightarrow> ((sy\<lparr>sy_applied := fp\<rparr>, k'), None))"

section \<open>Rebuilding the set\<close>

text \<open>A command's outcome: nothing on success, else its output and the error of \<open>exec\<close>.\<close>

type_synonym outcome = "(string \<times> string) option"

datatype ipset_error = PlainError string | CommandError string string string

definition cmd_err :: "string \<Rightarrow> string \<times> string \<Rightarrow> ipset_error" where
  "cmd_err what oe = (let msg = trim_space (fst oe) in
     if msg = [] then PlainError (snd oe) else CommandError what msg (snd oe))"

fun add_entries ::
    "(string list \<Rightarrow> 's \<Rightarrow> 's \<times> outcome) \<Rightarrow> string \<Rightarrow> string list \<Rightarrow> 's \<Rightarrow> 's \<times> ipset_error option" where
  "add_entries exec tmp [] k = (k, None)"
| "add_entries exec tmp (c # cs) k =
     (case exec [''ipset'', ''add'', tmp, c] k of
        (k1, Some oe) \<Rightarrow> (fst (exec [''ipset'', ''destroy'', tmp] k1), Some (cmd_err (''ipset add '' @ c) oe))
      | (k1, None) \<Rightarrow> add_entries exec tmp cs k1)"

definition apply_with_ipset ::
    "(string list \<Rightarrow> 's \<Rightarrow> 's \<times> outcome) \<Rightarrow> string \<Rightarrow> string list \<Rightarrow> 's \<Rightarrow> 's \<times> ipset_error option" where
  "apply_with_ipset exec set_name entries k =
     (let tmp = set_name @ ''-new'';
          k0 = fst (exec [''ipset'', ''destroy'', tmp] k)
      in case exec [''ipset'', ''create'', tmp, ''hash:net'', ''family'', ''inet''] k0 of
           (k1, Some oe) \<Rightarrow> (k1, Some (cmd_err ''ipset create'' oe))
         | (k1, None) \<Rightarrow>
             (case add_entries exec tmp entries k1 of
                (k2, Some e) \<Rightarrow> (k2, Some e)
              | (k2, None) \<Rightarrow>
                  (case exec [''ipset'', ''create'', set_name, ''hash:net'', ''family'', ''inet'', ''-exist''] k2 of
                     (k3, Some oe) \<Rightarrow> (fst (exec [''ipset'', ''destroy'', tmp] k3),
                                       Some (cmd_err (''ipset create '' @ set_name) oe))
                   | (k3, None) \<Rightarrow>
                       (case exec [''ipset'', ''swap'', tmp, set_name] k3 of
                          (k4, Some oe) \<Rightarrow> (fst (exec [''ipset'', ''destroy'', tmp] k4), Some (cmd_err ''ipset swap'' oe))
                        | (k4, None) \<Rightarrow>
                            (case exec [''ipset'', ''destroy'', tmp] k4 of
                               (k5, Some oe) \<Rightarrow> (k5, Some (cmd_err (''ipset destroy '' @ tmp) oe))
                             | (k5, None) \<Rightarrow> (k5, None))))))"

section \<open>Facts about normalised lists\<close>

lemma normalise_loop_set:
  "set out = seen \<Longrightarrow> distinct out \<Longrightarrow>
   distinct (normalise_loop seen out cidrs) \<and>
   set (normalise_loop seen out cidrs) =
     set out \<union> {c \<in> trim_space ` set cidrs. c \<noteq> [] \<and> usable c}"
proof (induction seen out cidrs rule: normalise_loop.induct)
  case (2 seen out x cidrs)
  show ?case
  proof (cases "trim_space x = [] \<or> trim_space x \<in> seen \<or> \<not> usable (trim_space x)")
    case True
    then show ?thesis using 2 by (auto simp: Let_def)
  next
    case False
    then show ?thesis using 2 by (auto simp: Let_def)
  qed
qed simp

lemma set_normalise: "set (normalise cidrs) = {c \<in> trim_space ` set cidrs. c \<noteq> [] \<and> usable c}"
  using normalise_loop_set [of "[]" "{}" cidrs] by (simp add: normalise_def)

lemma distinct_normalise [simp]: "distinct (normalise cidrs)"
  using normalise_loop_set [of "[]" "{}" cidrs] by (simp add: normalise_def)

lemma sorted_normalise [simp]: "sorted (normalise cidrs)"
  by (simp add: normalise_def)

lemma normalise_eq_iff: "normalise xs = normalise ys \<longleftrightarrow> set (normalise xs) = set (normalise ys)"
  by (metis sorted_distinct_set_unique distinct_normalise sorted_normalise)

section \<open>The text that is hashed\<close>

text \<open>No entry that \<open>net.ParseCIDR\<close> accepts contains a line feed, so the hashed text determines
  the list.\<close>

definition plain_char :: "char \<Rightarrow> bool" where
  "plain_char c \<longleftrightarrow> is_digit c \<or> hex_val c \<noteq> None \<or> c = CHR ''.'' \<or> c = CHR '':''"

lemma plain_not_lf [simp]: "\<not> plain_char (CHR 0x0A)"
  by code_simp

lemma v4_fields_plain: "v4_fields prev v dl fs s = Some r \<Longrightarrow> \<forall>c \<in> set s. plain_char c"
  by (induction prev v dl fs s rule: v4_fields.induct) (auto simp: plain_char_def Let_def split: if_splits)

lemma hex_run_plain: "hex_run off acc s = Some (n, v, r) \<Longrightarrow> \<exists>u. s = u @ r \<and> (\<forall>c \<in> set u. plain_char c)"
proof (induction off acc s rule: hex_run.induct)
  case (2 off acc c s)
  show ?case
  proof (cases "hex_val c")
    case None
    then show ?thesis using 2(2) by auto
  next
    case (Some v)
    then obtain u where "s = u @ r" "\<forall>c \<in> set u. plain_char c"
      using 2 by (auto simp: Let_def split: if_splits)
    then show ?thesis using Some by (intro exI [of _ "c # u"]) (simp add: plain_char_def)
  qed
qed simp

lemma v6_loop_plain:
  "v6_loop ip ell s = Some (ip', ell', []) \<Longrightarrow> \<forall>c \<in> set s. plain_char c"
proof (induction ip ell s rule: v6_loop.induct)
  case (1 ip ell s)
  have colon: "plain_char (CHR '':'')" by (simp add: plain_char_def)
  show ?case
  proof (cases "length ip \<ge> 16")
    case True
    then show ?thesis using "1.prems" by (subst (asm) v6_loop.simps) simp
  next
    case short: False
    then obtain off acc r where h: "hex_run 0 0 s = Some (off, acc, r)" "off \<noteq> 0"
      using "1.prems" by (subst (asm) v6_loop.simps) (auto split: option.splits if_splits)
    obtain u where u: "s = u @ r" "\<forall>c \<in> set u. plain_char c" using hex_run_plain [OF h(1)] by blast
    show ?thesis
    proof (cases "r \<noteq> [] \<and> hd r = CHR ''.''")
      case True
      then show ?thesis using "1.prems" short h
        by (subst (asm) v6_loop.simps) (auto split: if_splits dest: v4_fields_plain)
    next
      case False
      then show ?thesis using "1.prems" short h u colon "1.IH" [OF short h(1) refl refl h(2) False refl]
        by (subst (asm) v6_loop.simps) (auto simp: Let_def split: list.splits if_splits)
    qed
  qed
qed

lemma v6_finish_rest: "v6_finish z q = Some a \<Longrightarrow> snd (snd q) = []"
  by (cases q) (simp add: v6_finish_def split: if_splits)

lemma v6_parsed_plain:
  assumes "Option.bind (v6_loop ip ell s) (v6_finish z) = Some a"
  shows "\<forall>c \<in> set s. plain_char c"
proof -
  obtain ip' ell' r where q: "v6_loop ip ell s = Some (ip', ell', r)" "v6_finish z (ip', ell', r) = Some a"
    using assms by (auto simp: bind_eq_Some_conv)
  then have "r = []" using v6_finish_rest [OF q(2)] by simp
  then show ?thesis using q(1) v6_loop_plain by blast
qed

lemma parse_v6_plain:
  assumes "parse_v6 s = Some a" "addr_zone a = []"
  shows "\<forall>c \<in> set s. plain_char c"
proof (cases "cut (CHR ''%'') s")
  case None
  show ?thesis
  proof (cases "has_prefix s ''::''")
    case True
    then have s: "s = ''::'' @ drop 2 s"
      by (metis append_take_drop_id has_prefix_def length_Cons list.size(3) numeral_2_eq_2)
    have "\<forall>c \<in> set (drop 2 s). plain_char c"
    proof (cases "drop 2 s = []")
      case False
      then have "Option.bind (v6_loop [] (Some 0) (drop 2 s)) (v6_finish []) = Some a"
        using assms(1) None True by (auto simp: parse_v6_def)
      then show ?thesis by (rule v6_parsed_plain)
    qed simp
    then show ?thesis by (subst s) (simp add: plain_char_def)
  next
    case False
    then have "Option.bind (v6_loop [] None s) (v6_finish []) = Some a"
      using assms(1) None by (auto simp: parse_v6_def)
    then show ?thesis by (rule v6_parsed_plain)
  qed
next
  case (Some p)
  obtain t z where p: "p = (t, z)" by (cases p)
  have fin: "addr_zone b = z" if "v6_finish z q = Some b" for q b
    using that by (cases q) (auto simp: v6_finish_def split: if_splits option.splits)
  have "z \<noteq> []" using assms(1) Some p by (auto simp: parse_v6_def)
  moreover have "addr_zone a = z" using assms(1) Some p fin
    by (auto simp: parse_v6_def bind_eq_Some_conv split: if_splits)
  ultimately show ?thesis using assms(2) by simp
qed

lemma parse_cidr_no_lf:
  assumes "parse_cidr s = Some p"
  shows "CHR 0x0A \<notin> set s"
proof -
  obtain a b ip n where s: "s = a @ CHR ''/'' # b" "parse_addr a = Some ip" "addr_zone ip = []" "parse_digits b = Some n"
    using assms by (auto simp: parse_cidr_def split: option.splits if_splits dest: cut_SomeD)
  have "\<forall>c \<in> set a. plain_char c"
    using s(2,3) parse_v6_plain [of a ip] v4_fields_plain
    by (auto simp: parse_addr_def parse_v4_def split: option.splits if_splits)
  moreover have "\<forall>c \<in> set b. is_digit c" using s(4)
    by (auto simp: parse_digits_def list_all_iff split: if_splits)
  moreover have "\<not> is_digit (CHR 0x0A)" by (simp add: is_digit_def byte_of_def)
  ultimately show ?thesis unfolding s(1) using plain_not_lf by auto
qed

lemma fingerprint_text_inj:
  "\<forall>c \<in> set xs \<union> set ys. CHR 0x0A \<notin> set c \<Longrightarrow> fingerprint_text xs = fingerprint_text ys \<longleftrightarrow> xs = ys"
proof (induction xs arbitrary: ys)
  case Nil
  then show ?case by (cases ys) (auto simp: fingerprint_text_def)
next
  case (Cons x xs)
  show ?case
  proof (cases ys)
    case Nil
    then show ?thesis by (simp add: fingerprint_text_def)
  next
    case (Cons y zs)
    have "cut (CHR 0x0A) (x @ CHR 0x0A # u) = Some (x, u)" "cut (CHR 0x0A) (y @ CHR 0x0A # u) = Some (y, u)" for u
      using Cons.prems Cons by simp_all
    then have "x @ CHR 0x0A # u = y @ CHR 0x0A # v \<longleftrightarrow> x = y \<and> u = v" for u v
      by (metis option.inject prod.inject)
    then show ?thesis using Cons.IH [of zs] Cons.prems Cons by (simp add: fingerprint_text_def)
  qed
qed

lemma fingerprint_text_normalise:
  "fingerprint_text (normalise xs) = fingerprint_text (normalise ys) \<longleftrightarrow> normalise xs = normalise ys"
proof -
  have "CHR 0x0A \<notin> set c" if "c \<in> set (normalise zs)" for c zs
  proof -
    have "usable c" using that by (simp add: set_normalise)
    then obtain p where "parse_cidr c = Some p" by (auto simp: usable_def split: if_splits)
    then show ?thesis by (rule parse_cidr_no_lf)
  qed
  then show ?thesis by (intro fingerprint_text_inj) blast
qed

section \<open>What ipset promises\<close>

text \<open>The manual of the command: \<open>sets\<close> reads the kernel's sets by name, \<open>net\<close> is the network an
  entry denotes. A command that fails changes nothing; \<open>destroy\<close>, \<open>create\<close>, \<open>add\<close> and
  \<open>swap\<close> do what they say when they succeed.\<close>

definition ipset_documented ::
    "(string list \<Rightarrow> 's \<Rightarrow> 's \<times> outcome) \<Rightarrow> ('s \<Rightarrow> string \<rightharpoonup> 'n set) \<Rightarrow> (string \<Rightarrow> 'n) \<Rightarrow> bool" where
  "ipset_documented exec sets net \<longleftrightarrow>
     (\<forall>cmd k. snd (exec cmd k) \<noteq> None \<longrightarrow> sets (fst (exec cmd k)) = sets k) \<and>
     (\<forall>n k. snd (exec [''ipset'', ''destroy'', n] k) = None \<longrightarrow>
        sets (fst (exec [''ipset'', ''destroy'', n] k)) = (sets k)(n := None)) \<and>
     (\<forall>n k. snd (exec [''ipset'', ''create'', n, ''hash:net'', ''family'', ''inet''] k) = None \<longrightarrow>
        sets (fst (exec [''ipset'', ''create'', n, ''hash:net'', ''family'', ''inet''] k)) = (sets k)(n \<mapsto> {})) \<and>
     (\<forall>n k. snd (exec [''ipset'', ''create'', n, ''hash:net'', ''family'', ''inet'', ''-exist''] k) = None \<longrightarrow>
        sets (fst (exec [''ipset'', ''create'', n, ''hash:net'', ''family'', ''inet'', ''-exist''] k)) =
          (if sets k n = None then (sets k)(n \<mapsto> {}) else sets k)) \<and>
     (\<forall>n c k. snd (exec [''ipset'', ''add'', n, c] k) = None \<longrightarrow>
        (\<exists>S. sets k n = Some S \<and> sets (fst (exec [''ipset'', ''add'', n, c] k)) = (sets k)(n \<mapsto> insert (net c) S))) \<and>
     (\<forall>m n k. snd (exec [''ipset'', ''swap'', m, n] k) = None \<longrightarrow>
        (\<exists>M N. sets k m = Some M \<and> sets k n = Some N \<and>
           sets (fst (exec [''ipset'', ''swap'', m, n] k)) = (sets k)(m \<mapsto> N, n \<mapsto> M)))"

lemma documented:
  assumes "ipset_documented exec sets net"
  shows ipset_failed: "exec cmd k = (k', Some oe) \<Longrightarrow> sets k' = sets k"
    and ipset_destroy: "exec [''ipset'', ''destroy'', n] k = (k', None) \<Longrightarrow> sets k' = (sets k)(n := None)"
    and ipset_create: "exec [''ipset'', ''create'', n, ''hash:net'', ''family'', ''inet''] k = (k', None) \<Longrightarrow>
      sets k' = (sets k)(n \<mapsto> {})"
    and ipset_ensure: "exec [''ipset'', ''create'', n, ''hash:net'', ''family'', ''inet'', ''-exist''] k = (k', None) \<Longrightarrow>
      sets k' = (if sets k n = None then (sets k)(n \<mapsto> {}) else sets k)"
    and ipset_add: "exec [''ipset'', ''add'', n, c] k = (k', None) \<Longrightarrow>
      \<exists>S. sets k n = Some S \<and> sets k' = (sets k)(n \<mapsto> insert (net c) S)"
    and ipset_swap: "exec [''ipset'', ''swap'', m, n] k = (k', None) \<Longrightarrow>
      \<exists>M N. sets k m = Some M \<and> sets k n = Some N \<and> sets k' = (sets k)(m \<mapsto> N, n \<mapsto> M)"
  using assms unfolding ipset_documented_def
  by (metis fst_conv snd_conv option.distinct(1))+

text \<open>Any command about another name leaves a set alone.\<close>

lemma destroy_other:
  assumes "ipset_documented exec sets net" "n \<noteq> m"
  shows "sets (fst (exec [''ipset'', ''destroy'', m] k)) n = sets k n"
proof (cases "exec [''ipset'', ''destroy'', m] k")
  case (Pair k' r)
  then show ?thesis
    using ipset_failed [OF assms(1), of "[''ipset'', ''destroy'', m]" k k'] ipset_destroy [OF assms(1), of m k k'] assms(2)
    by (cases r) auto
qed

text \<open>A run of the command that also records every state the kernel goes through.\<close>

definition logged :: "(string list \<Rightarrow> 's \<Rightarrow> 's \<times> outcome) \<Rightarrow> string list \<Rightarrow> 's \<times> 's list \<Rightarrow> ('s \<times> 's list) \<times> outcome" where
  "logged exec cmd st = (let (k', r) = exec cmd (fst st) in ((k', snd st @ [k']), r))"

lemma logged_documented:
  "ipset_documented exec sets net \<Longrightarrow> ipset_documented (logged exec) (\<lambda>st. sets (fst st)) net"
  unfolding ipset_documented_def logged_def by (simp add: split_def Let_def)

lemma logged_log: "snd (fst (logged exec cmd st)) = snd st @ [fst (fst (logged exec cmd st))]"
  by (simp add: logged_def split_def Let_def)

text \<open>From one state to a later one the live set stayed what it was, also in between.\<close>

definition quiet :: "('s \<Rightarrow> string \<rightharpoonup> 'n set) \<Rightarrow> string \<Rightarrow> 's \<times> 's list \<Rightarrow> 's \<times> 's list \<Rightarrow> bool" where
  "quiet sets name st st' \<longleftrightarrow> sets (fst st') name = sets (fst st) name \<and>
     (\<forall>t \<in> set (snd st'). t \<in> set (snd st) \<or> sets t name = sets (fst st) name)"

lemma quiet_trans: "quiet sets name a b \<Longrightarrow> quiet sets name b c \<Longrightarrow> quiet sets name a c"
  by (force simp: quiet_def)

lemma quiet_step:
  "sets (fst (fst (logged exec cmd st))) name = sets (fst st) name \<Longrightarrow> quiet sets name st (fst (logged exec cmd st))"
  by (auto simp: quiet_def logged_log)

lemma quiet_destroy:
  assumes "ipset_documented exec sets net" "name \<noteq> tmp"
  shows "quiet sets name st (fst (logged exec [''ipset'', ''destroy'', tmp] st))"
  using destroy_other [OF logged_documented [OF assms(1)] assms(2), of st] by (intro quiet_step) simp

lemma quiet_failed:
  assumes "ipset_documented exec sets net" "logged exec cmd st = (st', Some oe)"
  shows "quiet sets name st st'"
  using ipset_failed [OF logged_documented [OF assms(1)] assms(2)] quiet_step [of sets exec cmd st name] assms(2) by simp

lemma quiet_done:
  assumes "logged exec cmd st = (st', r)" "sets (fst st') name = sets (fst st) name"
  shows "quiet sets name st st'"
  using quiet_step [of sets exec cmd st name] assms by simp

lemma add_entries_quiet:
  assumes doc: "ipset_documented exec sets net" and ne: "name \<noteq> tmp"
  shows "add_entries (logged exec) tmp cs st = (st', r) \<Longrightarrow> sets (fst st) tmp = Some S \<Longrightarrow>
    quiet sets name st st' \<and> (r = None \<longrightarrow> sets (fst st') tmp = Some (S \<union> net ` set cs))"
proof (induction cs arbitrary: st S)
  case (Cons c cs)
  note doc' = logged_documented [OF doc]
  obtain st1 r1 where run: "logged exec [''ipset'', ''add'', tmp, c] st = (st1, r1)" by fastforce
  show ?case
  proof (cases r1)
    case None
    have "sets (fst st1) = (sets (fst st))(tmp \<mapsto> insert (net c) S)"
      using ipset_add [OF doc' run [unfolded None]] Cons.prems(2) by auto
    then have 1: "sets (fst st1) tmp = Some (insert (net c) S)" "sets (fst st1) name = sets (fst st) name"
      using ne by simp_all
    have "add_entries (logged exec) tmp cs st1 = (st', r)" using Cons.prems(1) run None by simp
    moreover have "quiet sets name st st1" by (rule quiet_done [where r = r1]) (use run 1(2) in simp_all)
    ultimately show ?thesis using Cons.IH [OF _ 1(1)] by (auto intro: quiet_trans)
  next
    case (Some oe)
    then have "st' = fst (logged exec [''ipset'', ''destroy'', tmp] st1)" "r \<noteq> None"
      using Cons.prems(1) run by auto
    then show ?thesis
      using quiet_failed [OF doc run [unfolded Some]] quiet_destroy [OF doc ne, of st1] by (auto intro: quiet_trans)
  qed
qed (simp add: quiet_def)

text \<open>The states in which the live set is the old one, the new one, or freshly created.\<close>

definition whole :: "('s \<Rightarrow> string \<rightharpoonup> 'n set) \<Rightarrow> string \<Rightarrow> 'n set option \<Rightarrow> 'n set \<Rightarrow> 's \<Rightarrow> bool" where
  "whole sets name old new t \<longleftrightarrow> sets t name = old \<or> sets t name = Some new \<or> old = None \<and> sets t name = Some {}"

lemma whole_step:
  assumes "logged exec cmd st = (st', r)" "\<forall>t \<in> set (snd st). whole sets name old new t"
    and "whole sets name old new (fst st')"
  shows "\<forall>t \<in> set (snd st'). whole sets name old new t"
  using assms logged_log [of exec cmd st] by auto

lemma swap_in:
  assumes documented: "ipset_documented exec sets net" and ne: "name \<noteq> tmp"
    and before: "\<forall>t \<in> set (snd st). whole sets name old new t" "whole sets name old new (fst st)"
    and full: "sets (fst st) tmp = Some new"
    and swap: "logged exec [''ipset'', ''swap'', tmp, name] st = (st1, r1)"
    and destroy: "logged exec [''ipset'', ''destroy'', tmp] st1 = (st2, r2)"
  shows "(\<forall>t \<in> set (snd st2). whole sets name old new t) \<and>
    (r1 = None \<longrightarrow> sets (fst st2) name = Some new) \<and> (r2 = None \<longrightarrow> sets (fst st2) tmp = None)"
proof -
  note doc = logged_documented [OF documented]
  have 1: "whole sets name old new (fst st1) \<and> (r1 = None \<longrightarrow> sets (fst st1) name = Some new)"
  proof (cases r1)
    case None
    then show ?thesis using ipset_swap [OF doc swap [unfolded None]] full ne by (auto simp: whole_def)
  next
    case (Some oe)
    then show ?thesis using ipset_failed [OF doc swap [unfolded Some]] before(2) by (simp add: whole_def)
  qed
  have same: "sets (fst st2) name = sets (fst st1) name"
    using destroy_other [OF doc ne, of st1] destroy by simp
  have 2: "\<forall>t \<in> set (snd st1). whole sets name old new t"
    using whole_step [OF swap before(1)] 1 by blast
  have "\<forall>t \<in> set (snd st2). whole sets name old new t"
    using whole_step [OF destroy 2] 1 same by (simp add: whole_def)
  moreover have "sets (fst st2) tmp = None" if "r2 = None"
    using ipset_destroy [OF doc destroy [unfolded that]] by simp
  ultimately show ?thesis using 1 same by simp
qed

text \<open>Destroying a set that exists works; nothing refers to the temporary one.\<close>

definition destroys :: "(string list \<Rightarrow> 's \<Rightarrow> 's \<times> outcome) \<Rightarrow> ('s \<Rightarrow> string \<rightharpoonup> 'n set) \<Rightarrow> bool" where
  "destroys exec sets \<longleftrightarrow> (\<forall>n k. sets k n \<noteq> None \<longrightarrow> snd (exec [''ipset'', ''destroy'', n] k) = None)"

lemma rebuild:
  assumes "ipset_documented exec sets net"
    and "apply_with_ipset (logged exec) name entries (k, []) = ((k', trace), r)"
  shows "(\<forall>t \<in> set trace. whole sets name (sets k name) (net ` set entries) t) \<and>
    (r = None \<longrightarrow> sets k' name = Some (net ` set entries) \<and> sets k' (name @ ''-new'') = None) \<and>
    (r \<noteq> None \<and> destroys exec sets \<longrightarrow> sets k' name = sets k name \<or> sets k name = None \<and> sets k' name = Some {})"
proof -
  note doc = logged_documented [OF assms(1)]
  define tmp where "tmp = name @ ''-new''"
  have ne: "name \<noteq> tmp" by (simp add: tmp_def)
  define st0 where "st0 = fst (logged exec [''ipset'', ''destroy'', tmp] (k, []))"
  have q0: "quiet sets name (k, []) st0"
    unfolding st0_def by (rule quiet_destroy [OF assms(1) ne])
  have calm: ?thesis if "quiet sets name (k, []) (k', trace)" "r \<noteq> None"
    using that by (auto simp: quiet_def whole_def)
  obtain st1 r1 where c: "logged exec [''ipset'', ''create'', tmp, ''hash:net'', ''family'', ''inet''] st0 = (st1, r1)"
    by fastforce
  note run = assms(2) [unfolded apply_with_ipset_def Let_def, folded tmp_def, folded st0_def, unfolded c]
  show ?thesis
  proof (cases r1)
    case (Some oe)
    then show ?thesis
      using run quiet_trans [OF q0 quiet_failed [OF assms(1) c [unfolded Some]]] by (intro calm) auto
  next
    case r1: None
    have s1: "sets (fst st1) = (sets (fst st0))(tmp \<mapsto> {})" using ipset_create [OF doc c [unfolded r1]] by simp
    have "quiet sets name st0 st1" by (rule quiet_done [where r = r1]) (use c ne s1 in simp_all)
    then have q1: "quiet sets name (k, []) st1" by (rule quiet_trans [OF q0])
    obtain st2 r2 where a: "add_entries (logged exec) tmp entries st1 = (st2, r2)" by fastforce
    have added: "quiet sets name st1 st2" "r2 = None \<longrightarrow> sets (fst st2) tmp = Some (net ` set entries)"
      using add_entries_quiet [OF assms(1) ne a, of "{}"] s1 by auto
    have q2: "quiet sets name (k, []) st2" by (rule quiet_trans [OF q1 added(1)])
    show ?thesis
    proof (cases r2)
      case (Some e)
      then show ?thesis using run r1 a q2 by (intro calm) auto
    next
      case r2: None
      define old where "old = sets k name"
      have w2: "\<forall>t \<in> set (snd st2). whole sets name old (net ` set entries) t" "sets (fst st2) name = old"
        using q2 by (auto simp: quiet_def whole_def old_def)
      obtain st3 r3 where e: "logged exec [''ipset'', ''create'', name, ''hash:net'', ''family'', ''inet'', ''-exist''] st2 = (st3, r3)"
        by fastforce
      show ?thesis
      proof (cases r3)
        case (Some oe)
        then show ?thesis using run r1 a r2 e quiet_trans [OF q2 quiet_failed [OF assms(1) e [unfolded Some]]]
            quiet_destroy [OF assms(1) ne, of st3] by (intro calm) (auto intro: quiet_trans)
      next
        case r3: None
        have created: "sets (fst st3) name = old \<or> old = None \<and> sets (fst st3) name = Some {}"
          using ipset_ensure [OF doc e [unfolded r3]] w2(2) by auto
        have s3: "whole sets name old (net ` set entries) (fst st3)" "sets (fst st3) tmp = Some (net ` set entries)"
          using ipset_ensure [OF doc e [unfolded r3]] w2(2) added(2) r2 ne by (auto simp: whole_def)
        have w3: "\<forall>t \<in> set (snd st3). whole sets name old (net ` set entries) t"
          using whole_step [OF e w2(1) s3(1)] .
        obtain st4 r4 where sw: "logged exec [''ipset'', ''swap'', tmp, name] st3 = (st4, r4)" by fastforce
        obtain st5 r5 where d: "logged exec [''ipset'', ''destroy'', tmp] st4 = (st5, r5)" by fastforce
        have st5: "st5 = (k', trace)" and ok: "r = None \<longrightarrow> r4 = None \<and> r5 = None"
          using run r1 a r2 e r3 sw d by (auto split: option.splits)
        have failed: "sets k' name = old \<or> old = None \<and> sets k' name = Some {}"
          if "r \<noteq> None" "destroys exec sets"
        proof (cases r4)
          case None
          then have "r5 = None"
            using ipset_swap [OF doc, of tmp name st3 st4] sw d s3(2) ne that(2)
            by (fastforce simp: destroys_def logged_def split_def Let_def)
          then have "r = None" using run r1 a r2 e r3 sw d None by simp
          then show ?thesis using that(1) by simp
        next
          case (Some oe)
          then have "sets (fst st5) name = sets (fst st3) name"
            using ipset_failed [OF doc sw [unfolded Some]] destroy_other [OF doc ne, of st4] d by simp
          then show ?thesis using created st5 by simp
        qed
        show ?thesis using swap_in [OF assms(1) ne w3 s3 sw d, unfolded st5 fst_conv snd_conv] ok failed
          unfolding old_def tmp_def by blast
      qed
    qed
  qed
qed

text \<open>Recording does not change a run.\<close>

lemma logged_step: "logged exec cmd (k, tr) = ((k', tr'), r) \<Longrightarrow> exec cmd k = (k', r)"
  by (auto simp: logged_def split_def Let_def intro: prod_eqI)

lemma logged_add: "add_entries (logged exec) tmp cs (k, tr) = ((k', tr'), r) \<Longrightarrow> add_entries exec tmp cs k = (k', r)"
proof (induction cs arbitrary: k tr)
  case (Cons c cs)
  then show ?case
    by (cases "exec [''ipset'', ''add'', tmp, c] k"; cases "snd (exec [''ipset'', ''add'', tmp, c] k)")
      (auto simp: logged_def split_def Let_def)
qed simp

lemma logged_apply:
  assumes "apply_with_ipset (logged exec) name entries (k, tr) = ((k', tr'), r)"
  shows "apply_with_ipset exec name entries k = (k', r)"
proof -
  obtain k1 tr1 r1 where a: "logged exec [''ipset'', ''destroy'', name @ ''-new''] (k, tr) = ((k1, tr1), r1)"
    by (metis prod.exhaust)
  obtain k2 tr2 r2 where b: "logged exec [''ipset'', ''create'', name @ ''-new'', ''hash:net'', ''family'', ''inet''] (k1, tr1)
      = ((k2, tr2), r2)" by (metis prod.exhaust)
  obtain k3 tr3 r3 where c: "add_entries (logged exec) (name @ ''-new'') entries (k2, tr2) = ((k3, tr3), r3)"
    by (metis prod.exhaust)
  obtain k4 tr4 r4 where d: "logged exec [''ipset'', ''create'', name, ''hash:net'', ''family'', ''inet'', ''-exist''] (k3, tr3)
      = ((k4, tr4), r4)" by (metis prod.exhaust)
  obtain k5 tr5 r5 where e: "logged exec [''ipset'', ''swap'', name @ ''-new'', name] (k4, tr4) = ((k5, tr5), r5)"
    by (metis prod.exhaust)
  obtain k6 tr6 r6 where f: "logged exec [''ipset'', ''destroy'', name @ ''-new''] (k4, tr4) = ((k6, tr6), r6)"
    by (metis prod.exhaust)
  obtain k7 tr7 r7 where g: "logged exec [''ipset'', ''destroy'', name @ ''-new''] (k5, tr5) = ((k7, tr7), r7)"
    by (metis prod.exhaust)
  show ?thesis using assms
    unfolding apply_with_ipset_def Let_def
    by (cases r2; cases r3; cases r4; cases r5; cases r7)
      (auto simp: a b c d e f g logged_add [OF c] logged_step [OF a] logged_step [OF b] logged_step [OF d]
        logged_step [OF e] logged_step [OF f] logged_step [OF g])
qed

lemma rebuild_kernel:
  assumes "ipset_documented exec sets net" "apply_with_ipset exec name entries k = (k', r)"
  shows "(r = None \<longrightarrow> sets k' name = Some (net ` set entries)) \<and>
    (r \<noteq> None \<and> destroys exec sets \<longrightarrow> sets k' name = sets k name \<or> sets k name = None \<and> sets k' name = Some {})"
proof -
  obtain k2 tr r2 where l: "apply_with_ipset (logged exec) name entries (k, []) = ((k2, tr), r2)"
    by (metis prod.exhaust)
  have "k2 = k'" "r2 = r" using logged_apply [OF l] assms(2) by simp_all
  then show ?thesis using rebuild [OF assms(1) l] by blast
qed

text \<open>C8. Rebuilding the allowlist is atomic. In every state the kernel passes through, the live
  set is what it was before or the complete new list (or empty, when it did not exist); when the
  rebuild reports success it is the new list and the temporary set is gone.\<close>

theorem live_set_never_half_built:
  assumes "ipset_documented exec sets net"
    and "apply_with_ipset (logged exec) name entries (k, []) = ((k', trace), r)"
  shows "(\<forall>t \<in> set trace. sets t name = sets k name \<or> sets t name = Some (net ` set entries) \<or>
      sets k name = None \<and> sets t name = Some {}) \<and>
    (r = None \<longrightarrow> sets k' name = Some (net ` set entries) \<and> sets k' (name @ ''-new'') = None)"
  using rebuild [OF assms] by (auto simp: whole_def)

text \<open>A kernel to run the witnesses on: the sets by name.\<close>

definition sample_ipset :: "string list \<Rightarrow> (string \<rightharpoonup> string set) \<Rightarrow> (string \<rightharpoonup> string set) \<times> outcome" where
  "sample_ipset cmd k =
     (let fail = (k, Some (''refused'', ''exit status 1'')) in
      case cmd of
        [_, verb, n] \<Rightarrow> if verb = ''destroy'' \<and> k n \<noteq> None then (k(n := None), None) else fail
      | [_, verb, n, x] \<Rightarrow>
          (if verb = ''add'' then
             (case k n of None \<Rightarrow> fail | Some S \<Rightarrow> if x \<in> S then fail else (k(n \<mapsto> insert x S), None))
           else case (k n, k x) of (Some M, Some N) \<Rightarrow> (k(n \<mapsto> N, x \<mapsto> M), None) | _ \<Rightarrow> fail)
      | [_, _, n, _, _, _] \<Rightarrow> if k n = None then (k(n \<mapsto> {}), None) else fail
      | [_, _, n, _, _, _, _] \<Rightarrow> (if k n = None then k(n \<mapsto> {}) else k, None)
      | _ \<Rightarrow> fail)"

lemma sample_ipset_documented: "ipset_documented sample_ipset (\<lambda>k. k) (\<lambda>c. c)"
proof -
  have failed: "fst (sample_ipset cmd k) = k" if "snd (sample_ipset cmd k) \<noteq> None" for cmd k
    using that by (auto simp: sample_ipset_def Let_def split: list.splits if_splits option.splits)
  show ?thesis unfolding ipset_documented_def
    by (intro conjI allI impI failed; assumption?)
      (auto simp: sample_ipset_def Let_def split: if_splits option.splits)
qed

lemma sample_ipset_destroys: "destroys sample_ipset (\<lambda>k. k)"
  by (auto simp: destroys_def sample_ipset_def)

theorem live_set_never_half_built_witness:
  "let out = apply_with_ipset (logged sample_ipset) ''games'' [''10.0.0.0/8'', ''11.0.0.0/8''] ([''games'' \<mapsto> {''9.0.0.0/8''}], [])
   in snd out = None \<and> length (snd (fst out)) = 7 \<and>
     (\<forall>t \<in> set (snd (fst out)). t ''games'' = Some {''9.0.0.0/8''} \<or> t ''games'' = Some {''10.0.0.0/8'', ''11.0.0.0/8''})"
proof -
  define out where "out = apply_with_ipset (logged sample_ipset) ''games'' [''10.0.0.0/8'', ''11.0.0.0/8'']
    ([''games'' \<mapsto> {''9.0.0.0/8''}], [])"
  have out: "apply_with_ipset (logged sample_ipset) ''games'' [''10.0.0.0/8'', ''11.0.0.0/8'']
    ([''games'' \<mapsto> {''9.0.0.0/8''}], []) = ((fst (fst out), snd (fst out)), snd out)" by (simp add: out_def)
  have "snd out = None" "length (snd (fst out)) = 7" unfolding out_def by code_simp+
  then show ?thesis
    using live_set_never_half_built [OF sample_ipset_documented out] unfolding out_def [symmetric] Let_def by simp
qed

section \<open>Keeping the set in step\<close>

text \<open>The syncer remembers the list \<open>cs\<close>, and the kernel holds it.\<close>

definition in_step ::
    "(string \<Rightarrow> string) \<Rightarrow> ('s \<Rightarrow> string \<rightharpoonup> 'n set) \<Rightarrow> (string \<Rightarrow> 'n) \<Rightarrow> string list \<Rightarrow> syncer \<times> 's \<Rightarrow> bool" where
  "in_step sha256 sets net cs st \<longleftrightarrow> sy_applied (fst st) = fingerprint sha256 cs \<and>
     sets (snd st) (sy_set_name (fst st)) = Some (net ` set (normalise cs))"



end
