(* ===== verification/Firewall.thy ===== *)
theory Firewall
  imports Go_Strings
begin

text \<open>
  \<open>internal/agent/firewall.go\<close>: the record the installer leaves behind, the rules a relay must
  hold and their re-assertion at every poll. \<open>run\<close> executes \<open>iptables\<close> on a state of the
  kernel; \<open>iptables_documented\<close> is what its manual says of the calls made. The installer's own
  insertion of the rules (\<open>deploy/relay-v1.sh\<close>) is modelled to show what the agent finds.
\<close>

section \<open>The recorded state\<close>

record relay_state =
  InnerSubnet :: string
  WAN :: string
  Port :: string
  SetName :: string
  RateLimit :: string
  RateBurst :: string

definition no_state :: relay_state where
  "no_state = \<lparr>InnerSubnet = [], WAN = [], Port = [], SetName = [], RateLimit = [], RateBurst = []\<rparr>"

text \<open>\<open>bufio.ScanLines\<close>: lines end in a line feed, a carriage return before it is dropped, and a
  last line without one counts if it is not empty. A line that fills the scanner's buffer of
  \<open>bufio.MaxScanTokenSize\<close> bytes ends the scan with an error.\<close>

definition scan_lines :: "string \<Rightarrow> string list" where
  "scan_lines s = (let ls = split_on (CHR 0x0A) s in if last ls = [] then butlast ls else ls)"

definition max_token :: nat where "max_token = 65536"

definition state_line :: "relay_state \<Rightarrow> string \<Rightarrow> relay_state" where
  "state_line st l =
     (case cut (CHR ''='') (trim_space (drop_cr l)) of
        None \<Rightarrow> st
      | Some (k, v) \<Rightarrow>
          if k = ''INNER_SUBNET'' then st\<lparr>InnerSubnet := v\<rparr>
          else if k = ''WAN'' then st\<lparr>WAN := v\<rparr>
          else if k = ''PORT'' then st\<lparr>Port := v\<rparr>
          else if k = ''SETNAME'' then st\<lparr>SetName := v\<rparr>
          else if k = ''RATE_LIMIT'' then st\<lparr>RateLimit := v\<rparr>
          else if k = ''RATE_BURST'' then st\<lparr>RateBurst := v\<rparr>
          else st)"

datatype state_error = OpenFailed | LineTooLong | Incomplete

text \<open>\<open>LoadRelayState\<close> on the contents of the file, or nothing when it cannot be opened.\<close>

definition load_relay_state :: "string option \<Rightarrow> state_error + relay_state" where
  "load_relay_state content =
     (case content of
        None \<Rightarrow> Inl OpenFailed
      | Some s \<Rightarrow>
          let ls = scan_lines s in
          if \<exists>l \<in> set ls. length l \<ge> max_token then Inl LineTooLong
          else let st = foldl state_line no_state ls in
            if InnerSubnet st = [] \<or> WAN st = [] \<or> Port st = [] \<or> SetName st = [] then Inl Incomplete
            else Inr (st\<lparr>RateLimit := (if RateLimit st = [] then ''64kb/s'' else RateLimit st),
                         RateBurst := (if RateBurst st = [] then ''256kb'' else RateBurst st)\<rparr>))"

text \<open>What the installer writes into the file.\<close>

definition install_state :: "string \<Rightarrow> string \<Rightarrow> string \<Rightarrow> relay_state \<Rightarrow> string" where
  "install_state iface inner_ip policy st =
     concat (map (\<lambda>l. l @ [CHR 0x0A])
       [''INNER_SUBNET='' @ InnerSubnet st, ''WAN='' @ WAN st, ''PORT='' @ Port st, ''IFACE='' @ iface,
        ''INNER_IP='' @ inner_ip, ''SETNAME='' @ SetName st, ''RATE_LIMIT='' @ RateLimit st,
        ''RATE_BURST='' @ RateBurst st, ''PREV_FORWARD_POLICY='' @ policy])"

section \<open>The rules\<close>

record rule =
  rl_spec :: "string list"
  rl_at_top :: bool

definition cap_rule :: "relay_state \<Rightarrow> string \<Rightarrow> string \<Rightarrow> string \<Rightarrow> string list" where
  "cap_rule st dir mode name =
     [''-t'', ''filter'', ''FORWARD'', dir, InnerSubnet st, ''-m'', ''hashlimit'',
      ''--hashlimit-above'', RateLimit st, ''--hashlimit-burst'', RateBurst st,
      ''--hashlimit-mode'', mode, ''--hashlimit-name'', name, ''--hashlimit-htable-expire'', ''60000'', ''-j'', ''DROP'']"

definition firewall_rules :: "relay_state \<Rightarrow> rule list" where
  "firewall_rules st =
     [\<lparr>rl_spec = cap_rule st ''-s'' ''srcip'' ''gnl-up'', rl_at_top = True\<rparr>,
      \<lparr>rl_spec = cap_rule st ''-d'' ''dstip'' ''gnl-down'', rl_at_top = True\<rparr>,
      \<lparr>rl_spec = [''-t'', ''filter'', ''FORWARD'', ''-s'', InnerSubnet st, ''-m'', ''set'', ''--match-set'', SetName st,
          ''dst'', ''-j'', ''ACCEPT''], rl_at_top = False\<rparr>,
      \<lparr>rl_spec = [''-t'', ''filter'', ''FORWARD'', ''-d'', InnerSubnet st, ''-m'', ''conntrack'', ''--ctstate'',
          ''RELATED,ESTABLISHED'', ''-j'', ''ACCEPT''], rl_at_top = False\<rparr>,
      \<lparr>rl_spec = [''-t'', ''nat'', ''POSTROUTING'', ''-s'', InnerSubnet st, ''-o'', WAN st, ''-j'', ''MASQUERADE''],
       rl_at_top = False\<rparr>,
      \<lparr>rl_spec = [''-t'', ''mangle'', ''FORWARD'', ''-p'', ''tcp'', ''--tcp-flags'', ''SYN,RST'', ''SYN'', ''-j'',
          ''TCPMSS'', ''--clamp-mss-to-pmtu''], rl_at_top = False\<rparr>,
      \<lparr>rl_spec = [''-t'', ''filter'', ''INPUT'', ''-p'', ''udp'', ''--dport'', Port st, ''-j'', ''ACCEPT''],
       rl_at_top = False\<rparr>]"

section \<open>Re-asserting\<close>

type_synonym 's iptables = "string list \<Rightarrow> 's \<Rightarrow> 's \<times> string option"

datatype assert_error = PolicyFailed string | RuleFailed "string list" string

definition with_op :: "string \<Rightarrow> string list \<Rightarrow> string list" where
  "with_op op spec = take 2 spec @ [op] @ drop 2 spec"

fun assert_rules :: "'s iptables \<Rightarrow> rule list \<Rightarrow> 's \<Rightarrow> 's \<times> assert_error option" where
  "assert_rules run [] k = (k, None)"
| "assert_rules run (r # rs) k =
     (case run (with_op ''-C'' (rl_spec r)) k of
        (k1, None) \<Rightarrow> assert_rules run rs k1
      | (k1, Some _) \<Rightarrow>
          (case run (with_op (if rl_at_top r then ''-I'' else ''-A'') (rl_spec r)) k1 of
             (k2, Some e) \<Rightarrow> (k2, Some (RuleFailed (rl_spec r) e))
           | (k2, None) \<Rightarrow> assert_rules run rs k2))"

definition reassert_firewall :: "relay_state \<Rightarrow> 's iptables \<Rightarrow> 's \<Rightarrow> 's \<times> assert_error option" where
  "reassert_firewall st run k =
     (case run [''-P'', ''FORWARD'', ''DROP''] k of
        (k1, Some e) \<Rightarrow> (k1, Some (PolicyFailed e))
      | (k1, None) \<Rightarrow> assert_rules run (firewall_rules st) k1)"

text \<open>\<open>RunIptables\<close> over the combined output and error of the command.\<close>

definition run_iptables :: "(string list \<Rightarrow> 's \<Rightarrow> 's \<times> string \<times> string option) \<Rightarrow> 's iptables" where
  "run_iptables exec args k =
     (case exec (''iptables'' # args) k of
        (k', out, None) \<Rightarrow> (k', None)
      | (k', out, Some err) \<Rightarrow>
          (k', Some (let msg = trim_space out in if msg = [] then err else err @ '': '' @ msg)))"

section \<open>The installer\<close>

text \<open>\<open>add_rule\<close> of the installer, which puts every missing rule at position 1 of its chain; the
  script stops at the first command that fails.\<close>

fun install_rules :: "'s iptables \<Rightarrow> rule list \<Rightarrow> 's \<Rightarrow> 's" where
  "install_rules run [] k = k"
| "install_rules run (r # rs) k =
     (case run (with_op ''-C'' (rl_spec r)) k of
        (k1, None) \<Rightarrow> install_rules run rs k1
      | (k1, Some _) \<Rightarrow>
          (case run (take 2 (rl_spec r) @ [''-I'', rl_spec r ! 2, ''1''] @ drop 3 (rl_spec r)) k1 of
             (k2, Some _) \<Rightarrow> k2
           | (k2, None) \<Rightarrow> install_rules run rs k2))"

definition install_firewall :: "relay_state \<Rightarrow> 's iptables \<Rightarrow> 's \<Rightarrow> 's" where
  "install_firewall st run k =
     (case run [''-P'', ''FORWARD'', ''DROP''] k of
        (k1, Some _) \<Rightarrow> k1
      | (k1, None) \<Rightarrow> install_rules run (firewall_rules st) k1)"

section \<open>What iptables promises\<close>

text \<open>\<open>chain\<close> reads the rules of a chain of a table and \<open>policy\<close> the policy of \<open>FORWARD\<close>. A
  command that fails changes nothing; a rule specification starts with an option.\<close>

definition rule_body :: "rule \<Rightarrow> string list" where "rule_body r = drop 3 (rl_spec r)"

definition rule_chain :: "rule \<Rightarrow> string \<times> string" where "rule_chain r = (rl_spec r ! 1, rl_spec r ! 2)"

definition is_option :: "string list \<Rightarrow> bool" where
  "is_option b \<longleftrightarrow> b \<noteq> [] \<and> has_prefix (hd b) ''-''"

definition iptables_documented ::
    "'s iptables \<Rightarrow> ('s \<Rightarrow> string \<times> string \<Rightarrow> string list list) \<Rightarrow> ('s \<Rightarrow> string) \<Rightarrow> bool" where
  "iptables_documented run chain policy \<longleftrightarrow>
     (\<forall>args k. snd (run args k) \<noteq> None \<longrightarrow> chain (fst (run args k)) = chain k \<and> policy (fst (run args k)) = policy k) \<and>
     (\<forall>k. snd (run [''-P'', ''FORWARD'', ''DROP''] k) = None \<longrightarrow>
        chain (fst (run [''-P'', ''FORWARD'', ''DROP''] k)) = chain k \<and>
        policy (fst (run [''-P'', ''FORWARD'', ''DROP''] k)) = ''DROP'') \<and>
     (\<forall>t c b k. is_option b \<longrightarrow>
        (snd (run ([''-t'', t, ''-C'', c] @ b) k) = None \<longleftrightarrow> b \<in> set (chain k (t, c))) \<and>
        (snd (run ([''-t'', t, ''-C'', c] @ b) k) = None \<longrightarrow>
           chain (fst (run ([''-t'', t, ''-C'', c] @ b) k)) = chain k \<and> policy (fst (run ([''-t'', t, ''-C'', c] @ b) k)) = policy k) \<and>
        (snd (run ([''-t'', t, ''-A'', c] @ b) k) = None \<longrightarrow>
           chain (fst (run ([''-t'', t, ''-A'', c] @ b) k)) = (chain k)((t, c) := chain k (t, c) @ [b]) \<and>
           policy (fst (run ([''-t'', t, ''-A'', c] @ b) k)) = policy k) \<and>
        (snd (run ([''-t'', t, ''-I'', c] @ b) k) = None \<longrightarrow>
           chain (fst (run ([''-t'', t, ''-I'', c] @ b) k)) = (chain k)((t, c) := b # chain k (t, c)) \<and>
           policy (fst (run ([''-t'', t, ''-I'', c] @ b) k)) = policy k) \<and>
        (snd (run ([''-t'', t, ''-I'', c, ''1''] @ b) k) = None \<longrightarrow>
           chain (fst (run ([''-t'', t, ''-I'', c, ''1''] @ b) k)) = (chain k)((t, c) := b # chain k (t, c)) \<and>
           policy (fst (run ([''-t'', t, ''-I'', c, ''1''] @ b) k)) = policy k))"

definition rule_ok :: "rule \<Rightarrow> bool" where
  "rule_ok r \<longleftrightarrow> rl_spec r = [''-t'', fst (rule_chain r), snd (rule_chain r)] @ rule_body r \<and> is_option (rule_body r)"

lemma firewall_rules_ok: "\<forall>r \<in> set (firewall_rules st). rule_ok r"
  by (simp add: firewall_rules_def cap_rule_def rule_ok_def rule_chain_def rule_body_def is_option_def)

lemma documented_rule:
  assumes "iptables_documented run chain policy" "rule_ok r"
  shows check_rule: "run (with_op ''-C'' (rl_spec r)) k = (k', e) \<Longrightarrow>
      (e = None \<longleftrightarrow> rule_body r \<in> set (chain k (rule_chain r))) \<and> chain k' = chain k \<and> policy k' = policy k"
    and add_rule: "run (with_op (if rl_at_top r then ''-I'' else ''-A'') (rl_spec r)) k = (k', None) \<Longrightarrow>
      chain k' = (chain k)(rule_chain r := (if rl_at_top r then rule_body r # chain k (rule_chain r)
        else chain k (rule_chain r) @ [rule_body r])) \<and> policy k' = policy k"
    and insert_rule: "run (take 2 (rl_spec r) @ [''-I'', rl_spec r ! 2, ''1''] @ drop 3 (rl_spec r)) k = (k', None) \<Longrightarrow>
      chain k' = (chain k)(rule_chain r := rule_body r # chain k (rule_chain r)) \<and> policy k' = policy k"
proof -
  obtain t c where tc: "rule_chain r = (t, c)" by fastforce
  have spec: "rl_spec r = [''-t'', t, c] @ rule_body r" "is_option (rule_body r)"
    using assms(2) tc by (simp_all add: rule_ok_def)
  have form: "with_op op (rl_spec r) = [''-t'', t, op, c] @ rule_body r" for op
    by (subst spec(1)) (simp add: with_op_def)
  have form1: "take 2 (rl_spec r) @ [''-I'', rl_spec r ! 2, ''1''] @ drop 3 (rl_spec r) = [''-t'', t, ''-I'', c, ''1''] @ rule_body r"
    by (simp add: spec(1) numeral_2_eq_2 numeral_3_eq_3)
  note doc = assms(1) [unfolded iptables_documented_def]
  show "run (with_op ''-C'' (rl_spec r)) k = (k', e) \<Longrightarrow>
      (e = None \<longleftrightarrow> rule_body r \<in> set (chain k (rule_chain r))) \<and> chain k' = chain k \<and> policy k' = policy k"
    unfolding form tc using doc spec(2) by (metis fst_conv snd_conv)
  show "run (with_op (if rl_at_top r then ''-I'' else ''-A'') (rl_spec r)) k = (k', None) \<Longrightarrow>
      chain k' = (chain k)(rule_chain r := (if rl_at_top r then rule_body r # chain k (rule_chain r)
        else chain k (rule_chain r) @ [rule_body r])) \<and> policy k' = policy k"
    unfolding form tc using doc spec(2) by (cases "rl_at_top r") (simp, metis fst_conv snd_conv)+
  show "run (take 2 (rl_spec r) @ [''-I'', rl_spec r ! 2, ''1''] @ drop 3 (rl_spec r)) k = (k', None) \<Longrightarrow>
      chain k' = (chain k)(rule_chain r := rule_body r # chain k (rule_chain r)) \<and> policy k' = policy k"
    unfolding form1 tc using doc spec(2) by (metis fst_conv snd_conv)
qed

lemma failed_rule:
  "iptables_documented run chain policy \<Longrightarrow> run args k = (k', Some e) \<Longrightarrow> chain k' = chain k \<and> policy k' = policy k"
  unfolding iptables_documented_def by (metis fst_conv snd_conv option.distinct(1))

section \<open>What a re-assertion achieves\<close>

text \<open>How a chain may change: missing rules of the list are put around what was there.\<close>

definition only_added :: "rule list \<Rightarrow> string \<times> string \<Rightarrow> string list list \<Rightarrow> string list list \<Rightarrow> bool" where
  "only_added rs tc old new \<longleftrightarrow> (\<exists>top bot. new = top @ old @ bot \<and> distinct (top @ bot) \<and>
     set (top @ bot) \<inter> set old = {} \<and>
     set top \<subseteq> rule_body ` {r \<in> set rs. rl_at_top r \<and> rule_chain r = tc} \<and>
     set bot \<subseteq> rule_body ` {r \<in> set rs. \<not> rl_at_top r \<and> rule_chain r = tc})"

lemma only_added_refl: "only_added rs tc old old"
  unfolding only_added_def by (intro exI [of _ "[]"]) simp

lemma only_added_mono: "only_added rs tc old new \<Longrightarrow> only_added (r # rs) tc old new"
  unfolding only_added_def by fastforce

lemma only_added_subset: "only_added rs tc old new \<Longrightarrow> set old \<subseteq> set new"
  by (auto simp: only_added_def)

lemma only_added_same:
  assumes "only_added rs tc old new" "rule_body ` {r \<in> set rs. rule_chain r = tc} \<subseteq> set old"
  shows "new = old"
proof -
  obtain top bot where n: "new = top @ old @ bot" "set (top @ bot) \<inter> set old = {}"
    "set top \<subseteq> rule_body ` {r \<in> set rs. rl_at_top r \<and> rule_chain r = tc}"
    "set bot \<subseteq> rule_body ` {r \<in> set rs. \<not> rl_at_top r \<and> rule_chain r = tc}"
    using assms(1) unfolding only_added_def by blast
  have "set top \<subseteq> set old" "set bot \<subseteq> set old"
    using n(3,4) subset_trans [OF image_mono assms(2)] by blast+
  then have "set (top @ bot) = {}" using n(2) by (simp add: Int_absorb2 Int_Un_distrib2)
  then show ?thesis using n(1) by simp
qed

lemma only_added_top:
  assumes "only_added rs tc (rule_body r # old) new" "rl_at_top r" "rule_chain r = tc" "rule_body r \<notin> set old"
  shows "only_added (r # rs) tc old new"
proof -
  obtain top bot where n: "new = top @ (rule_body r # old) @ bot" "distinct (top @ bot)"
    "set (top @ bot) \<inter> set (rule_body r # old) = {}"
    "set top \<subseteq> rule_body ` {r \<in> set rs. rl_at_top r \<and> rule_chain r = tc}"
    "set bot \<subseteq> rule_body ` {r \<in> set rs. \<not> rl_at_top r \<and> rule_chain r = tc}"
    using assms(1) unfolding only_added_def by blast
  show ?thesis unfolding only_added_def
    by (rule exI [of _ "top @ [rule_body r]"], rule exI [of _ bot]) (use n assms in auto)
qed

lemma only_added_bottom:
  assumes "only_added rs tc (old @ [rule_body r]) new" "\<not> rl_at_top r" "rule_chain r = tc" "rule_body r \<notin> set old"
  shows "only_added (r # rs) tc old new"
proof -
  obtain top bot where n: "new = top @ (old @ [rule_body r]) @ bot" "distinct (top @ bot)"
    "set (top @ bot) \<inter> set (old @ [rule_body r]) = {}"
    "set top \<subseteq> rule_body ` {r \<in> set rs. rl_at_top r \<and> rule_chain r = tc}"
    "set bot \<subseteq> rule_body ` {r \<in> set rs. \<not> rl_at_top r \<and> rule_chain r = tc}"
    using assms(1) unfolding only_added_def by blast
  show ?thesis unfolding only_added_def
    by (rule exI [of _ top], rule exI [of _ "rule_body r # bot"]) (use n assms in auto)
qed

lemma assert_rules_adds:
  assumes doc: "iptables_documented run chain policy"
  shows "assert_rules run rs k = (k', e) \<Longrightarrow> \<forall>r \<in> set rs. rule_ok r \<Longrightarrow>
    policy k' = policy k \<and> (\<forall>tc. only_added rs tc (chain k tc) (chain k' tc)) \<and>
    (e = None \<longrightarrow> (\<forall>r \<in> set rs. rule_body r \<in> set (chain k' (rule_chain r))))"
proof (induction rs arbitrary: k)
  case Nil
  then show ?case by (simp add: only_added_refl)
next
  case (Cons r rs)
  have ok: "rule_ok r" using Cons.prems(2) by simp
  obtain k1 c where c: "run (with_op ''-C'' (rl_spec r)) k = (k1, c)" by fastforce
  note chk = check_rule [OF doc ok c]
  obtain k2 d where d: "run (with_op (if rl_at_top r then ''-I'' else ''-A'') (rl_spec r)) k1 = (k2, d)" by fastforce
  show ?case
  proof (cases c)
    case None
    then have "assert_rules run rs k1 = (k', e)" using Cons.prems(1) c by simp
    with Cons.IH Cons.prems(2) have ih: "policy k' = policy k1" "\<And>tc. only_added rs tc (chain k1 tc) (chain k' tc)"
      "e = None \<longrightarrow> (\<forall>r \<in> set rs. rule_body r \<in> set (chain k' (rule_chain r)))" by auto
    moreover have "rule_body r \<in> set (chain k' (rule_chain r))"
      using chk None only_added_subset [OF ih(2), of "rule_chain r"] by auto
    ultimately show ?thesis using chk by (auto intro: only_added_mono)
  next
    case (Some u)
    then have new: "rule_body r \<notin> set (chain k (rule_chain r))" using chk by auto
    show ?thesis
    proof (cases d)
      case (Some v)
      then have "k' = k2" "e \<noteq> None" using Cons.prems(1) c d \<open>c = Some u\<close> by auto
      then show ?thesis using failed_rule [OF doc d [unfolded Some]] chk by (auto simp: only_added_refl)
    next
      case None
      then have run: "assert_rules run rs k2 = (k', e)" using Cons.prems(1) c d \<open>c = Some u\<close> by simp
      with Cons.IH Cons.prems(2) have ih: "policy k' = policy k2" "\<And>tc. only_added rs tc (chain k2 tc) (chain k' tc)"
        "e = None \<longrightarrow> (\<forall>r \<in> set rs. rule_body r \<in> set (chain k' (rule_chain r)))" by auto
      note add = add_rule [OF doc ok d [unfolded None]]
      have "only_added (r # rs) tc (chain k tc) (chain k' tc)" for tc
      proof (cases "tc = rule_chain r")
        case True
        show ?thesis
          using ih(2) [of tc] new add chk unfolding True
          by (cases "rl_at_top r") (simp_all add: only_added_top only_added_bottom)
      next
        case False
        then show ?thesis using ih(2) [of tc] add chk by (simp add: only_added_mono)
      qed
      moreover have "rule_body r \<in> set (chain k' (rule_chain r))"
        using only_added_subset [OF ih(2), of "rule_chain r"] add by (auto split: if_splits)
      ultimately show ?thesis using ih(1,3) add chk by auto
    qed
  qed
qed

lemma reassert_run:
  assumes doc: "iptables_documented run chain policy" and run: "reassert_firewall st run k = (k', e)"
  shows "(\<forall>tc. only_added (firewall_rules st) tc (chain k tc) (chain k' tc)) \<and>
    (policy k' = ''DROP'' \<or> (\<exists>u. e = Some (PolicyFailed u)) \<and> policy k' = policy k) \<and>
    (e = None \<longrightarrow> policy k' = ''DROP'' \<and> (\<forall>r \<in> set (firewall_rules st). rule_body r \<in> set (chain k' (rule_chain r))))"
proof -
  obtain k1 c where c: "run [''-P'', ''FORWARD'', ''DROP''] k = (k1, c)" by fastforce
  show ?thesis
  proof (cases c)
    case (Some u)
    then show ?thesis using failed_rule [OF doc c [unfolded Some]] assms(2) c
      by (auto simp: reassert_firewall_def only_added_refl)
  next
    case None
    have p: "chain k1 = chain k" "policy k1 = ''DROP''"
      using doc c None unfolding iptables_documented_def by (metis fst_conv snd_conv)+
    have "assert_rules run (firewall_rules st) k1 = (k', e)"
      using run c None by (simp add: reassert_firewall_def)
    from assert_rules_adds [OF doc this firewall_rules_ok] show ?thesis by (simp add: p)
  qed
qed


text \<open>A kernel to run the witnesses on: the chains and the policy of \<open>FORWARD\<close>.\<close>

type_synonym sample_filter = "(string \<times> string \<Rightarrow> string list list) \<times> string"

definition sample_iptables :: "sample_filter iptables" where
  "sample_iptables args k =
     (if length args = 3 then ((fst k, args ! 2), None)
      else let tc = (args ! 1, args ! 3); old = fst k tc; b = drop 4 args in
        if args ! 2 = ''-C'' then (k, if b \<in> set old then None else Some ''Bad rule'')
        else if args ! 2 = ''-A'' then (((fst k)(tc := old @ [b]), snd k), None)
        else (((fst k)(tc := (if b \<noteq> [] \<and> hd b = ''1'' then tl b else b) # old), snd k), None))"

lemma sample_iptables_documented: "iptables_documented sample_iptables fst snd"
  unfolding iptables_documented_def
  by (auto simp: sample_iptables_def Let_def is_option_def split: list.splits if_splits)

definition sample_relay :: relay_state where
  "sample_relay = \<lparr>InnerSubnet = ''10.77.0.0/16'', WAN = ''eth0'', Port = ''51820'', SetName = ''gnl-games'',
     RateLimit = ''64kb/s'', RateBurst = ''256kb''\<rparr>"


section \<open>After the installer\<close>

definition only_checks_fail :: "'s iptables \<Rightarrow> bool" where
  "only_checks_fail run \<longleftrightarrow> (\<forall>args k. snd (run args k) \<noteq> None \<longrightarrow> args ! 2 = ''-C'')"

lemma insert_verb:
  assumes "rule_ok r"
  shows "(take 2 (rl_spec r) @ [''-I'', rl_spec r ! 2, ''1''] @ drop 3 (rl_spec r)) ! 2 = ''-I''"
proof -
  obtain t c b where "rl_spec r = ''-t'' # t # c # b" using assms by (auto simp: rule_ok_def)
  then show ?thesis by (simp add: numeral_2_eq_2)
qed

lemma install_rules_chain:
  assumes doc: "iptables_documented run chain policy"
    and good: "only_checks_fail run"
  shows "\<forall>r \<in> set rs. rule_ok r \<Longrightarrow> distinct (map (\<lambda>r. (rule_chain r, rule_body r)) rs) \<Longrightarrow>
    chain (install_rules run rs k) tc =
      rev (map rule_body (filter (\<lambda>r. rule_chain r = tc \<and> rule_body r \<notin> set (chain k tc)) rs)) @ chain k tc"
proof (induction rs arbitrary: k)
  case (Cons r rs)
  have ok: "rule_ok r" using Cons.prems by simp
  obtain k1 c where c: "run (with_op ''-C'' (rl_spec r)) k = (k1, c)" by fastforce
  note chk = check_rule [OF doc ok c]
  show ?case
  proof (cases c)
    case None
    then have "rule_body r \<in> set (chain k (rule_chain r))" "install_rules run (r # rs) k = install_rules run rs k1"
      using chk c by simp_all
    moreover have "chain (install_rules run rs k1) tc =
      rev (map rule_body (filter (\<lambda>q. rule_chain q = tc \<and> rule_body q \<notin> set (chain k1 tc)) rs)) @ chain k1 tc"
      using Cons by simp
    ultimately show ?thesis using chk by (cases "rule_chain r = tc") simp_all
  next
    case (Some u)
    obtain k2 d where d: "run (take 2 (rl_spec r) @ [''-I'', rl_spec r ! 2, ''1''] @ drop 3 (rl_spec r)) k1 = (k2, d)"
      by fastforce
    have "d = None"
    proof (rule ccontr)
      assume "d \<noteq> None"
      then have "(take 2 (rl_spec r) @ [''-I'', rl_spec r ! 2, ''1''] @ drop 3 (rl_spec r)) ! 2 = ''-C''"
        using good d unfolding only_checks_fail_def by (metis snd_conv)
      then show False unfolding insert_verb [OF ok] by simp
    qed
    note ins = insert_rule [OF doc ok d [unfolded \<open>d = None\<close>]]
    have run: "install_rules run (r # rs) k = install_rules run rs k2" using c d Some \<open>d = None\<close> by simp
    have "chain (install_rules run rs k2) tc =
      rev (map rule_body (filter (\<lambda>q. rule_chain q = tc \<and> rule_body q \<notin> set (chain k2 tc)) rs)) @ chain k2 tc"
      using Cons by simp
    also have "filter (\<lambda>q. rule_chain q = tc \<and> rule_body q \<notin> set (chain k2 tc)) rs =
      filter (\<lambda>q. rule_chain q = tc \<and> rule_body q \<notin> set (chain k tc)) rs"
    proof (rule filter_cong)
      fix q assume q: "q \<in> set rs"
      have "(rule_chain q, rule_body q) \<noteq> (rule_chain r, rule_body r)"
        using q Cons.prems(2) by (auto simp: image_iff)
      then show "rule_chain q = tc \<and> rule_body q \<notin> set (chain k2 tc) \<longleftrightarrow> rule_chain q = tc \<and> rule_body q \<notin> set (chain k tc)"
        using ins chk by auto
    qed simp
    finally show ?thesis using ins chk Some unfolding run by (cases "rule_chain r = tc") simp_all
  qed
qed simp

text \<open>On a host whose \<open>FORWARD\<close> was empty the installer leaves both caps below both \<open>ACCEPT\<close>
  rules, because it puts each rule at position 1; and the agent, which only asks whether a rule is
  present, keeps them there for good. A packet that an \<open>ACCEPT\<close> matches never reaches a cap.\<close>

theorem installed_caps_stay_below:
  assumes doc: "iptables_documented run chain policy"
    and good: "only_checks_fail run"
    and empty: "chain k (''filter'', ''FORWARD'') = []"
    and "reassert_firewall st run (install_firewall st run k) = (k', e)"
  shows "map last (chain k' (''filter'', ''FORWARD'')) = [''ACCEPT'', ''ACCEPT'', ''DROP'', ''DROP''] \<and>
    chain k' (''filter'', ''FORWARD'') = rev (map rule_body (take 4 (firewall_rules st)))"
proof -
  let ?tc = "(''filter'', ''FORWARD'')" and ?k = "install_firewall st run k"
  obtain k1 c where p: "run [''-P'', ''FORWARD'', ''DROP''] k = (k1, c)" by fastforce
  then have "c = None" using spec [OF spec [OF good [unfolded only_checks_fail_def], of "[''-P'', ''FORWARD'', ''DROP'']"], of k]
    by (cases c) simp_all
  then have k1: "chain k1 = chain k" "?k = install_rules run (firewall_rules st) k1"
    using doc p unfolding iptables_documented_def install_firewall_def by (metis fst_conv snd_conv, simp)
  have "distinct (map (\<lambda>r. (rule_chain r, rule_body r)) (firewall_rules st))"
    by (simp add: firewall_rules_def cap_rule_def rule_chain_def rule_body_def)
  from install_rules_chain [OF doc good firewall_rules_ok this, of k1 ?tc]
  have inst: "chain ?k ?tc = rev (map rule_body (take 4 (firewall_rules st)))"
    using empty k1 by (simp add: firewall_rules_def cap_rule_def rule_chain_def)
  have "only_added (firewall_rules st) ?tc (chain ?k ?tc) (chain k' ?tc)"
    using reassert_run [OF doc assms(4)] by blast
  moreover have "rule_body ` {r \<in> set (firewall_rules st). rule_chain r = ?tc} \<subseteq> set (chain ?k ?tc)"
    unfolding inst by (auto simp: firewall_rules_def cap_rule_def rule_chain_def)
  ultimately have "chain k' ?tc = chain ?k ?tc" by (rule only_added_same)
  then show ?thesis unfolding inst by (simp add: firewall_rules_def cap_rule_def rule_body_def)
qed

theorem installed_caps_stay_below_witness:
  "let (k', e) = reassert_firewall sample_relay sample_iptables
       (install_firewall sample_relay sample_iptables ((\<lambda>_. []), ''ACCEPT''))
   in map last (fst k' (''filter'', ''FORWARD'')) = [''ACCEPT'', ''ACCEPT'', ''DROP'', ''DROP'']"
proof -
  let ?run = "reassert_firewall sample_relay sample_iptables
       (install_firewall sample_relay sample_iptables ((\<lambda>_. []), ''ACCEPT''))"
  have good: "only_checks_fail sample_iptables"
    by (auto simp: only_checks_fail_def sample_iptables_def Let_def split: if_splits)
  have "?run = (fst ?run, snd ?run)" by simp
  from installed_caps_stay_below [OF sample_iptables_documented good _ this, THEN conjunct1]
  have "map last (fst (fst ?run) (''filter'', ''FORWARD'')) = [''ACCEPT'', ''ACCEPT'', ''DROP'', ''DROP'']"
    by (simp del: rev.simps)
  then show ?thesis by (simp only: split_def Let_def)
qed

section \<open>Reading the state back\<close>

text \<open>A value that survives the file: one line, and nothing at its end that is trimmed.\<close>

definition plain_value :: "string \<Rightarrow> bool" where
  "plain_value v \<longleftrightarrow> CHR 0x0A \<notin> set v \<and> (v = [] \<or> printable (last v)) \<and> length v + 20 < max_token"

lemma split_on_lines:
  "\<forall>l \<in> set ls. CHR 0x0A \<notin> set l \<Longrightarrow> split_on (CHR 0x0A) (concat (map (\<lambda>l. l @ [CHR 0x0A]) ls)) = ls @ [[]]"
  by (induction ls) auto

lemma cut_key: "plain_value v \<Longrightarrow> CHR ''='' \<notin> set k \<Longrightarrow> k \<noteq> [] \<Longrightarrow> printable (hd k) \<Longrightarrow>
    cut (CHR ''='') (trim_space (drop_cr (k @ CHR ''='' # v))) = Some (k, v)"
proof -
  assume v: "plain_value v" and k: "CHR ''='' \<notin> set k" "k \<noteq> []" "printable (hd k)"
  have "printable (last (k @ CHR ''='' # v))"
    using v by (auto simp: plain_value_def) (simp_all add: printable_def byte_of_def)
  moreover have "\<not> printable (CHR 0x0D)" by (simp add: printable_def byte_of_def)
  ultimately have "drop_cr (k @ CHR ''='' # v) = k @ CHR ''='' # v" by (auto simp: drop_cr_def)
  moreover have "trim_space (k @ CHR ''='' # v) = k @ CHR ''='' # v"
    using \<open>printable (last _)\<close> k by (intro trim_space_printable) simp
  ultimately show ?thesis using k(1) by simp
qed

text \<open>C28. What the installer records is what the agent reads back: for values without line breaks or
  trailing blanks, loading the written file returns exactly the recorded state.\<close>

theorem relay_state_roundtrip:
  assumes "\<forall>v \<in> {iface, inner_ip, policy, InnerSubnet st, WAN st, Port st, SetName st, RateLimit st, RateBurst st}. plain_value v"
    and "[] \<notin> {InnerSubnet st, WAN st, Port st, SetName st, RateLimit st, RateBurst st}"
  shows "load_relay_state (Some (install_state iface inner_ip policy st)) = Inr st"
proof -
  let ?ls = "[''INNER_SUBNET='' @ InnerSubnet st, ''WAN='' @ WAN st, ''PORT='' @ Port st, ''IFACE='' @ iface,
        ''INNER_IP='' @ inner_ip, ''SETNAME='' @ SetName st, ''RATE_LIMIT='' @ RateLimit st,
        ''RATE_BURST='' @ RateBurst st, ''PREV_FORWARD_POLICY='' @ policy]"
  have lf: "\<forall>l \<in> set ?ls. CHR 0x0A \<notin> set l" using assms(1) by (simp add: plain_value_def)
  have lines: "scan_lines (install_state iface inner_ip policy st) = ?ls"
    unfolding scan_lines_def install_state_def split_on_lines [OF lf] by (simp add: Let_def)
  have short: "\<not> (\<exists>l \<in> set ?ls. length l \<ge> max_token)" using assms(1) by (simp add: plain_value_def)
  have p: "printable (CHR ''I'')" "printable (CHR ''W'')" "printable (CHR ''P'')" "printable (CHR ''S'')" "printable (CHR ''R'')"
    by (simp_all add: printable_def byte_of_def)
  have "cut (CHR ''='') (trim_space (drop_cr (''INNER_SUBNET='' @ InnerSubnet st))) = Some (''INNER_SUBNET'', InnerSubnet st)"
    "cut (CHR ''='') (trim_space (drop_cr (''WAN='' @ WAN st))) = Some (''WAN'', WAN st)"
    "cut (CHR ''='') (trim_space (drop_cr (''PORT='' @ Port st))) = Some (''PORT'', Port st)"
    "cut (CHR ''='') (trim_space (drop_cr (''IFACE='' @ iface))) = Some (''IFACE'', iface)"
    "cut (CHR ''='') (trim_space (drop_cr (''INNER_IP='' @ inner_ip))) = Some (''INNER_IP'', inner_ip)"
    "cut (CHR ''='') (trim_space (drop_cr (''SETNAME='' @ SetName st))) = Some (''SETNAME'', SetName st)"
    "cut (CHR ''='') (trim_space (drop_cr (''RATE_LIMIT='' @ RateLimit st))) = Some (''RATE_LIMIT'', RateLimit st)"
    "cut (CHR ''='') (trim_space (drop_cr (''RATE_BURST='' @ RateBurst st))) = Some (''RATE_BURST'', RateBurst st)"
    "cut (CHR ''='') (trim_space (drop_cr (''PREV_FORWARD_POLICY='' @ policy))) = Some (''PREV_FORWARD_POLICY'', policy)"
    using cut_key [of _ "''INNER_SUBNET''"] cut_key [of _ "''WAN''"] cut_key [of _ "''PORT''"] cut_key [of _ "''IFACE''"]
      cut_key [of _ "''INNER_IP''"] cut_key [of _ "''SETNAME''"] cut_key [of _ "''RATE_LIMIT''"]
      cut_key [of _ "''RATE_BURST''"] cut_key [of _ "''PREV_FORWARD_POLICY''"] assms(1) p by simp_all
  then have "foldl state_line no_state ?ls = st"
    by (simp add: state_line_def no_state_def)
  moreover have "InnerSubnet st \<noteq> []" "WAN st \<noteq> []" "Port st \<noteq> []" "SetName st \<noteq> []" "RateLimit st \<noteq> []" "RateBurst st \<noteq> []"
    using assms(2) by auto
  ultimately show ?thesis using short unfolding load_relay_state_def option.case Let_def lines
    by (simp only: if_False simp_thms) simp
qed

theorem relay_state_roundtrip_witness:
  "load_relay_state (Some (install_state ''wg0'' ''10.77.0.1'' ''ACCEPT'' sample_relay)) = Inr sample_relay"
  by (rule relay_state_roundtrip) (simp_all add: sample_relay_def plain_value_def max_token_def printable_def byte_of_def)

end
