(* ===== verification/Agent.thy ===== *)
theory Agent
  imports Wgsync Ipsetsync Firewall
begin

text \<open>
  \<open>internal/agent/loop.go\<close>: one pass of the relay's reconcile loop and the loop around it. The
  device, the control plane, the allowlist and the firewall are the arguments the Go code takes;
  what a pass leaves behind is shown for every device that keeps the contract of
  \<open>wg_device\<close>.
\<close>

section \<open>One pass\<close>

record ('d, 'e) device =
  dv_peers :: "'d \<Rightarrow> 'e + api_peer list"
  dv_apply :: "change \<Rightarrow> 'd \<Rightarrow> 'd \<times> 'e option"
  dv_stats :: "'d \<Rightarrow> 'e + wg_stats"

definition fake_dev :: "(fake_device, string) device" where
  "fake_dev = \<lparr>dv_peers = fake_peers, dv_apply = fake_apply, dv_stats = fake_stats\<rparr>"

datatype 'e peers_error = ReadPeersFailed 'e | ApplyPeersFailed 'e

datatype ('e, 'i, 'f) pass_error =
    SyncFailed string
  | PeersFailed "'e peers_error"
  | AllowlistFailed 'i
  | FirewallFailed 'f

text \<open>What a pass works on: the device, the syncer's memory and the kernel that holds the set and
  the firewall.\<close>

record ('d, 'k) relay_host =
  rh_dev :: 'd
  rh_sets :: syncer
  rh_kernel :: 'k

definition status_of :: "real \<Rightarrow> string \<Rightarrow> 'e + wg_stats \<Rightarrow> relay_status" where
  "status_of load version stats =
     (let st = (case stats of Inl _ \<Rightarrow> \<lparr>st_active = 0, st_total = 0, st_rx = 0, st_tx = 0\<rparr> | Inr s \<Rightarrow> s) in
      \<lparr>ActivePeers = st_active st, TotalPeers = st_total st, RxBytes = st_rx st, TxBytes = st_tx st,
       LoadAvg1 = load, AgentVersion = version\<rparr>)"

text \<open>The peers of the reply that pass \<open>Validate\<close>, and the part that brings the device to them.\<close>

definition valid_peers :: "api_peer list \<Rightarrow> api_peer list" where
  "valid_peers ps = filter (\<lambda>p. peer_validate p = None) ps"

definition reconcile :: "('d, 'e) device \<Rightarrow> api_peer list \<Rightarrow> 'd \<Rightarrow> 'd \<times> 'e peers_error option" where
  "reconcile dev desired d =
     (case dv_peers dev d of
        Inl e \<Rightarrow> (d, Some (ReadPeersFailed e))
      | Inr current \<Rightarrow>
          let c = diff current desired in
          if change_empty c then (d, None)
          else case dv_apply dev c d of
            (d', Some e) \<Rightarrow> (d', Some (ApplyPeersFailed e))
          | (d', None) \<Rightarrow> (d', None))"

text \<open>Multiplication of two \<open>time.Duration\<close> values wraps at 64 bits.\<close>

definition wrap64 :: "int \<Rightarrow> int" where
  "wrap64 i = (i + 2 ^ 63) mod 2 ^ 64 - 2 ^ 63"

definition run_once ::
    "('d, 'e) device \<Rightarrow> (relay_status \<Rightarrow> 'c \<Rightarrow> 'c \<times> (string + sync_response)) \<Rightarrow> (string \<Rightarrow> string)
     \<Rightarrow> (string \<Rightarrow> string list \<Rightarrow> 'k \<Rightarrow> 'k \<times> 'i option) \<Rightarrow> ('k \<Rightarrow> 'k \<times> 'f option) option
     \<Rightarrow> real \<Rightarrow> string \<Rightarrow> ('d, 'k) relay_host \<times> 'c
     \<Rightarrow> (('d, 'k) relay_host \<times> 'c) \<times> nanos \<times> ('e, 'i, 'f) pass_error list" where
  "run_once dev cp sha256 apply_set reassert load version st =
     (let (h, c) = st;
          (c', resp) = cp (status_of load version (dv_stats dev (rh_dev h))) c
      in case resp of
           Inl e \<Rightarrow> ((h, c'), 0, [SyncFailed e])
         | Inr r \<Rightarrow>
             let (d', e1) = reconcile dev (valid_peers (Peers r)) (rh_dev h);
                 ((sy', k1), e2) = sync_set sha256 apply_set (GameCIDRs r) (rh_sets h, rh_kernel h);
                 (k2, e3) = (case reassert of None \<Rightarrow> (k1, None) | Some f \<Rightarrow> f k1)
             in ((\<lparr>rh_dev = d', rh_sets = sy', rh_kernel = k2\<rparr>, c'), wrap64 (PollSecs r * second),
                 (case e1 of None \<Rightarrow> [] | Some e \<Rightarrow> [PeersFailed e]) @ (case e2 of None \<Rightarrow> [] | Some e \<Rightarrow> [AllowlistFailed e])
                 @ (case e3 of None \<Rightarrow> [] | Some e \<Rightarrow> [FirewallFailed e])))"

section \<open>The loop\<close>

text \<open>One turn of \<open>Loop\<close>: a pass, then the interval until the next one.\<close>

definition next_interval :: "nanos \<Rightarrow> nanos \<Rightarrow> nanos" where
  "next_interval next interval = (if next > 0 \<and> next \<noteq> interval then next else interval)"

text \<open>\<open>Loop\<close> until it is cancelled after \<open>n\<close> passes, with the state and the interval it then
  has; a pass is any function of the state.\<close>

fun loop :: "('s \<Rightarrow> 's \<times> nanos \<times> 'e list) \<Rightarrow> nat \<Rightarrow> 's \<times> nanos \<Rightarrow> 's \<times> nanos" where
  "loop pass 0 (s, interval) = (s, interval)"
| "loop pass (Suc n) (s, interval) =
     (let (s', next, errs) = pass s in loop pass n (s', next_interval next interval))"

section \<open>The control plane as the loop sees it\<close>

text \<open>\<open>HTTPSyncer.Sync\<close> after the transport has answered with a status line, its code, and the body
  as the value it decodes to: an \<open>ErrorResponse\<close> (empty fields when it does not decode) or, on
  success, a \<open>SyncResponse\<close> or nothing.\<close>

definition sync_url :: "string \<Rightarrow> string" where
  "sync_url base = trim_suffix base ''/'' @ ''/v1/relay/sync''"

definition http_sync :: "nat \<Rightarrow> string \<Rightarrow> string \<times> string \<Rightarrow> sync_response option \<Rightarrow> string + sync_response" where
  "http_sync code status_line err_body ok_body =
     (if code \<noteq> 200 then
        let (e, hint) = err_body; msg = (if e = [] then status_line else e) in
        Inl (if hint \<noteq> [] then ''control plane: '' @ msg @ '' ('' @ hint @ '')'' else ''control plane: '' @ msg)
      else case ok_body of None \<Rightarrow> Inl ''control plane: malformed response'' | Some r \<Rightarrow> Inr r)"

section \<open>Starting the agent\<close>

text \<open>\<open>cmd/gnl-agent\<close>: what the program needs before it enters the loop. Without a readable state
  file it runs, but re-asserts no firewall.\<close>

datatype start_error = ControlRequired | TokenUnreadable | TokenEmpty | NoDevice

definition agent_start ::
    "string \<Rightarrow> string option \<Rightarrow> bool \<Rightarrow> string option \<Rightarrow> 'k iptables \<Rightarrow>
     start_error + string \<times> ('k \<Rightarrow> 'k \<times> assert_error option) option" where
  "agent_start control token_file wg_open state_file run =
     (if control = [] then Inl ControlRequired
      else case token_file of None \<Rightarrow> Inl TokenUnreadable
      | Some raw \<Rightarrow>
          let token = trim_space raw in
          if token = [] then Inl TokenEmpty
          else if \<not> wg_open then Inl NoDevice
          else Inr (token, case load_relay_state state_file of
                 Inl _ \<Rightarrow> None
               | Inr st \<Rightarrow> Some (reassert_firewall st run)))"

section \<open>Properties of a pass\<close>

lemma run_once_failed:
  "cp (status_of load version (dv_stats dev (rh_dev h))) c = (c', Inl e) \<Longrightarrow>
   run_once dev cp sha256 apply_set reassert load version (h, c) = ((h, c'), 0, [SyncFailed e])"
  by (simp add: run_once_def)

lemma run_onceE:
  assumes "cp (status_of load version (dv_stats dev (rh_dev h))) c = (c', Inr r)"
    and "run_once dev cp sha256 apply_set reassert load version (h, c) = ((h', c''), next, errs)"
  obtains e1 e2 e3 k1 where "c'' = c'" "next = wrap64 (PollSecs r * second)"
    "reconcile dev (valid_peers (Peers r)) (rh_dev h) = (rh_dev h', e1)"
    "sync_set sha256 apply_set (GameCIDRs r) (rh_sets h, rh_kernel h) = ((rh_sets h', k1), e2)"
    "(case reassert of None \<Rightarrow> (k1, None) | Some f \<Rightarrow> f k1) = (rh_kernel h', e3)"
    "errs = (case e1 of None \<Rightarrow> [] | Some e \<Rightarrow> [PeersFailed e]) @ (case e2 of None \<Rightarrow> [] | Some e \<Rightarrow> [AllowlistFailed e])
       @ (case e3 of None \<Rightarrow> [] | Some e \<Rightarrow> [FirewallFailed e])"
proof -
  obtain d' e1 where a: "reconcile dev (valid_peers (Peers r)) (rh_dev h) = (d', e1)" by fastforce
  obtain sy' k1 e2 where b: "sync_set sha256 apply_set (GameCIDRs r) (rh_sets h, rh_kernel h) = ((sy', k1), e2)"
    by (metis prod.exhaust)
  obtain k2 e3 where f: "(case reassert of None \<Rightarrow> (k1, None) | Some f \<Rightarrow> f k1) = (k2, e3)" by fastforce
  show ?thesis
    using assms(2) by (intro that [of e1 k1 e2 e3]) (auto simp: run_once_def assms(1) a b f)
qed

context wg_device
begin

lemma reconcile_reaches:
  assumes "dv_peers dev = peers" "dv_apply dev = apply_change" "sound d" "inj_on PublicKey (set desired)"
    "suits desired" "reconcile dev desired d = (d', None)"
  shows "held d' = peer_map desired"
proof -
  obtain current where p: "peers d = Inr current" using assms(1,6) by (auto simp: reconcile_def split: sum.splits)
  show ?thesis
  proof (cases "change_empty (diff current desired)")
    case True
    then have "d' = d" using assms(1,6) p by (simp add: reconcile_def)
    moreover have "change_map (diff current desired) (peer_map current) = peer_map current"
      using True by (simp add: change_empty_def change_map_def)
    ultimately show ?thesis using diff_reaches [OF assms(4), of current] peers_held [OF assms(3) p] by simp
  next
    case False
    then have "apply_change (diff current desired) d = (d', None)"
      using assms(1,2,6) p by (auto simp: reconcile_def Let_def split: prod.splits option.splits)
    then show ?thesis by (rule diff_applied [OF assms(3) p assms(4,5)])
  qed
qed

lemma reconcile_sound:
  assumes "dv_peers dev = peers" "dv_apply dev = apply_change" "sound d" "reconcile dev desired d = (d', r)"
  shows "sound d'"
  using assms(4) apply_sound [OF assms(3)] assms(3) unfolding reconcile_def assms(1,2)
  by (auto simp: Let_def split: sum.splits if_splits prod.splits option.splits)

end

context wg_device_atomic
begin

lemma reconcile_failed:
  assumes "dv_peers dev = peers" "dv_apply dev = apply_change" "sound d" "reconcile dev desired d = (d', Some e)"
  shows "held d' = held d"
  using assms(4) apply_refused [OF assms(3)] unfolding reconcile_def assms(1,2)
  by (auto simp: Let_def split: sum.splits if_splits prod.splits option.splits)

end

lemma fake_dev_simps [simp]:
  "dv_peers fake_dev = fake_peers" "dv_apply fake_dev = fake_apply" "dv_stats fake_dev = fake_stats"
  by (simp_all add: fake_dev_def)

text \<open>A pass whose sync fails touches nothing on the host. One whose sync succeeds brings the
  device to exactly the valid peers of the reply, or leaves what it holds alone when the device
  fails; the allowlist and the firewall are handled the same way whatever happened before them.
  This holds for every device that keeps the contract \<open>wg_device_atomic\<close>.\<close>

theorem pass_parts_independent:
  assumes "wg_device_atomic (dv_peers dev) (dv_apply dev) held sound suits" "sound (rh_dev h)"
    and "cp (status_of load version (dv_stats dev (rh_dev h))) c = (c1, resp)"
    and "run_once dev cp sha256 apply_set reassert load version (h, c) = ((h', c'), next, errs)"
  shows "(\<forall>e. resp = Inl e \<longrightarrow> h' = h \<and> next = 0 \<and> errs = [SyncFailed e]) \<and>
    (\<forall>r. resp = Inr r \<longrightarrow> sound (rh_dev h') \<and>
       (if \<exists>e. PeersFailed e \<in> set errs then held (rh_dev h') = held (rh_dev h)
        else inj_on PublicKey (set (valid_peers (Peers r))) \<and> suits (valid_peers (Peers r)) \<longrightarrow> held (rh_dev h') = peer_map (valid_peers (Peers r))) \<and>
       rh_sets h' = fst (fst (sync_set sha256 apply_set (GameCIDRs r) (rh_sets h, rh_kernel h))) \<and>
       rh_kernel h' = (let k = snd (fst (sync_set sha256 apply_set (GameCIDRs r) (rh_sets h, rh_kernel h)))
                       in case reassert of None \<Rightarrow> k | Some f \<Rightarrow> fst (f k)))"
proof (cases resp)
  case (Inl e)
  then show ?thesis using assms(3,4) by (auto simp: run_once_failed)
next
  case (Inr r)
  obtain e1 e2 e3 k1 where p: "reconcile dev (valid_peers (Peers r)) (rh_dev h) = (rh_dev h', e1)"
    "sync_set sha256 apply_set (GameCIDRs r) (rh_sets h, rh_kernel h) = ((rh_sets h', k1), e2)"
    "(case reassert of None \<Rightarrow> (k1, None) | Some f \<Rightarrow> f k1) = (rh_kernel h', e3)"
    "errs = (case e1 of None \<Rightarrow> [] | Some e \<Rightarrow> [PeersFailed e]) @ (case e2 of None \<Rightarrow> [] | Some e \<Rightarrow> [AllowlistFailed e])
       @ (case e3 of None \<Rightarrow> [] | Some e \<Rightarrow> [FirewallFailed e])"
    by (rule run_onceE [OF assms(3) [unfolded Inr] assms(4)]) blast
  have dev: "wg_device (dv_peers dev) (dv_apply dev) held sound suits" using assms(1) by (rule wg_device_atomic.axioms(1))
  have "(\<exists>e. PeersFailed e \<in> set errs) \<longleftrightarrow> e1 \<noteq> None"
    unfolding p(4) by (auto split: option.splits)
  moreover have "held (rh_dev h') = held (rh_dev h)" if "e1 \<noteq> None"
    using that p(1) wg_device_atomic.reconcile_failed [OF assms(1) refl refl assms(2)] by auto
  moreover have "held (rh_dev h') = peer_map (valid_peers (Peers r))"
    if "e1 = None" "inj_on PublicKey (set (valid_peers (Peers r)))" "suits (valid_peers (Peers r))"
    using wg_device.reconcile_reaches [OF dev refl refl assms(2) that(2,3)] p(1) that(1) by simp
  moreover have "sound (rh_dev h')"
    by (rule wg_device.reconcile_sound [OF dev refl refl assms(2) p(1)])
  moreover have "rh_kernel h' = (let k = k1 in case reassert of None \<Rightarrow> k | Some f \<Rightarrow> fst (f k))"
    using p(3) by (cases reassert) (auto simp: Let_def)
  ultimately show ?thesis using Inr p(2) by (cases reassert) (simp_all add: Let_def)
qed

definition sample_reply :: sync_response where
  "sample_reply = \<lparr>Peers = [\<lparr>PublicKey = ''B'', InnerIP = ''10.77.0.3/32''\<rparr>, \<lparr>PublicKey = ''X'', InnerIP = ''0.0.0.0/0''\<rparr>],
     GameCIDRs = [''13.0.0.0/8''], PollSecs = 30\<rparr>"

definition sample_host :: "(fake_device, string \<rightharpoonup> string set) relay_host" where
  "sample_host = \<lparr>rh_dev = \<lparr>fd_peers = [(''A'', ''10.77.0.2/32'')], fd_err = None\<rparr>, rh_sets = new_syncer ''games'',
     rh_kernel = Map.empty\<rparr>"

theorem pass_parts_independent_witness:
  "let out = run_once fake_dev (\<lambda>s n. (n + 1, Inr sample_reply)) (\<lambda>u. CHR ''h'' # u) (apply_with_ipset sample_ipset)
       (None :: (_ \<Rightarrow> _ \<times> unit option) option) 0 ''dev'' (sample_host, 0 :: nat)
   in map_of (fd_peers (rh_dev (fst (fst out)))) = [''B'' \<mapsto> ''10.77.0.3/32''] \<and> snd (snd out) = []"
proof -
  define out where "out = run_once fake_dev (\<lambda>s n. (n + 1, Inr sample_reply)) (\<lambda>u. CHR ''h'' # u)
    (apply_with_ipset sample_ipset) (None :: (_ \<Rightarrow> _ \<times> unit option) option) 0 ''dev'' (sample_host, 0 :: nat)"
  have out: "run_once fake_dev (\<lambda>s n. (n + 1, Inr sample_reply)) (\<lambda>u. CHR ''h'' # u)
    (apply_with_ipset sample_ipset) (None :: (_ \<Rightarrow> _ \<times> unit option) option) 0 ''dev'' (sample_host, 0 :: nat) =
    ((fst (fst out), snd (fst out)), fst (snd out), snd (snd out))" by (simp add: out_def)
  have dev: "wg_device_atomic (dv_peers fake_dev) (dv_apply fake_dev) (\<lambda>d. map_of (fd_peers d)) fake_ok (\<lambda>_. True)"
    by (simp add: fake.wg_device_atomic_axioms)
  have "fake_ok (rh_dev sample_host)" by (simp add: sample_host_def fake_ok_def)
  note spec = pass_parts_independent [OF dev this refl out, simplified]
  have v: "valid_peers (Peers sample_reply) = [\<lparr>PublicKey = ''B'', InnerIP = ''10.77.0.3/32''\<rparr>]" by code_simp
  have e: "snd (snd out) = []" unfolding out_def by code_simp
  then have "map_of (fd_peers (rh_dev (fst (fst out)))) = peer_map (valid_peers (Peers sample_reply))"
    using spec by (simp add: v)
  also have "\<dots> = [''B'' \<mapsto> ''10.77.0.3/32'']" by (rule ext) (simp add: v peer_map_def last_by_def)
  finally show ?thesis using e unfolding out_def [symmetric] Let_def by simp
qed

section \<open>Outages\<close>

text \<open>C29. However long the control plane is away, the loop keeps the device, the allowlist, the
  firewall and the polling interval exactly as they were: an outage disconnects nobody.\<close>

theorem outage_disconnects_nobody:
  assumes "\<And>s c. \<exists>c' e. cp s c = (c', Inl e)"
  shows "\<exists>c'. loop (run_once dev cp sha256 apply_set reassert load version) n ((h, c), interval) = ((h, c'), interval)"
proof (induction n arbitrary: c)
  case (Suc n)
  obtain c1 e where "cp (status_of load version (dv_stats dev (rh_dev h))) c = (c1, Inl e)" using assms by blast
  then have "run_once dev cp sha256 apply_set reassert load version (h, c) = ((h, c1), 0, [SyncFailed e])"
    by (rule run_once_failed)
  then show ?case using Suc by (simp add: next_interval_def)
qed simp

theorem outage_disconnects_nobody_witness:
  "\<exists>c'. loop (run_once fake_dev (\<lambda>s n. (n + 1, Inl ''no route'')) (\<lambda>u. u) (apply_with_ipset sample_ipset)
      (None :: (_ \<Rightarrow> _ \<times> unit option) option) 0 ''dev'') 3 ((sample_host, 0 :: nat), 10 * second) = ((sample_host, c'), 10 * second)"
  by (rule outage_disconnects_nobody) blast

end
