(* ===== verification/Wg_Kernel.thy ===== *)
theory Wg_Kernel
  imports Agent
begin

text \<open>
  The device a relay runs with: \<open>wgctlDevice\<close> of \<open>internal/wgsync/apply.go\<close> over the kernel's WireGuard
  interface. The library \<open>wgctrl\<close> and the kernel are parameters: \<open>parse_key\<close> and \<open>key_string\<close> are
  \<open>wgtypes.ParseKey\<close> and \<open>Key.String\<close>, \<open>read\<close> is \<open>Client.Device\<close>, \<open>configure\<close> is
  \<open>ConfigureDevice\<close>.
\<close>

record ('k, 's) wgctrl =
  parse_key :: "string \<Rightarrow> 'k option"
  key_string :: "'k \<Rightarrow> string"
  read_device :: "'s \<Rightarrow> 'k kernel_peer list option"
  configure_device :: "'k peer_config list \<Rightarrow> 's \<Rightarrow> 's \<times> bool"
  clock_now :: "'s \<Rightarrow> nanos"

definition kernel_dev :: "('k, 's) wgctrl \<Rightarrow> ('s, apply_error) device" where
  "kernel_dev w =
     \<lparr>dv_peers = (\<lambda>s. case read_device w s of None \<Rightarrow> Inl DeviceUnreadable | Some ps \<Rightarrow> Inr (wgctl_peers (key_string w) ps)),
      dv_apply = wgctl_apply (parse_key w) (configure_device w),
      dv_stats = (\<lambda>s. case read_device w s of None \<Rightarrow> Inl DeviceUnreadable | Some ps \<Rightarrow> Inr (wgctl_stats (clock_now w s) ps))\<rparr>"

section \<open>What the kernel promises\<close>

text \<open>One peer configuration: a peer asked to be removed goes; any other gets the prefixes, which no other peer
  keeps, since a prefix belongs to one peer. The interface's own key \<open>own\<close> is not taken as a peer.\<close>

definition configured :: "'k \<Rightarrow> ('k \<rightharpoonup> prefix list) \<Rightarrow> 'k peer_config \<Rightarrow> ('k \<rightharpoonup> prefix list)" where
  "configured own m c =
     (if pc_key c = own then m
      else if pc_remove c then m(pc_key c := None)
      else
        let keep = filter (\<lambda>n. n \<notin> set (pc_allowed c));
            mine = (if pc_replace_allowed c then [] else case m (pc_key c) of None \<Rightarrow> [] | Some ns \<Rightarrow> ns)
        in (\<lambda>q. if q = pc_key c then Some (keep mine @ pc_allowed c) else map_option keep (m q)))"

text \<open>\<open>conf\<close> is the kernel's table of peers. The device reports exactly that; an accepted configuration
  takes effect in its order; a key's text reads back as the key.\<close>

definition wgctrl_documented :: "('k, 's) wgctrl \<Rightarrow> 'k \<Rightarrow> ('s \<Rightarrow> ('k \<rightharpoonup> prefix list)) \<Rightarrow> bool" where
  "wgctrl_documented w own conf \<longleftrightarrow>
     (\<forall>k. parse_key w (key_string w k) = Some k) \<and>
     (\<forall>s. conf s own = None) \<and>
     (\<forall>s ps. read_device w s = Some ps \<longrightarrow> distinct (map kp_key ps) \<and>
        conf s = map_of (map (\<lambda>p. (kp_key p, kp_allowed p)) ps)) \<and>
     (\<forall>s s' cfgs. configure_device w cfgs s = (s', True) \<longrightarrow> conf s' = foldl (configured own) (conf s) cfgs)"

text \<open>What the interface holds, in the texts the agent compares.\<close>

definition kernel_held :: "('k, 's) wgctrl \<Rightarrow> ('s \<Rightarrow> ('k \<rightharpoonup> prefix list)) \<Rightarrow> 's \<Rightarrow> (string \<rightharpoonup> string)" where
  "kernel_held w conf s = (\<lambda>q. case parse_key w q of
     None \<Rightarrow> None
   | Some k \<Rightarrow> if key_string w k = q then map_option (\<lambda>ns. join '','' (map ipnet_string ns)) (conf s k) else None)"

text \<open>Peers the interface can represent: each key the standard text of another key than its own, each
  address the text of a host, no two the same.\<close>

definition key_text :: "('k, 's) wgctrl \<Rightarrow> 'k \<Rightarrow> string \<Rightarrow> bool" where
  "key_text w own q \<longleftrightarrow> (\<exists>k. parse_key w q = Some k \<and> key_string w k = q \<and> k \<noteq> own)"

definition kernel_suits :: "('k, 's) wgctrl \<Rightarrow> 'k \<Rightarrow> api_peer list \<Rightarrow> bool" where
  "kernel_suits w own ps \<longleftrightarrow> inj_on InnerIP (set ps) \<and>
     (\<forall>p \<in> set ps. key_text w own (PublicKey p) \<and> (\<exists>a. InnerIP p = pfx_string (Prefix (V4 a) 32)))"

section \<open>The effect of a configuration\<close>

lemma masked_host: "masked (Prefix (V4 a) 32) = Prefix (V4 a) 32"
  by (simp add: v4_mask_def)

lemma comma_not_in_host: "CHR '','' \<notin> set (pfx_string (Prefix (V4 a) 32))"
  by (auto simp: v4_string_def is_digit_def byte_of_def dest!: set_dec_digit)

lemma join_comma: "join '','' ns = s \<Longrightarrow> CHR '','' \<notin> set s \<Longrightarrow> s \<noteq> [] \<Longrightarrow> ns = [s]"
  by (cases ns rule: list.exhaust [OF _, case_names Nil Cons]; cases "tl ns") auto

lemma upsert_configs_all:
  assumes "\<And>p. p \<in> set ps \<Longrightarrow> pk (PublicKey p) = Some (K p) \<and> parse_cidr (InnerIP p) = Some (N p)"
  shows "upsert_configs pk ps =
    Inr (map (\<lambda>p. \<lparr>pc_key = K p, pc_remove = False, pc_replace_allowed = True, pc_allowed = [N p]\<rparr>) ps)"
  using assms by (induction ps) simp_all

lemma foldl_upserts:
  fixes m :: "'k \<rightharpoonup> prefix list"
  assumes "inj_on K (set ps)" "inj_on N (set ps)" "own \<notin> K ` set ps"
    and m': "m' = foldl (configured own) m (map (\<lambda>p. \<lparr>pc_key = K p, pc_remove = False, pc_replace_allowed = True, pc_allowed = [N p]\<rparr>) ps)"
  shows "(\<forall>p \<in> set ps. m' (K p) = Some [N p]) \<and>
    (\<forall>k. k \<notin> K ` set ps \<longrightarrow> m' k = map_option (filter (\<lambda>n. n \<notin> N ` set ps)) (m k))"
  using assms(1-3) unfolding m'
proof (induction ps rule: rev_induct)
  case Nil
  then show ?case by (simp add: option.map_ident)
next
  case (snoc x ps)
  let ?m = "foldl (configured own) m (map (\<lambda>p. \<lparr>pc_key = K p, pc_remove = False, pc_replace_allowed = True, pc_allowed = [N p]\<rparr>) ps)"
  have IH: "\<And>p. p \<in> set ps \<Longrightarrow> ?m (K p) = Some [N p]"
    "\<And>k. k \<notin> K ` set ps \<Longrightarrow> ?m k = map_option (filter (\<lambda>n. n \<notin> N ` set ps)) (m k)"
    using snoc by auto
  have same: "K p = K x \<longleftrightarrow> p = x" "N p = N x \<longleftrightarrow> p = x" if "p \<in> set ps" for p
    using inj_onD [OF snoc.prems(1), of p x] inj_onD [OF snoc.prems(2), of p x] that by auto
  have "K x \<noteq> own" using snoc.prems(3) by auto
  then have step: "configured own ?m \<lparr>pc_key = K x, pc_remove = False, pc_replace_allowed = True, pc_allowed = [N x]\<rparr> =
      (\<lambda>q. if q = K x then Some [N x] else map_option (filter (\<lambda>n. n \<noteq> N x)) (?m q))"
    by (simp add: configured_def Let_def cong: if_cong)
  show ?case
    using IH same by (auto simp: step filter_filter option.map_comp comp_def conj_commute intro!: option.map_cong filter_cong)
qed

lemma foldl_removes:
  "foldl (configured own) m (remove_configs pk ks) k = (if k \<noteq> own \<and> (\<exists>q \<in> set ks. pk q = Some k) then None else m k)"
proof (induction ks arbitrary: m)
  case (Cons q ks)
  then show ?case
    by (cases "pk q") (auto simp: remove_configs_def List.map_filter_simps configured_def)
qed (simp add: remove_configs_def List.map_filter_simps)

lemma kernel_peers_held:
  assumes doc: "wgctrl_documented w own conf" and r: "read_device w s = Some ps"
  shows "peer_map (wgctl_peers (key_string w) ps) = kernel_held w conf s"
proof
  fix q
  have inv: "parse_key w (key_string w k) = Some k" for k using doc by (simp add: wgctrl_documented_def)
  have d: "distinct (map kp_key ps)" and c: "conf s = map_of (map (\<lambda>p. (kp_key p, kp_allowed p)) ps)"
    using doc r by (simp_all add: wgctrl_documented_def)
  let ?peer = "\<lambda>p. \<lparr>PublicKey = key_string w (kp_key p), InnerIP = join '','' (map ipnet_string (kp_allowed p))\<rparr>"
  have keyinj: "a = b" if "key_string w a = key_string w b" for a b using that inv by (metis option.inject)
  have inj: "inj_on PublicKey (set (wgctl_peers (key_string w) ps))"
    using d by (auto simp: wgctl_peers_def inj_on_def distinct_map dest!: keyinj)
  show "peer_map (wgctl_peers (key_string w) ps) q = kernel_held w conf s q"
  proof (cases "\<exists>p \<in> set ps. key_string w (kp_key p) = q")
    case True
    then obtain p where p: "p \<in> set ps" "key_string w (kp_key p) = q" by blast
    then have "?peer p \<in> set (wgctl_peers (key_string w) ps)" by (auto simp: wgctl_peers_def)
    from peer_map_inj [OF inj this] have "peer_map (wgctl_peers (key_string w) ps) q = Some (InnerIP (?peer p))" using p by simp
    moreover have "conf s (kp_key p) = Some (kp_allowed p)"
      unfolding c by (rule map_of_is_SomeI) (use d p in \<open>auto simp: comp_def\<close>)
    ultimately show ?thesis using inv p by (auto simp: kernel_held_def)
  next
    case False
    then have "peer_map (wgctl_peers (key_string w) ps) q = None" by (auto simp: peer_map_None wgctl_peers_def)
    moreover have "conf s k = None" if "key_string w k = q" for k
      using False that by (auto simp: c map_of_eq_None_iff)
    ultimately show ?thesis by (auto simp: kernel_held_def split: option.split)
  qed
qed

section \<open>What the agent sends\<close>

definition peer_key :: "('k, 's) wgctrl \<Rightarrow> api_peer \<Rightarrow> 'k" where
  "peer_key w p = the (parse_key w (PublicKey p))"

definition peer_net :: "api_peer \<Rightarrow> prefix" where
  "peer_net p = the (parse_cidr (InnerIP p))"

lemma suits_key:
  assumes "kernel_suits w own ps" "p \<in> set ps"
  shows "parse_key w (PublicKey p) = Some (peer_key w p)" "key_string w (peer_key w p) = PublicKey p" "peer_key w p \<noteq> own"
  using assms by (auto simp: kernel_suits_def key_text_def peer_key_def)

lemma suits_net:
  assumes "kernel_suits w own ps" "p \<in> set ps"
  shows "parse_cidr (InnerIP p) = Some (peer_net p)" "ipnet_string (peer_net p) = InnerIP p"
    "CHR '','' \<notin> set (InnerIP p)" "InnerIP p \<noteq> []"
proof -
  have "\<exists>a. InnerIP p = pfx_string (Prefix (V4 a) 32)" using assms unfolding kernel_suits_def by blast
  then obtain a where a: "InnerIP p = pfx_string (Prefix (V4 a) 32)" ..
  then show "parse_cidr (InnerIP p) = Some (peer_net p)" "ipnet_string (peer_net p) = InnerIP p"
    using masked_host [of a] parse_cidr_string [of 32 a] by (simp_all add: peer_net_def del: masked.simps pfx_string.simps)
  show "CHR '','' \<notin> set (InnerIP p)" "InnerIP p \<noteq> []" unfolding a using comma_not_in_host by simp_all
qed

lemma suits_inj:
  assumes suits: "kernel_suits w own ps" and inj: "inj_on PublicKey (set ps)" and sub: "set us \<subseteq> set ps"
  shows "inj_on (peer_key w) (set us)" "inj_on peer_net (set us)"
proof -
  have i: "inj_on InnerIP (set ps)" using suits by (simp add: kernel_suits_def)
  show "inj_on (peer_key w) (set us)"
  proof (rule inj_onI)
    fix x y assume a: "x \<in> set us" "y \<in> set us" "peer_key w x = peer_key w y"
    have d: "x \<in> set ps" "y \<in> set ps" using a(1,2) sub by blast+
    have "PublicKey x = PublicKey y" using suits_key(2) [OF suits d(1)] suits_key(2) [OF suits d(2)] a(3) by simp
    then show "x = y" by (rule inj_onD [OF inj _ d])
  qed
  show "inj_on peer_net (set us)"
  proof (rule inj_onI)
    fix x y assume a: "x \<in> set us" "y \<in> set us" "peer_net x = peer_net y"
    have d: "x \<in> set ps" "y \<in> set ps" using a(1,2) sub by blast+
    have "InnerIP x = InnerIP y" using suits_net(2) [OF suits d(1)] suits_net(2) [OF suits d(2)] a(3) by simp
    then show "x = y" by (rule inj_onD [OF i _ d])
  qed
qed

text \<open>The kernel's table after an accepted batch: what was sent, what was removed, and the rest without the
  prefixes that moved.\<close>

lemma apply_conf:
  assumes doc: "wgctrl_documented w own conf" and suits: "kernel_suits w own ps" and inj: "inj_on PublicKey (set ps)"
    and sub: "set (ch_add c @ ch_update c) \<subseteq> set ps" and change: "\<not> change_empty c"
    and run: "wgctl_apply (parse_key w) (configure_device w) c s = (s', None)"
    and kept: "\<not> (k \<noteq> own \<and> (\<exists>q \<in> set (ch_remove c). parse_key w q = Some k))"
  shows "p \<in> set (ch_add c @ ch_update c) \<Longrightarrow> k = peer_key w p \<Longrightarrow> conf s' k = Some [peer_net p]"
    and "k \<notin> peer_key w ` set (ch_add c @ ch_update c) \<Longrightarrow>
      conf s' k = map_option (filter (\<lambda>n. n \<notin> peer_net ` set (ch_add c @ ch_update c))) (conf s k)"
proof -
  let ?ups = "ch_add c @ ch_update c"
  let ?cfg = "\<lambda>p. \<lparr>pc_key = peer_key w p, pc_remove = False, pc_replace_allowed = True, pc_allowed = [peer_net p]\<rparr>"
  have cfgs: "upsert_configs (parse_key w) ?ups = Inr (map ?cfg ?ups)"
    by (rule upsert_configs_all) (use suits_key(1) [OF suits] suits_net(1) [OF suits] sub in blast)
  have "own \<notin> peer_key w ` set ?ups" using suits_key(3) [OF suits] sub by fastforce
  note up = foldl_upserts [OF suits_inj [OF suits inj sub] this refl]
  have "conf s' = foldl (configured own) (conf s) (map ?cfg ?ups @ remove_configs (parse_key w) (ch_remove c))"
    using run change doc cfgs by (auto simp: wgctl_apply_def Let_def wgctrl_documented_def split: prod.splits if_splits)
  then have "conf s' k = foldl (configured own) (conf s) (map ?cfg ?ups) k"
    by (simp only: foldl_append foldl_removes kept if_False)
  then show "p \<in> set ?ups \<Longrightarrow> k = peer_key w p \<Longrightarrow> conf s' k = Some [peer_net p]"
    and "k \<notin> peer_key w ` set ?ups \<Longrightarrow>
      conf s' k = map_option (filter (\<lambda>n. n \<notin> peer_net ` set ?ups)) (conf s k)"
    using up by (simp_all del: map_append)
qed

lemma apply_conf_removed:
  assumes "wgctrl_documented w own conf"
    and "\<not> change_empty c" "wgctl_apply (parse_key w) (configure_device w) c s = (s', None)"
    and "q \<in> set (ch_remove c)" "parse_key w q = Some k" "k \<noteq> own"
  shows "conf s' k = None"
proof -
  obtain cfgs where cfgs: "upsert_configs (parse_key w) (ch_add c @ ch_update c) = Inr cfgs"
    using assms(3) by (cases "upsert_configs (parse_key w) (ch_add c @ ch_update c)") (use assms(2) in \<open>auto simp: wgctl_apply_def\<close>)
  have "conf s' = foldl (configured own) (conf s) (cfgs @ remove_configs (parse_key w) (ch_remove c))"
    using assms(1-3) cfgs by (auto simp: wgctl_apply_def Let_def wgctrl_documented_def split: prod.splits if_splits)
  then show ?thesis using assms(4-6) by (auto simp: foldl_removes)
qed

section \<open>The contract\<close>

text \<open>A peer that is already right stays right: none of the prefixes sent is its own.\<close>

lemma kept_peer:
  assumes suits: "kernel_suits w own ps" and sub: "set us \<subseteq> set ps" and p: "p \<in> set ps" "p \<notin> set us"
    and ns: "join '','' (map ipnet_string ns) = InnerIP p"
  shows "filter (\<lambda>n. n \<notin> peer_net ` set us) ns = ns"
proof -
  have one: "map ipnet_string ns = [InnerIP p]" by (rule join_comma [OF ns suits_net(3,4) [OF suits p(1)]])
  have "n \<notin> peer_net ` set us" if "n \<in> set ns" for n
  proof
    assume "n \<in> peer_net ` set us"
    then obtain y where y: "y \<in> set us" "n = peer_net y" by blast
    have d: "y \<in> set ps" using y(1) sub by blast
    have "ipnet_string n \<in> set (map ipnet_string ns)" using that by simp
    then have "InnerIP y = InnerIP p" unfolding one using suits_net(2) [OF suits d] y(2) by simp
    then have "y = p" using suits d p(1) by (auto simp: kernel_suits_def dest: inj_onD)
    then show False using p(2) y(1) by simp
  qed
  then show ?thesis by (simp add: filter_id_conv)
qed

lemma kernel_diff_applied:
  assumes doc: "wgctrl_documented w own conf" and r: "read_device w s = Some ps"
    and suits: "kernel_suits w own desired" and inj: "inj_on PublicKey (set desired)"
    and change: "\<not> change_empty (diff (wgctl_peers (key_string w) ps) desired)"
    and run: "wgctl_apply (parse_key w) (configure_device w) (diff (wgctl_peers (key_string w) ps) desired) s = (s', None)"
  shows "kernel_held w conf s' q = peer_map desired q"
proof -
  let ?cur = "wgctl_peers (key_string w) ps"
  let ?c = "diff ?cur desired"
  let ?ups = "ch_add ?c @ ch_update ?c"
  have inv: "parse_key w (key_string w k) = Some k" and noown: "conf s own = None" for k
    using doc by (simp_all add: wgctrl_documented_def)
  have held: "peer_map ?cur = kernel_held w conf s" by (rule kernel_peers_held [OF doc r])
  have sub: "set ?ups \<subseteq> set desired" by (auto simp: diff_lists)
  have gone: "key_string w k = x" if "x \<in> set (ch_remove ?c)" "parse_key w x = Some k" for x k
    using that inv by (auto simp: diff_lists wgctl_peers_def)
  show ?thesis
  proof (cases "q \<in> PublicKey ` set desired")
    case True
    then obtain p where p: "p \<in> set desired" "PublicKey p = q" by auto
    let ?k = "peer_key w p"
    note key = suits_key [OF suits p(1)]
    have "\<not> (?k \<noteq> own \<and> (\<exists>x \<in> set (ch_remove ?c). parse_key w x = Some ?k))"
    proof (intro notI, elim conjE bexE)
      fix x assume x: "x \<in> set (ch_remove ?c)" "parse_key w x = Some ?k"
      then have "x = PublicKey p" using gone [OF x] key(2) by simp
      then show False using x(1) p(1) by (simp add: diff_lists)
    qed
    note now = apply_conf [OF doc suits inj sub change run this]
    have "\<exists>ns. conf s' ?k = Some ns \<and> join '','' (map ipnet_string ns) = InnerIP p"
    proof (cases "p \<in> set ?ups")
      case True
      then show ?thesis using now(1) [OF True refl] suits_net(2) [OF suits p(1)] by simp
    next
      case same: False
      then have "kernel_held w conf s q = Some (InnerIP p)" using p by (auto simp: diff_lists held [symmetric])
      then obtain ns where ns: "conf s ?k = Some ns" "join '','' (map ipnet_string ns) = InnerIP p"
        using key p(2) by (auto simp: kernel_held_def)
      have "y = p" if "y \<in> set ?ups" "?k = peer_key w y" for y
        using inj_onD [OF suits_inj(1) [OF suits inj subset_refl], of y p] that sub p(1) by auto
      then have "?k \<notin> peer_key w ` set ?ups" using same by blast
      then show ?thesis using now(2) ns kept_peer [OF suits sub p(1) same ns(2)] by simp
    qed
    then show ?thesis using peer_map_inj [OF inj p(1)] key p(2) by (auto simp: kernel_held_def)
  next
    case False
    have "conf s' k = None" if k: "parse_key w q = Some k" "key_string w k = q" for k
    proof (cases "q \<in> PublicKey ` set ?cur")
      case True
      then have "kernel_held w conf s q \<noteq> None" by (metis held peer_map_None)
      then have "k \<noteq> own" using noown k by (auto simp: kernel_held_def)
      moreover have "q \<in> set (ch_remove ?c)" using True False by (simp add: diff_lists)
      ultimately show ?thesis by (intro apply_conf_removed [OF doc change run _ k(1)])
    next
      case old: False
      then have "kernel_held w conf s q = None" by (simp add: held [symmetric] peer_map_None)
      then have "conf s k = None" using k by (simp add: kernel_held_def)
      moreover have "\<not> (k \<noteq> own \<and> (\<exists>x \<in> set (ch_remove ?c). parse_key w x = Some k))"
        using gone k(2) old by (auto simp: diff_lists)
      moreover have "k \<notin> peer_key w ` set ?ups"
      proof
        assume "k \<in> peer_key w ` set ?ups"
        then obtain y where y: "y \<in> set ?ups" "k = peer_key w y" by blast
        have d: "y \<in> set desired" using y(1) sub by blast
        have "PublicKey y \<in> PublicKey ` set desired" using d by (rule imageI)
        then show False using False suits_key(2) [OF suits d] y(2) k(2) by simp
      qed
      ultimately show ?thesis using apply_conf(2) [OF doc suits inj sub change run] by simp
    qed
    then have "kernel_held w conf s' q = None" by (auto simp: kernel_held_def split: option.split)
    then show ?thesis using False peer_map_None [of desired q] by simp
  qed
qed

lemma kernel_wg_device:
  assumes doc: "wgctrl_documented w own conf"
  shows "wg_device (dv_peers (kernel_dev w)) (dv_apply (kernel_dev w)) (kernel_held w conf) (\<lambda>_. True) (kernel_suits w own)"
proof
  have held: "dv_peers (kernel_dev w) s = Inr ps \<Longrightarrow> peer_map ps = kernel_held w conf s" for s ps
    using kernel_peers_held [OF doc] by (auto simp: kernel_dev_def split: option.splits)
  fix s s' ps current desired
  show "dv_peers (kernel_dev w) s = Inr ps \<Longrightarrow> peer_map ps = kernel_held w conf s" by (rule held)
  assume a: "dv_peers (kernel_dev w) s = Inr current" "kernel_suits w own desired" "inj_on PublicKey (set desired)"
    "dv_apply (kernel_dev w) (diff current desired) s = (s', None)"
  then obtain ps where ps: "read_device w s = Some ps" "current = wgctl_peers (key_string w) ps"
    by (auto simp: kernel_dev_def split: option.splits)
  have map: "change_map (diff current desired) (peer_map current) = peer_map desired" by (rule diff_reaches [OF a(3)])
  have "kernel_held w conf s' = peer_map desired"
  proof (cases "change_empty (diff current desired)")
    case True
    then have "s' = s" "change_map (diff current desired) (peer_map current) = peer_map current"
      using a(4) by (simp_all add: kernel_dev_def wgctl_apply_def change_empty_def change_map_def)
    then show ?thesis using map held [OF a(1)] by simp
  next
    case False
    then show ?thesis using kernel_diff_applied [OF doc ps(1) a(2,3)] a(4) ps(2) by (auto simp: kernel_dev_def)
  qed
  then show "kernel_held w conf s' = change_map (diff current desired) (kernel_held w conf s)"
    using map held [OF a(1)] by simp
qed simp

section \<open>A key that is none\<close>

lemma upsert_configs_bad: "p \<in> set ps \<Longrightarrow> pk (PublicKey p) = None \<Longrightarrow> \<exists>e. upsert_configs pk ps = Inl e"
  by (induction ps) (auto split: option.split)

text \<open>One wanted peer whose key does not parse makes the device refuse every difference.\<close>

lemma unreadable_key_refused:
  assumes "wgctrl_documented w own conf" "p \<in> set desired" "parse_key w (PublicKey p) = None"
  shows "\<exists>e. reconcile (kernel_dev w) desired s = (s, Some e)"
proof (cases "read_device w s")
  case None
  then show ?thesis by (simp add: reconcile_def kernel_dev_def)
next
  case (Some ps)
  let ?c = "diff (wgctl_peers (key_string w) ps) desired"
  have "PublicKey p \<notin> PublicKey ` set (wgctl_peers (key_string w) ps)"
    using assms(1,3) by (auto simp: wgctl_peers_def wgctrl_documented_def)
  then have add: "p \<in> set (ch_add ?c)" using assms(2) by (simp add: diff_lists peer_map_None)
  then have "\<not> change_empty ?c" by (auto simp: change_empty_def)
  moreover obtain e where "upsert_configs (parse_key w) (ch_add ?c @ ch_update ?c) = Inl e"
    using upsert_configs_bad [of p "ch_add ?c @ ch_update ?c"] add assms(3) by auto
  ultimately show ?thesis using Some by (simp add: reconcile_def kernel_dev_def wgctl_apply_def)
qed

text \<open>A key wanted in another text than its standard one: the kernel reports the standard text, so the
  difference adds the peer and removes it, in this order, and the pass that finds the peer there takes it out.\<close>

theorem nonstandard_key_dropped:
  assumes doc: "wgctrl_documented w own conf" and held: "conf s k \<noteq> None"
    and other: "key_string w k \<notin> PublicKey ` set desired"
    and run: "reconcile (kernel_dev w) desired s = (s', None)"
  shows "conf s' k = None"
proof -
  obtain ps where ps: "read_device w s = Some ps"
    using run by (cases "read_device w s") (auto simp: reconcile_def kernel_dev_def)
  let ?c = "diff (wgctl_peers (key_string w) ps) desired"
  have inv: "parse_key w (key_string w k) = Some k" and "k \<noteq> own" using doc held by (auto simp: wgctrl_documented_def)
  have "kernel_held w conf s (key_string w k) \<noteq> None" using held inv by (simp add: kernel_held_def)
  then have "key_string w k \<in> PublicKey ` set (wgctl_peers (key_string w) ps)"
    using kernel_peers_held [OF doc ps] by (metis peer_map_None)
  then have rem: "key_string w k \<in> set (ch_remove ?c)" using other by (simp add: diff_lists)
  then have change: "\<not> change_empty ?c" by (auto simp: change_empty_def)
  then have "wgctl_apply (parse_key w) (configure_device w) ?c s = (s', None)"
    using run ps by (auto simp: reconcile_def kernel_dev_def Let_def split: prod.splits option.splits)
  then show ?thesis by (rule apply_conf_removed [OF doc change _ rem inv \<open>k \<noteq> own\<close>])
qed

section \<open>A concrete kernel\<close>

text \<open>Peers as an association list; a key's text is the key behind \<open>pre\<close>.\<close>

definition sim_configured :: "(string \<times> prefix list) list \<Rightarrow> string peer_config \<Rightarrow> (string \<times> prefix list) list" where
  "sim_configured s c =
     (if pc_key c = ''OWN'' then s
      else if pc_remove c then filter (\<lambda>e. fst e \<noteq> pc_key c) s
      else
        let keep = filter (\<lambda>n. n \<notin> set (pc_allowed c));
            mine = (if pc_replace_allowed c then [] else case map_of s (pc_key c) of None \<Rightarrow> [] | Some ns \<Rightarrow> ns)
        in (pc_key c, keep mine @ pc_allowed c) # map (\<lambda>(q, ns). (q, keep ns)) (filter (\<lambda>e. fst e \<noteq> pc_key c) s))"

definition sim_wgctrl :: "string \<Rightarrow> (string, (string \<times> prefix list) list) wgctrl" where
  "sim_wgctrl pre =
     \<lparr>parse_key = (\<lambda>s. if has_prefix s pre then Some (drop (length pre) s) else None),
      key_string = (\<lambda>k. pre @ k),
      read_device = (\<lambda>s. if distinct (map fst s) \<and> ''OWN'' \<notin> set (map fst s)
        then Some (map (\<lambda>(k, ns). \<lparr>kp_key = k, kp_allowed = ns, kp_rx = 0, kp_tx = 0, kp_handshake = 0\<rparr>) s) else None),
      configure_device = (\<lambda>cfgs s. (foldl sim_configured s cfgs, True)),
      clock_now = (\<lambda>s. 0)\<rparr>"

definition sim_conf :: "(string \<times> prefix list) list \<Rightarrow> (string \<rightharpoonup> prefix list)" where
  "sim_conf s = (map_of s)(''OWN'' := None)"

lemma map_of_filter_key: "map_of (filter (\<lambda>e. fst e \<noteq> k) s) = (map_of s)(k := None)"
  by (rule ext) (simp add: map_of_filter_not)

lemma sim_configured_conf: "sim_conf (sim_configured s c) = configured ''OWN'' (sim_conf s) c"
  by (auto simp: sim_conf_def sim_configured_def configured_def map_of_filter_key map_of_map Let_def fun_eq_iff)

lemma sim_wgctrl_documented: "wgctrl_documented (sim_wgctrl pre) ''OWN'' sim_conf"
proof -
  have "sim_conf (foldl sim_configured s cfgs) = foldl (configured ''OWN'') (sim_conf s) cfgs" for s cfgs
    by (induction cfgs arbitrary: s) (simp_all add: sim_configured_conf)
  moreover have "sim_conf s = map_of s" if "''OWN'' \<notin> fst ` set s" for s
    unfolding sim_conf_def by (rule fun_upd_idem) (simp add: that map_of_eq_None_iff)
  ultimately show ?thesis
    by (auto simp: wgctrl_documented_def sim_wgctrl_def has_prefix_def split_def comp_def) (simp add: sim_conf_def)
qed

end
