(* ===== verification/Ratelimit.thy ===== *)
theory Ratelimit
  imports Prelude "HOL-Library.AList"
begin

text \<open>
  \<open>internal/control/ratelimit.go\<close>: the fixed-window limiter in front of the endpoints that
  take a contributor key. The Go map is an association list without repeated keys; the clock is
  an input. The properties bound the memory of a limiter and the number of events it lets
  through.
\<close>

section \<open>The limiter\<close>

record window =
  w_count :: int
  w_start :: nanos

record limiter =
  l_limit :: int
  l_window :: nanos
  l_entries :: "(string \<times> window) list"
  l_max_keys :: nat

definition new_limiter :: "int \<Rightarrow> nanos \<Rightarrow> limiter" where
  "new_limiter limit w = \<lparr>l_limit = limit, l_window = w, l_entries = [], l_max_keys = 100000\<rparr>"

definition evict_expired :: "nanos \<Rightarrow> limiter \<Rightarrow> limiter" where
  "evict_expired t l =
     (let live = filter (\<lambda>(k, e). \<not> t - w_start e \<ge> l_window l) (l_entries l) in
      l\<lparr>l_entries := (if length live \<ge> l_max_keys l then [] else live)\<rparr>)"

definition make_room :: "nanos \<Rightarrow> limiter \<Rightarrow> limiter" where
  "make_room t l = (if length (l_entries l) \<ge> l_max_keys l then evict_expired t l else l)"

definition open_window :: "nanos \<Rightarrow> string \<Rightarrow> limiter \<Rightarrow> limiter" where
  "open_window t key l =
     (let l' = make_room t l in l'\<lparr>l_entries := AList.update key \<lparr>w_count = 1, w_start = t\<rparr> (l_entries l')\<rparr>)"

definition allow :: "nanos \<Rightarrow> string \<Rightarrow> limiter \<Rightarrow> limiter \<times> bool" where
  "allow t key l =
     (case map_of (l_entries l) key of
        None \<Rightarrow> (open_window t key l, True)
      | Some e \<Rightarrow>
          if t - w_start e \<ge> l_window l then (open_window t key l, True)
          else (l\<lparr>l_entries := AList.update key (e\<lparr>w_count := w_count e + 1\<rparr>) (l_entries l)\<rparr>,
                w_count e + 1 \<le> l_limit l))"

definition key_prefix :: "string \<Rightarrow> string" where
  "key_prefix key = (if length key \<le> 8 then key else take 8 key)"

text \<open>A sequence of events, each with the time it happens, and the answers it gets.\<close>

fun allow_all :: "(nanos \<times> string) list \<Rightarrow> limiter \<Rightarrow> limiter \<times> bool list" where
  "allow_all [] l = (l, [])"
| "allow_all ((t, k) # es) l =
     (let (l1, ok) = allow t k l; (l2, oks) = allow_all es l1 in (l2, ok # oks))"

lemma allow_all_Cons [simp]:
  "snd (allow_all ((t, k) # es) l) = snd (allow t k l) # snd (allow_all es (fst (allow t k l)))"
  "fst (allow_all ((t, k) # es) l) = fst (allow_all es (fst (allow t k l)))"
  by (simp_all add: split_def Let_def)

declare allow_all.simps(2) [simp del]

section \<open>Memory\<close>

definition limiter_ok :: "limiter \<Rightarrow> bool" where
  "limiter_ok l \<longleftrightarrow> distinct (map fst (l_entries l)) \<and> length (l_entries l) \<le> l_max_keys l \<and> 0 < l_max_keys l"

lemma length_update_le: "length (AList.update k v xs) \<le> Suc (length xs)"
  by (induction xs) auto

lemma length_update_in: "k \<in> fst ` set xs \<Longrightarrow> length (AList.update k v xs) = length xs"
  by (induction xs) auto

lemma evict_expired_small: "0 < l_max_keys l \<Longrightarrow> length (l_entries (evict_expired t l)) < l_max_keys l"
  by (simp add: evict_expired_def Let_def)

lemma evict_expired_simps [simp]: "l_max_keys (evict_expired t l) = l_max_keys l"
  "l_window (evict_expired t l) = l_window l" "l_limit (evict_expired t l) = l_limit l"
  by (simp_all add: evict_expired_def Let_def)

lemma evict_expired_distinct:
  "distinct (map fst (l_entries l)) \<Longrightarrow> distinct (map fst (l_entries (evict_expired t l)))"
  by (simp add: evict_expired_def Let_def distinct_map_filter)

lemma make_room_simps [simp]: "l_max_keys (make_room t l) = l_max_keys l"
  "l_window (make_room t l) = l_window l" "l_limit (make_room t l) = l_limit l"
  by (simp_all add: make_room_def)

lemma make_room_full: "length (l_entries l) < l_max_keys l \<Longrightarrow> make_room t l = l"
  by (simp add: make_room_def)

lemma open_window_simps [simp]: "l_max_keys (open_window t k l) = l_max_keys l"
  "l_window (open_window t k l) = l_window l" "l_limit (open_window t k l) = l_limit l"
  by (simp_all add: open_window_def Let_def)

lemma allow_fields [simp]: "l_max_keys (fst (allow t k l)) = l_max_keys l"
  "l_limit (fst (allow t k l)) = l_limit l" "l_window (fst (allow t k l)) = l_window l"
  by (auto simp: allow_def split: option.splits)

lemma open_window_ok:
  assumes "limiter_ok l" shows "limiter_ok (open_window t k l)"
proof -
  have "length (l_entries (make_room t l)) < l_max_keys l"
    using assms evict_expired_small [of l t] by (auto simp: make_room_def limiter_ok_def)
  then have "length (l_entries (open_window t k l)) \<le> l_max_keys l"
    using length_update_le [of k "\<lparr>w_count = 1, w_start = t\<rparr>" "l_entries (make_room t l)"]
    by (simp add: open_window_def Let_def)
  moreover have "distinct (map fst (l_entries (make_room t l)))"
    using assms evict_expired_distinct [of l t] by (simp add: make_room_def limiter_ok_def)
  then have "distinct (map fst (l_entries (open_window t k l)))"
    by (simp add: open_window_def Let_def distinct_update)
  ultimately show ?thesis using assms by (simp add: limiter_ok_def)
qed

lemma allow_ok:
  assumes "limiter_ok l" shows "limiter_ok (fst (allow t k l))"
proof (cases "map_of (l_entries l) k")
  case None
  then show ?thesis using open_window_ok [OF assms] by (simp add: allow_def)
next
  case (Some e)
  then have "k \<in> fst ` set (l_entries l)" by (force dest: map_of_SomeD)
  then have "limiter_ok (l\<lparr>l_entries := AList.update k (e\<lparr>w_count := w_count e + 1\<rparr>) (l_entries l)\<rparr>)"
    using assms by (simp add: limiter_ok_def length_update_in distinct_update)
  then show ?thesis using Some open_window_ok [OF assms] by (simp add: allow_def)
qed

text \<open>However many keys are tried, a limiter never holds more than its maximum number of
  counters, one per key.\<close>

theorem limiter_memory_bounded:
  assumes "limiter_ok l" shows "limiter_ok (fst (allow_all es l))"
  using assms
proof (induction es arbitrary: l)
  case (Cons e es)
  obtain t k where "e = (t, k)" by fastforce
  then show ?case using Cons.IH [OF allow_ok [OF Cons.prems, of t k]] by simp
qed simp

theorem limiter_memory_bounded_witness:
  "limiter_ok (fst (allow_all [(0, ''a''), (1, ''b''), (2, ''a'')] (new_limiter 20 (3600 * second))))"
  by (rule limiter_memory_bounded) (simp add: limiter_ok_def new_limiter_def)

section \<open>Rate\<close>

text \<open>What happens to one key while the map has room: a counter and the start of its window.\<close>

fun tick :: "int \<Rightarrow> nanos \<Rightarrow> nanos \<Rightarrow> (int \<times> nanos) option \<Rightarrow> (int \<times> nanos) \<times> bool" where
  "tick limit w t None = ((1, t), True)"
| "tick limit w t (Some (c, s)) = (if t - s \<ge> w then ((1, t), True) else ((c + 1, s), c + 1 \<le> limit))"

fun ticks :: "int \<Rightarrow> nanos \<Rightarrow> nanos list \<Rightarrow> (int \<times> nanos) option \<Rightarrow> bool list" where
  "ticks limit w [] st = []"
| "ticks limit w (t # ts) st = snd (tick limit w t st) # ticks limit w ts (Some (fst (tick limit w t st)))"

abbreviation passed :: "bool list \<Rightarrow> int" where "passed bs \<equiv> int (length (filter (\<lambda>b. b) bs))"

lemma ticks_in_window:
  assumes "\<forall>t \<in> set ts. t - s < w"
  shows "passed (ticks limit w ts (Some (c, s))) \<le> max 0 (limit - c)"
  using assms
proof (induction ts arbitrary: c)
  case (Cons t ts)
  then have "passed (ticks limit w ts (Some (c + 1, s))) \<le> max 0 (limit - (c + 1))" by simp
  then show ?case using Cons.prems by auto
qed simp

lemma ticks_two_windows:
  assumes "\<forall>t \<in> set ts. a \<le> t \<and> t < a + w" "1 \<le> limit" "case st of None \<Rightarrow> True | Some (c, s) \<Rightarrow> 0 \<le> c"
  shows "passed (ticks limit w ts st) \<le> (case st of None \<Rightarrow> limit | Some (c, s) \<Rightarrow> max 0 (limit - c) + limit)"
  using assms
proof (induction ts arbitrary: st)
  case Nil
  then show ?case by (simp split: option.splits)
next
  case (Cons t ts)
  have new: "passed (ticks limit w ts (Some (1, t))) \<le> max 0 (limit - 1)"
    using Cons.prems(1) by (intro ticks_in_window) force
  show ?case
  proof (cases st)
    case None
    then show ?thesis using new Cons.prems(2) by simp
  next
    case (Some cs)
    obtain c s where cs: "cs = (c, s)" by fastforce
    show ?thesis
    proof (cases "t - s \<ge> w")
      case True
      then show ?thesis using new Cons.prems(2) Some cs by simp
    next
      case False
      have "passed (ticks limit w ts (Some (c + 1, s))) \<le> max 0 (limit - (c + 1)) + limit"
        using Cons.IH [of "Some (c + 1, s)"] Cons.prems Some cs by simp
      then show ?thesis using False Some cs by auto
    qed
  qed
qed

definition entry_of :: "limiter \<Rightarrow> string \<Rightarrow> (int \<times> nanos) option" where
  "entry_of l k = map_option (\<lambda>e. (w_count e, w_start e)) (map_of (l_entries l) k)"

lemma allow_room:
  assumes "length (l_entries l) < l_max_keys l"
  shows "snd (allow t k l) = snd (tick (l_limit l) (l_window l) t (entry_of l k))"
    "entry_of (fst (allow t k l)) k' =
       (if k' = k then Some (fst (tick (l_limit l) (l_window l) t (entry_of l k))) else entry_of l k')"
proof -
  show "snd (allow t k l) = snd (tick (l_limit l) (l_window l) t (entry_of l k))"
    by (simp add: allow_def entry_of_def split: option.split)
  show "entry_of (fst (allow t k l)) k' =
       (if k' = k then Some (fst (tick (l_limit l) (l_window l) t (entry_of l k))) else entry_of l k')"
    by (simp add: allow_def open_window_def make_room_full [OF assms] entry_of_def update_conv' split: option.split)
qed

lemma allow_keys:
  assumes "length (l_entries l) < l_max_keys l"
  shows "fst ` set (l_entries (fst (allow t k l))) = insert k (fst ` set (l_entries l))"
proof -
  have "dom (map_of (l_entries (fst (allow t k l)))) = insert k (dom (map_of (l_entries l)))"
    by (simp add: allow_def open_window_def make_room_full [OF assms] update_conv' split: option.split)
  then show ?thesis by (simp add: dom_map_of_conv_image_fst)
qed

lemma allow_all_ticks:
  assumes "limiter_ok l" "card (fst ` set (l_entries l) \<union> snd ` set es) < l_max_keys l"
  shows "map snd (filter (\<lambda>(e, ok). snd e = k) (zip es (snd (allow_all es l)))) =
    ticks (l_limit l) (l_window l) (map fst (filter (\<lambda>e. snd e = k) es)) (entry_of l k)"
  using assms
proof (induction es arbitrary: l)
  case (Cons e es)
  obtain t k0 where e: "e = (t, k0)" by fastforce
  let ?l1 = "fst (allow t k0 l)"
  have "card (fst ` set (l_entries l)) \<le> card (fst ` set (l_entries l) \<union> snd ` set (e # es))"
    by (intro card_mono) auto
  moreover have "card (fst ` set (l_entries l)) = length (l_entries l)"
    using Cons.prems(1) by (metis distinct_card length_map limiter_ok_def list.set_map)
  ultimately have room: "length (l_entries l) < l_max_keys l" using Cons.prems(2) by linarith
  have "fst ` set (l_entries ?l1) \<union> snd ` set es = fst ` set (l_entries l) \<union> snd ` set (e # es)"
    using allow_keys [OF room] e by auto
  then have IH: "map snd (filter (\<lambda>(e, ok). snd e = k) (zip es (snd (allow_all es ?l1)))) =
      ticks (l_limit l) (l_window l) (map fst (filter (\<lambda>e. snd e = k) es)) (entry_of ?l1 k)"
    using Cons.IH [OF allow_ok [OF Cons.prems(1)]] Cons.prems(2) by simp
  then show ?case
    using e allow_room(1) [OF room, of t k0] allow_room(2) [OF room, of t k0 k] by auto
qed simp

text \<open>In any stretch of time shorter than the window, a key gets at most twice its limit through,
  and at most the limit if the key was not counted before the stretch; this holds for every
  sequence of events as long as fewer keys than the maximum are in play.\<close>

theorem limiter_rate_bounded:
  assumes "limiter_ok l" "1 \<le> l_limit l" "\<forall>e \<in> set (l_entries l). 0 \<le> w_count (snd e)"
    and "card (fst ` set (l_entries l) \<union> snd ` set es) < l_max_keys l"
    and "\<forall>e \<in> set es. a \<le> fst e \<and> fst e < a + l_window l"
  shows "passed (map snd (filter (\<lambda>(e, ok). snd e = k) (zip es (snd (allow_all es l))))) \<le>
    (if k \<in> fst ` set (l_entries l) then 2 * l_limit l else l_limit l)"
proof -
  have st: "case entry_of l k of None \<Rightarrow> True | Some (c, s) \<Rightarrow> 0 \<le> c"
    using assms(3) by (auto simp: entry_of_def dest!: map_of_SomeD split: option.splits)
  have "passed (ticks (l_limit l) (l_window l) (map fst (filter (\<lambda>e. snd e = k) es)) (entry_of l k)) \<le>
      (case entry_of l k of None \<Rightarrow> l_limit l | Some (c, s) \<Rightarrow> max 0 (l_limit l - c) + l_limit l)"
    using assms(2,5) st by (intro ticks_two_windows) auto
  also have "\<dots> \<le> (if k \<in> fst ` set (l_entries l) then 2 * l_limit l else l_limit l)"
  proof (cases "map_of (l_entries l) k")
    case None
    then have "k \<notin> fst ` set (l_entries l)" by (simp add: map_of_eq_None_iff)
    then show ?thesis using None by (simp add: entry_of_def)
  next
    case (Some e)
    then have "k \<in> fst ` set (l_entries l)" by (force dest: map_of_SomeD)
    then show ?thesis using Some st assms(2) by (simp add: entry_of_def)
  qed
  finally show ?thesis unfolding allow_all_ticks [OF assms(1,4)] .
qed

theorem limiter_rate_bounded_witness:
  "passed (map snd (filter (\<lambda>(e, ok). snd e = ''a'')
     (zip [(0 :: int, ''a''), (1, ''a''), (2, ''a'')]
       (snd (allow_all [(0, ''a''), (1, ''a''), (2, ''a'')] (new_limiter 2 10)))))) \<le> 2"
proof -
  have "snd ` set [(0 :: int, ''a''), (1, ''a''), (2, ''a'')] = {''a''}" by simp
  then have "card (fst ` set (l_entries (new_limiter 2 10)) \<union> snd ` set [(0, ''a''), (1, ''a''), (2, ''a'')])
      < l_max_keys (new_limiter 2 10)"
    by (simp add: new_limiter_def)
  moreover have "limiter_ok (new_limiter 2 10)" "1 \<le> l_limit (new_limiter 2 10)"
    "\<forall>e \<in> set (l_entries (new_limiter 2 10)). 0 \<le> w_count (snd e)"
    "\<forall>e \<in> set [(0, ''a''), (1, ''a''), (2, ''a'')]. 0 \<le> fst e \<and> fst e < 0 + l_window (new_limiter 2 10)"
    by (simp_all add: new_limiter_def limiter_ok_def)
  ultimately have "passed (map snd (filter (\<lambda>(e, ok). snd e = ''a'')
     (zip [(0 :: int, ''a''), (1, ''a''), (2, ''a'')]
       (snd (allow_all [(0, ''a''), (1, ''a''), (2, ''a'')] (new_limiter 2 10)))))) \<le>
     (if ''a'' \<in> fst ` set (l_entries (new_limiter 2 10)) then 2 * l_limit (new_limiter 2 10) else l_limit (new_limiter 2 10))"
    by (intro limiter_rate_bounded)
  moreover have "l_entries (new_limiter 2 10) = []" "l_limit (new_limiter 2 10) = 2"
    by (simp_all add: new_limiter_def)
  ultimately show ?thesis by (simp only: list.set image_empty empty_iff if_False)
qed

text \<open>At the cap every live counter is dropped, not the oldest: one event of a new key resets the
  count of every other key, so a key that was over its limit is let through again within its
  window.\<close>

theorem limiter_cap_resets_everyone:
  assumes "length (l_entries l) = l_max_keys l" "0 < l_max_keys l" "new \<notin> fst ` set (l_entries l)"
    and "\<forall>e \<in> set (l_entries l). t - w_start (snd e) < l_window l" "victim \<noteq> new"
  shows "snd (allow t victim (fst (allow t new l)))"
proof -
  have "filter (\<lambda>(k, e). \<not> t - w_start e \<ge> l_window l) (l_entries l) = l_entries l"
    using assms(4) by (auto simp: filter_id_conv)
  then have "l_entries (evict_expired t l) = []" using assms(1) by (simp add: evict_expired_def Let_def)
  moreover have "map_of (l_entries l) new = None" using assms(3) by (simp add: map_of_eq_None_iff)
  ultimately show ?thesis using assms(1,5) by (simp add: allow_def open_window_def make_room_def)
qed

theorem limiter_cap_resets_everyone_witness:
  "let l = \<lparr>l_limit = 1, l_window = 100, l_entries = [(''v'', \<lparr>w_count = 5, w_start = 0\<rparr>)], l_max_keys = 1\<rparr> in
     \<not> snd (allow 1 ''v'' l) \<and> snd (allow 1 ''v'' (fst (allow 1 ''n'' l)))"
proof -
  let ?l = "\<lparr>l_limit = 1, l_window = 100, l_entries = [(''v'', \<lparr>w_count = 5, w_start = 0\<rparr>)], l_max_keys = 1\<rparr>"
  have "snd (allow 1 ''v'' (fst (allow 1 ''n'' ?l)))"
    by (rule limiter_cap_resets_everyone) simp_all
  moreover have "\<not> snd (allow 1 ''v'' ?l)" by code_simp
  ultimately show ?thesis by (simp only: Let_def simp_thms)
qed

end
