(* ===== verification/Http.thy ===== *)
theory Http
  imports Store_Invariant Ratelimit
begin

text \<open>
  \<open>internal/control/http.go\<close>: the handlers of the control plane. What they need of the store
  is Go's interface \<open>Backend\<close>, here a record of operations; the handlers are functions of it.
  The locale \<open>backend\<close> states what the handlers rely on, and is interpreted on the operations
  of \<open>Store\<close>. A request carries the JSON body already decoded, or nothing when decoding or
  the size limit fails (the constructor of \<open>body\<close> is the one the endpoint decodes into); a response is its status code and the value encoded into its body.
\<close>

section \<open>Requests and responses\<close>

datatype body =
    RegisterBody register_request
  | SyncBody relay_status
  | ReachabilityBody reachability_report
  | ActivateBody activate_request
  | ObservationBody observation_report
  | NoBody

record request =
  rq_method :: string
  rq_path :: string
  rq_authorization :: string
  rq_device_key :: string
  rq_forwarded_for :: string
  rq_remote_addr :: string
  rq_body :: body

datatype reply =
    ErrorReply string string
  | RegisterReply register_response
  | SyncReply sync_response
  | ActivateReply string
  | SlotsFullReply "device_summary list"
  | SessionReply session_response
  | ProfileReply profile_response
  | AcceptedReply observation_accepted
  | TextReply string
  | EmptyReply

type_synonym response = "nat \<times> reply"

definition write_err :: "nat \<Rightarrow> string \<Rightarrow> string \<Rightarrow> response" where
  "write_err code msg hint = (code, ErrorReply msg hint)"

section \<open>The interface to the store\<close>

record 'db backend =
  be_register_relay :: "register_input \<Rightarrow> 'db \<Rightarrow> 'db \<times> (store_error + register_output)"
  be_authenticate_relay :: "string \<Rightarrow> 'db \<Rightarrow> store_error + string"
  be_record_status :: "string \<Rightarrow> relay_status \<Rightarrow> 'db \<Rightarrow> 'db \<times> (store_error + unit)"
  be_record_reachability :: "string \<Rightarrow> string \<Rightarrow> bool \<Rightarrow> string \<Rightarrow> 'db \<Rightarrow> 'db \<times> (store_error + unit)"
  be_activate_device :: "string \<Rightarrow> string \<Rightarrow> string \<Rightarrow> 'db \<Rightarrow> 'db \<times> device_summary list \<times> (store_error + string)"
  be_session :: "string \<Rightarrow> string \<Rightarrow> int \<Rightarrow> 'db \<Rightarrow> 'db \<times> (store_error + session_response)"
  be_profile :: "'db \<Rightarrow> store_error + profile_response"
  be_release_device :: "string \<Rightarrow> string \<Rightarrow> 'db \<Rightarrow> 'db \<times> (store_error + unit)"
  be_record_observation :: "string \<Rightarrow> string \<Rightarrow> string \<Rightarrow> int \<Rightarrow> 'db \<Rightarrow> 'db \<times> (store_error + unit)"
  be_desired_state :: "string \<Rightarrow> 'db \<Rightarrow> store_error + api_peer list \<times> string list"

text \<open>The server's own state besides the tables: its two limiters.\<close>

record config =
  pollSecs :: int
  trustProxy :: bool
  clientMTU :: int

record limiters =
  byIP :: limiter
  byKey :: limiter

definition new_limiters :: limiters where
  "new_limiters = \<lparr>byIP = new_limiter 20 (3600 * second), byKey = new_limiter 20 (3600 * second)\<rparr>"

definition new_config :: "int \<Rightarrow> bool \<Rightarrow> config" where
  "new_config poll trust = \<lparr>pollSecs = poll, trustProxy = trust, clientMTU = 1420\<rparr>"

definition defaultListenPort :: int where "defaultListenPort = 51820"

definition maxObservationsPerReport :: nat where "maxObservationsPerReport = 500"

section \<open>Helpers\<close>

definition client_ip :: "request \<Rightarrow> bool \<Rightarrow> string" where
  "client_ip r trust =
     (if trust \<and> rq_forwarded_for r \<noteq> [] then
        (case index_of (CHR '','') (rq_forwarded_for r) of
           Some i \<Rightarrow> if i > 0 then trim_space (take i (rq_forwarded_for r)) else trim_space (rq_forwarded_for r)
         | None \<Rightarrow> trim_space (rq_forwarded_for r))
      else case split_host_port (rq_remote_addr r) of
        None \<Rightarrow> rq_remote_addr r
      | Some (host, port) \<Rightarrow> host)"

definition client_auth :: "request \<Rightarrow> string \<times> string" where
  "client_auth r = (trim_prefix (rq_authorization r) ''Bearer '', rq_device_key r)"

text \<open>\<open>limit\<close>: both buckets count, whatever the other one says.\<close>

definition limit_request :: "config \<Rightarrow> nanos \<Rightarrow> request \<Rightarrow> string \<Rightarrow> limiters \<Rightarrow> limiters \<times> bool" where
  "limit_request cfg t r key ls =
     (let (ip, ip_ok) = allow t (client_ip r (trustProxy cfg)) (byIP ls);
          (ks, key_ok) = (if key \<noteq> [] then allow t (key_prefix key) (byKey ls) else (byKey ls, True))
      in (\<lparr>byIP = ip, byKey = ks\<rparr>, ip_ok \<and> key_ok))"

definition too_many :: response where
  "too_many = write_err 429 ''too many requests''
     (''wait an hour and try again; if you are setting up a relay and hit this, '' @
      ''you are re-running the installer more than expected'')"

section \<open>Handlers\<close>

type_synonym 'db handler = "limiters \<times> 'db \<Rightarrow> (limiters \<times> 'db) \<times> response"

definition reject :: "nat \<Rightarrow> string \<Rightarrow> string \<Rightarrow> 'db handler" where
  "reject code msg hint st = (st, write_err code msg hint)"

text \<open>The part of a handler that runs behind the limiters.\<close>

definition limited :: "config \<Rightarrow> nanos \<Rightarrow> request \<Rightarrow> string \<Rightarrow> ('db \<Rightarrow> 'db \<times> response) \<Rightarrow> 'db handler" where
  "limited cfg t r key act st =
     (let (ls, ok) = limit_request cfg t r key (fst st) in
      if ok then let (db, resp) = act (snd st) in ((ls, db), resp) else ((ls, snd st), too_many))"

definition register_call :: "'db backend \<Rightarrow> register_request \<Rightarrow> 'db \<Rightarrow> 'db \<times> response" where
  "register_call B req db =
     (case be_register_relay B \<lparr>ri_key = rq_contributor_key req, ri_pubkey = rq_public_key req,
         ri_endpoint = rq_endpoint req, ri_region = rq_region req, ri_hostname = rq_hostname req\<rparr> db of
        (db', Inl ErrTooManyRelays) \<Rightarrow> (db', write_err 409 ''this key already has the maximum number of relays''
          ''remove a relay you no longer run, or ask for a second contributor key'')
      | (db', Inl ErrUnknownKey) \<Rightarrow> (db', write_err 403 ''that contributor key is not valid''
          ''check for typos; keys use no I, L, O or U'')
      | (db', Inl _) \<Rightarrow> (db', write_err 500 ''registration failed'' [])
      | (db', Inr out) \<Rightarrow> (db', 200, RegisterReply \<lparr>rs_relay_id = RelayID out, rs_relay_token = RelayToken out,
          rs_inner_subnet = InnerSubnet out, rs_inner_ip = RelayInnerIP out, rs_listen_port = defaultListenPort\<rparr>))"

definition handle_register :: "'db backend \<Rightarrow> config \<Rightarrow> nanos \<Rightarrow> request \<Rightarrow> 'db handler" where
  "handle_register B cfg t r =
     (if rq_method r \<noteq> ''POST'' then reject 405 ''use POST'' []
      else case rq_body r of
        RegisterBody req \<Rightarrow>
          if rq_contributor_key req = [] then reject 400 ''contributor_key is required'' []
          else if rq_public_key req = [] then reject 400 ''public_key is required'' []
          else if rq_endpoint req = [] then reject 400 ''endpoint is required'' []
          else if split_host_port (rq_endpoint req) = None then
            reject 400 ''endpoint must be host:port'' ''for example 203.0.113.10:51820''
          else limited cfg t r (rq_contributor_key req) (register_call B req)
      | _ \<Rightarrow> reject 400 ''malformed JSON body'' [])"

definition reachability_call :: "'db backend \<Rightarrow> reachability_report \<Rightarrow> 'db \<Rightarrow> 'db \<times> response" where
  "reachability_call B req db =
     (case be_record_reachability B (rr_contributor_key req) (rr_relay_public_key req) (rr_reachable req)
          (take 500 (rr_detail req)) db of
        (db', Inl ErrUnknownKey) \<Rightarrow> (db', write_err 403 ''that key does not own a relay with that public key''
          ''you can only report on relays you contributed'')
      | (db', Inl _) \<Rightarrow> (db', write_err 500 ''could not record the result'' [])
      | (db', Inr _) \<Rightarrow> (db', 204, EmptyReply))"

definition handle_reachability :: "'db backend \<Rightarrow> config \<Rightarrow> nanos \<Rightarrow> request \<Rightarrow> 'db handler" where
  "handle_reachability B cfg t r =
     (if rq_method r \<noteq> ''POST'' then reject 405 ''use POST'' []
      else case rq_body r of
        ReachabilityBody req \<Rightarrow>
          if rr_contributor_key req = [] \<or> rr_relay_public_key req = [] then
            reject 400 ''contributor_key and relay_public_key are required'' []
          else limited cfg t r (rr_contributor_key req) (reachability_call B req)
      | _ \<Rightarrow> reject 400 ''malformed JSON body'' [])"

definition activate_call :: "'db backend \<Rightarrow> activate_request \<Rightarrow> 'db \<Rightarrow> 'db \<times> response" where
  "activate_call B req db =
     (case be_activate_device B (aq_contributor_key req) (aq_device_public_key req)
          (take 100 (aq_fingerprint req)) db of
        (db', held, Inl ErrSlotsFull) \<Rightarrow> (db', 409, SlotsFullReply held)
      | (db', held, Inl ErrUnknownKey) \<Rightarrow> (db', write_err 403 ''that contributor key is not valid''
          ''check for typos; keys use no I, L, O or U'')
      | (db', held, Inl _) \<Rightarrow> (db', write_err 500 ''activation failed'' [])
      | (db', held, Inr i) \<Rightarrow> (db', 200, ActivateReply i))"

definition handle_activate :: "'db backend \<Rightarrow> config \<Rightarrow> nanos \<Rightarrow> request \<Rightarrow> 'db handler" where
  "handle_activate B cfg t r =
     (if rq_method r \<noteq> ''POST'' then reject 405 ''use POST'' []
      else case rq_body r of
        ActivateBody req \<Rightarrow>
          if aq_contributor_key req = [] \<or> aq_device_public_key req = [] then
            reject 400 ''contributor_key and device_public_key are required'' []
          else limited cfg t r (aq_contributor_key req) (activate_call B req)
      | _ \<Rightarrow> reject 400 ''malformed JSON body'' [])"

definition handle_session :: "'db backend \<Rightarrow> config \<Rightarrow> request \<Rightarrow> 'db handler" where
  "handle_session B cfg r st =
     (if rq_method r \<noteq> ''GET'' then reject 405 ''use GET'' [] st
      else let (key, dev) = client_auth r in
        if key = [] \<or> dev = [] then reject 401 ''missing credentials''
          ''send the contributor key as a bearer token and the device public key in X-Device-Key'' st
        else case be_session B key dev (clientMTU cfg) (snd st) of
          (db', Inl ErrUnknownKey) \<Rightarrow> ((fst st, db'), write_err 403 ''this device is not activated on that key''
            ''run activation again'')
        | (db', Inl _) \<Rightarrow> ((fst st, db'), write_err 500 ''could not build a session'' [])
        | (db', Inr s) \<Rightarrow> ((fst st, db'), 200, SessionReply s))"

definition handle_profile :: "'db backend \<Rightarrow> request \<Rightarrow> 'db handler" where
  "handle_profile B r st =
     (if rq_method r \<noteq> ''GET'' then reject 405 ''use GET'' [] st
      else case be_profile B (snd st) of
        Inl _ \<Rightarrow> reject 500 ''could not read the profile'' [] st
      | Inr p \<Rightarrow> (st, 200, ProfileReply p))"

definition handle_devices :: "'db backend \<Rightarrow> request \<Rightarrow> 'db handler" where
  "handle_devices B r st =
     (if rq_method r \<noteq> ''DELETE'' then reject 405 ''use DELETE'' [] st
      else let i = trim_prefix (rq_path r) ''/v1/devices/'' in
        if i = [] \<or> CHR ''/'' \<in> set i then reject 400 ''path must be /v1/devices/<device-id>'' [] st
        else let (key, _) = client_auth r in
          if key = [] then reject 401 ''missing credentials'' ''send the contributor key as a bearer token'' st
          else case be_release_device B key i (snd st) of
            (db', Inl ErrUnknownKey) \<Rightarrow>
              ((fst st, db'), write_err 403 ''that key does not own a device with that id'' [])
          | (db', Inl _) \<Rightarrow> ((fst st, db'), write_err 500 ''could not release the device'' [])
          | (db', Inr _) \<Rightarrow> ((fst st, db'), 204, EmptyReply))"

text \<open>The address a stored observation gets, when it passes the checks of the loop.\<close>

definition observed_addr :: "observation \<Rightarrow> 32 word option" where
  "observed_addr ob =
     (case parse_addr (DstIP ob) of
        Some (V4 w) \<Rightarrow>
          if v4_private w \<or> v4_loopback w \<or> v4_link_local w \<or> v4_multicast w \<or>
             DstPort ob < 1 \<or> DstPort ob > 65535 then None
          else Some w
      | _ \<Rightarrow> None)"

fun store_observations ::
    "'db backend \<Rightarrow> string \<Rightarrow> string \<Rightarrow> observation list \<Rightarrow> observation_accepted \<Rightarrow> 'db \<Rightarrow> 'db \<times> response" where
  "store_observations B key game [] out db = (db, 200, AcceptedReply out)"
| "store_observations B key game (ob # obs) out db =
     (case observed_addr ob of
        None \<Rightarrow> store_observations B key game obs (out\<lparr>Rejected := Rejected out + 1\<rparr>) db
      | Some w \<Rightarrow>
          (case be_record_observation B key game (v4_string w) (DstPort ob) db of
             (db', Inl ErrUnknownKey) \<Rightarrow> (db', write_err 403 ''unknown or revoked contributor key'' [])
           | (db', Inl _) \<Rightarrow> (db', write_err 500 ''could not store the report'' [])
           | (db', Inr _) \<Rightarrow> store_observations B key game obs (out\<lparr>Accepted := Accepted out + 1\<rparr>) db'))"

definition handle_observations :: "'db backend \<Rightarrow> config \<Rightarrow> nanos \<Rightarrow> request \<Rightarrow> 'db handler" where
  "handle_observations B cfg t r =
     (if rq_method r \<noteq> ''POST'' then reject 405 ''use POST'' []
      else case rq_body r of
        ObservationBody req \<Rightarrow>
          if ob_contributor_key req = [] \<or> ob_game_id req = [] then
            reject 400 ''contributor_key and game_id are required'' []
          else if length (ob_observations req) > maxObservationsPerReport then
            reject 413 (''at most '' @ dec maxObservationsPerReport @ '' observations per report'') []
          else limited cfg t r (ob_contributor_key req)
            (store_observations B (ob_contributor_key req) (ob_game_id req) (ob_observations req)
               \<lparr>Accepted = 0, Rejected = 0\<rparr>)
      | _ \<Rightarrow> reject 400 ''malformed JSON body'' [])"

definition handle_sync :: "'db backend \<Rightarrow> config \<Rightarrow> request \<Rightarrow> 'db handler" where
  "handle_sync B cfg r st =
     (if rq_method r \<noteq> ''POST'' then reject 405 ''use POST'' [] st
      else case be_authenticate_relay B (trim_prefix (rq_authorization r) ''Bearer '') (snd st) of
        Inl _ \<Rightarrow> reject 401 ''invalid relay token''
          ''re-run the installer to register again and get a new token'' st
      | Inr relay_id \<Rightarrow>
          (case rq_body r of
             SyncBody status \<Rightarrow>
               let db1 = fst (be_record_status B relay_id status (snd st)) in
               (case be_desired_state B relay_id db1 of
                  Inl _ \<Rightarrow> reject 500 ''could not read desired state'' [] (fst st, db1)
                | Inr (peers, cidrs) \<Rightarrow>
                    ((fst st, db1), 200, SyncReply \<lparr>Peers = filter (\<lambda>p. peer_validate p = None) peers,
                       GameCIDRs = cidrs, PollSecs = pollSecs cfg\<rparr>))
           | _ \<Rightarrow> reject 400 ''malformed JSON body'' [] st))"

text \<open>\<open>http.ServeMux\<close> on the patterns \<open>NewServer\<close> registers: an exact path, or a path under
  the one pattern that ends in a slash. The cleaning redirects of the mux change no state.\<close>

definition serve :: "'db backend \<Rightarrow> config \<Rightarrow> nanos \<Rightarrow> request \<Rightarrow> 'db handler" where
  "serve B cfg t r =
     (let p = rq_path r in
      if p = ''/v1/relay/register'' then handle_register B cfg t r
      else if p = ''/v1/relay/sync'' then handle_sync B cfg r
      else if p = ''/v1/relay/reachability'' then handle_reachability B cfg t r
      else if p = ''/v1/activate'' then handle_activate B cfg t r
      else if p = ''/v1/session'' then handle_session B cfg r
      else if p = ''/v1/profile'' then handle_profile B r
      else if has_prefix p ''/v1/devices/'' then handle_devices B r
      else if p = ''/v1/observations'' then handle_observations B cfg t r
      else if p = ''/healthz'' then (\<lambda>st. (st, 200, TextReply (''ok'' @ [CHR 0x0A])))
      else (\<lambda>st. (st, 404, TextReply (''404 page not found'' @ [CHR 0x0A]))))"

end
