(* ===== verification/Http_Props.thy ===== *)
theory Http_Props
  imports Http Store_Evidence
begin

text \<open>
  What the control plane's HTTP surface guarantees: the contract between the handlers and the
  store as a locale, its interpretation on the store's operations, and the properties of whole
  request sequences.
\<close>

section \<open>The contract\<close>

locale store_contract =
  fixes B :: "'db backend" and inv :: "'db \<Rightarrow> bool"
  assumes register_inv: "inv db \<Longrightarrow> inv (fst (be_register_relay B inp db))"
    and status_inv: "inv db \<Longrightarrow> inv (fst (be_record_status B rid st db))"
    and reachability_inv: "inv db \<Longrightarrow> inv (fst (be_record_reachability B key pub ok detail db))"
    and activate_inv: "inv db \<Longrightarrow> inv (fst (be_activate_device B key pub fp db))"
    and session_inv: "inv db \<Longrightarrow> inv (fst (be_session B key pub mtu db))"
    and release_inv: "inv db \<Longrightarrow> inv (fst (be_release_device B key i db))"
    and observe_inv: "inv db \<Longrightarrow> inv (fst (be_record_observation B key game ip port db))"
begin

lemma limited_inv:
  assumes "\<And>db. inv db \<Longrightarrow> inv (fst (act db))" "inv (snd st)"
  shows "inv (snd (fst (limited cfg t r key act st)))"
  using assms by (simp add: limited_def split_def Let_def)

lemma register_call_inv: "inv db \<Longrightarrow> inv (fst (register_call B req db))"
  using register_inv by (auto simp: register_call_def write_err_def split: prod.split sum.split store_error.split) (metis fst_conv)+

lemma reachability_call_inv: "inv db \<Longrightarrow> inv (fst (reachability_call B req db))"
  using reachability_inv
  by (auto simp: reachability_call_def write_err_def split: prod.split sum.split store_error.split) (metis fst_conv)+

lemma activate_call_inv: "inv db \<Longrightarrow> inv (fst (activate_call B req db))"
  using activate_inv
  by (auto simp: activate_call_def write_err_def split: prod.split sum.split store_error.split) (metis fst_conv)+

lemma store_observations_inv: "inv db \<Longrightarrow> inv (fst (store_observations B key game obs out db))"
proof (induction obs arbitrary: out db)
  case (Cons ob obs)
  show ?case
  proof (cases "observed_addr ob")
    case None
    then show ?thesis using Cons by simp
  next
    case (Some w)
    obtain db' res where run: "be_record_observation B key game (v4_string w) (DstPort ob) db = (db', res)" by fastforce
    then have "inv db'" using observe_inv [OF Cons.prems] by (metis fst_conv)
    then show ?thesis using Cons.IH Some run by (auto split: sum.split store_error.split)
  qed
qed simp

lemma serve_inv:
  assumes "inv (snd st)" shows "inv (snd (fst (serve B cfg t r st)))"
proof -
  have rej: "inv (snd (fst (reject c m h st)))" for c m h using assms by (simp add: reject_def)
  have "inv (snd (fst (handle_register B cfg t r st)))"
    using rej limited_inv [OF register_call_inv assms] by (simp add: handle_register_def split: body.split)
  moreover have "inv (snd (fst (handle_reachability B cfg t r st)))"
    using rej limited_inv [OF reachability_call_inv assms] by (simp add: handle_reachability_def split: body.split)
  moreover have "inv (snd (fst (handle_activate B cfg t r st)))"
    using rej limited_inv [OF activate_call_inv assms] by (simp add: handle_activate_def split: body.split)
  moreover have "inv (snd (fst (handle_observations B cfg t r st)))"
    using rej limited_inv [OF store_observations_inv assms] by (simp add: handle_observations_def split: body.split)
  moreover have "inv (snd (fst (handle_profile B r st)))"
    using rej assms by (simp add: handle_profile_def split: sum.split)
  moreover have "inv (snd (fst (handle_session B cfg r st)))"
    using rej session_inv [OF assms] by (auto simp: handle_session_def client_auth_def Let_def
      split: prod.split sum.split store_error.split) (metis fst_conv)+
  moreover have "inv (snd (fst (handle_devices B r st)))"
    using rej release_inv [OF assms] by (auto simp: handle_devices_def client_auth_def Let_def
      split: prod.split sum.split store_error.split) (metis fst_conv)+
  moreover have "inv (snd (fst (handle_sync B cfg r st)))"
    using rej assms status_inv [OF assms] by (auto simp: handle_sync_def reject_def Let_def
      split: prod.split sum.split body.split)
  ultimately show ?thesis using assms by (simp add: serve_def Let_def)
qed

end

text \<open>\<open>Store\<close> is the backend in use; environment and random bytes belong to one request.\<close>

definition store_backend :: "(string \<Rightarrow> string) \<Rightarrow> db_env \<Rightarrow> string option \<Rightarrow> db backend" where
  "store_backend H env rnd =
     \<lparr>be_register_relay = register_relay H env rnd, be_authenticate_relay = authenticate_relay H env,
      be_record_status = record_status env, be_record_reachability = record_reachability H env,
      be_activate_device = activate_device H env, be_session = session H env,
      be_profile = get_profile env, be_release_device = release_device H env,
      be_record_observation = record_observation H env, be_desired_state = desired_state env\<rparr>"

lemma store_backend_simps [simp]:
  "be_register_relay (store_backend H env rnd) = register_relay H env rnd"
  "be_authenticate_relay (store_backend H env rnd) = authenticate_relay H env"
  "be_record_status (store_backend H env rnd) = record_status env"
  "be_record_reachability (store_backend H env rnd) = record_reachability H env"
  "be_activate_device (store_backend H env rnd) = activate_device H env"
  "be_session (store_backend H env rnd) = session H env"
  "be_profile (store_backend H env rnd) = get_profile env"
  "be_release_device (store_backend H env rnd) = release_device H env"
  "be_record_observation (store_backend H env rnd) = record_observation H env"
  "be_desired_state (store_backend H env rnd) = desired_state env"
  by (simp_all add: store_backend_def)

interpretation on_store: store_contract "store_backend H env rnd" "reachable H" for H env rnd
  by unfold_locales
    (simp_all, (metis next_step prod.collapse db_step.register db_step.status db_step.reachability
      db_step.activate db_step.session db_step.release db_step.observe)+)

section \<open>Request sequences\<close>

text \<open>One request with the environment its store calls run in.\<close>

record served =
  sv_env :: db_env
  sv_random :: "string option"
  sv_request :: request

definition serve_store :: "(string \<Rightarrow> string) \<Rightarrow> config \<Rightarrow> served \<Rightarrow> limiters \<times> db \<Rightarrow> (limiters \<times> db) \<times> response" where
  "serve_store H cfg s = serve (store_backend H (sv_env s) (sv_random s)) cfg (now (sv_env s)) (sv_request s)"

fun serve_all :: "(string \<Rightarrow> string) \<Rightarrow> config \<Rightarrow> served list \<Rightarrow> limiters \<times> db \<Rightarrow> limiters \<times> db" where
  "serve_all H cfg [] st = st"
| "serve_all H cfg (s # ss) st = serve_all H cfg ss (fst (serve_store H cfg s st))"

text \<open>Whatever requests arrive, whatever fails behind them, the tables stay in a state the
  store's own operations can reach, so every property of reachable tables holds of the running
  server.\<close>

theorem requests_keep_tables_reachable:
  assumes "reachable H (snd st)" shows "reachable H (snd (serve_all H cfg ss st))"
  using assms by (induction ss arbitrary: st) (simp_all add: serve_store_def on_store.serve_inv)

definition sample_request :: "string \<Rightarrow> string \<Rightarrow> string \<Rightarrow> body \<Rightarrow> request" where
  "sample_request m p auth b = \<lparr>rq_method = m, rq_path = p, rq_authorization = auth, rq_device_key = ''DEVKEY'',
     rq_forwarded_for = [], rq_remote_addr = ''198.51.100.7:40000'', rq_body = b\<rparr>"

definition sample_served :: "nanos \<Rightarrow> request \<Rightarrow> served" where
  "sample_served t r = \<lparr>sv_env = sample_env t, sv_random = Some ''a'', sv_request = r\<rparr>"

theorem requests_keep_tables_reachable_witness:
  "reachable sample_H (snd (serve_all sample_H (new_config 10 False)
     [sample_served 5 (sample_request ''GET'' ''/v1/session'' (''Bearer '' @ sample_key) NoBody),
      sample_served 6 (sample_request ''DELETE'' ''/v1/devices/dev-DEVKEY------'' (''Bearer '' @ sample_key) NoBody)]
     (new_limiters, sample_db)))"
  by (rule requests_keep_tables_reachable) (simp add: sample_reachable)

section \<open>Limiters first\<close>

definition limited_paths :: "string list" where
  "limited_paths = [''/v1/relay/register'', ''/v1/relay/reachability'', ''/v1/activate'', ''/v1/observations'']"

text \<open>A handler that rejects the request with nothing touched, or hands it to the limiters.\<close>

definition gated :: "config \<Rightarrow> nanos \<Rightarrow> request \<Rightarrow> 'db handler \<Rightarrow> bool" where
  "gated cfg t r h \<longleftrightarrow> (\<forall>st.
     fst (h st) = st \<and> fst (snd (h st)) \<in> {400, 405, 413} \<or>
     (\<exists>key. key \<noteq> [] \<and> fst (fst (h st)) = fst (limit_request cfg t r key (fst st)) \<and>
        (snd (limit_request cfg t r key (fst st)) \<or> snd (fst (h st)) = snd st \<and> snd (h st) = too_many)))"

lemma gated_intros:
  "key \<noteq> [] \<Longrightarrow> gated cfg t r (limited cfg t r key act)"
  "c \<in> {400, 405, 413} \<Longrightarrow> gated cfg t r (reject c m h)"
  by (auto simp: gated_def limited_def Let_def split_def reject_def write_err_def)

lemma handlers_gated:
  "gated cfg t r (handle_register B cfg t r)" "gated cfg t r (handle_reachability B cfg t r)"
  "gated cfg t r (handle_activate B cfg t r)" "gated cfg t r (handle_observations B cfg t r)"
  by (simp_all add: handle_register_def handle_reachability_def handle_activate_def handle_observations_def
      gated_intros split: body.split)



section \<open>Sync\<close>

lemma desired_state_status:
  "desired_state env rid (fst (record_status env' i st db)) = desired_state env rid db"
proof (cases "fails env' ''record status''")
  case False
  define f :: "relay_row \<Rightarrow> relay_row" where "f = (\<lambda>r. if r_id r = i
    then r\<lparr>r_last_seen := Some (now env'), r_active_peers := ActivePeers st, r_rx_bytes := RxBytes st,
           r_tx_bytes := TxBytes st, r_status := (if r_reachable_at r \<noteq> None then ''up'' else r_status r)\<rparr> else r)"
  have f: "r_id (f r) = r_id r" "r_key_hash (f r) = r_key_hash r" for r by (simp_all add: f_def)
  have run: "fst (record_status env' i st db) = db\<lparr>relay_rows := map f (relay_rows db)\<rparr>"
    using False by (simp add: record_status_def stmt_def f_def cong: if_cong)
  have "key_active (db\<lparr>relay_rows := map f (relay_rows db)\<rparr>) = key_active db"
    by (simp add: key_active_def fun_eq_iff)
  then have "peer_rows (db\<lparr>relay_rows := map f (relay_rows db)\<rparr>) rid = peer_rows db rid"
    unfolding peer_rows_def by (simp add: f comp_def cong: if_cong)
  moreover have "newest_profile (db\<lparr>relay_rows := map f (relay_rows db)\<rparr>) = newest_profile db"
    by (simp add: newest_profile_def)
  ultimately show ?thesis unfolding run by (simp add: desired_state_def split: option.split)
qed (simp add: record_status_def stmt_def)

lemma stored_peer_valid:
  assumes ok: "db_ok db" and p: "p \<in> set (peer_rows db rid)"
  shows "peer_validate p = None \<or> PublicKey p = []"
proof -
  obtain b where b: "b \<in> set (binding_rows db)" "InnerIP p = b_inner_ip b"
    using p by (elim peer_rowE) simp
  obtain n m where "77 \<le> n" "n < 256" "1 \<le> m" "m \<le> 65000" "b_inner_ip b = host_ip (octet_prefix n) m"
    by (rule binding_address [OF ok b(1)]) blast
  then show ?thesis using parse_host_ip [of n m] b(2) by (auto simp: peer_validate_None_iff)
qed

definition sample_status0 :: relay_status where
  "sample_status0 = \<lparr>ActivePeers = 1, TotalPeers = 1, RxBytes = 10, TxBytes = 20, LoadAvg1 = 0, AgentVersion = ''1''\<rparr>"

lemma sync_reply:
  assumes "reachable H (snd st)" "rq_path (sv_request s) = ''/v1/relay/sync''"
    and "serve_store H cfg s st = (st', 200, SyncReply reply)"
  shows "\<exists>rid cs. authenticate_relay H (sv_env s) (trim_prefix (rq_authorization (sv_request s)) ''Bearer '') (snd st) = Inr rid \<and>
    desired_state (sv_env s) rid (snd st) = Inr (peer_rows (snd st) rid, cs) \<and>
    Peers reply = filter (\<lambda>p. PublicKey p \<noteq> []) (peer_rows (snd st) rid) \<and>
    GameCIDRs reply = cs \<and> PollSecs reply = pollSecs cfg"
proof -
  let ?env = "sv_env s"
  have run: "handle_sync (store_backend H ?env (sv_random s)) cfg (sv_request s) st = (st', 200, SyncReply reply)"
    using assms(2,3) by (simp add: serve_store_def serve_def)
  obtain rid status where rid: "authenticate_relay H ?env (trim_prefix (rq_authorization (sv_request s)) ''Bearer '') (snd st) = Inr rid"
      "rq_body (sv_request s) = SyncBody status"
    using run by (auto simp: handle_sync_def reject_def write_err_def split: if_splits sum.splits body.splits)
  let ?db1 = "fst (record_status ?env rid status (snd st))"
  obtain ps cs where ps: "desired_state ?env rid ?db1 = Inr (ps, cs)" "Peers reply = filter (\<lambda>p. peer_validate p = None) ps"
      "GameCIDRs reply = cs" "PollSecs reply = pollSecs cfg"
    using run rid by (auto simp: handle_sync_def reject_def write_err_def Let_def split: if_splits sum.splits)
  have same: "desired_state ?env rid ?db1 = desired_state ?env rid (snd st)"
    by (rule desired_state_status)
  then have d: "desired_state ?env rid (snd st) = Inr (ps, cs)" using ps(1) by simp
  have "ps = peer_rows (snd st) rid" by (rule desired_stateD [OF d])
  moreover have "peer_validate p = None \<longleftrightarrow> PublicKey p \<noteq> []" if "p \<in> set ps" for p
    using stored_peer_valid [OF reachable_ok [OF assms(1)] that [unfolded desired_stateD [OF d]]]
    by (auto simp: peer_validate_None_iff)
  ultimately have kept: "Peers reply = filter (\<lambda>p. PublicKey p \<noteq> []) (peer_rows (snd st) rid)"
    unfolding ps(2) by (metis (mono_tags, lifting) filter_cong)
  then show ?thesis using ps(3,4) rid(1) d \<open>ps = peer_rows (snd st) rid\<close> by blast
qed

text \<open>C25. A sync is answered only to the holder of a relay's token, with peers that all pass
  \<open>Validate\<close>; and as no stored peer fails it for another reason, exactly the bound devices
  that have a public key are sent. Losing the status report does not change the answer.\<close>

theorem sync_sends_validated_peers:
  assumes "reachable H (snd st)" "rq_path (sv_request s) = ''/v1/relay/sync''"
    and "serve_store H cfg s st = (st', 200, SyncReply reply)"
  shows "\<exists>rid cs. authenticate_relay H (sv_env s) (trim_prefix (rq_authorization (sv_request s)) ''Bearer '') (snd st) = Inr rid \<and>
    desired_state (sv_env s) rid (snd st) = Inr (peer_rows (snd st) rid, cs) \<and>
    Peers reply = filter (\<lambda>p. PublicKey p \<noteq> []) (peer_rows (snd st) rid) \<and>
    (\<forall>p \<in> set (Peers reply). peer_validate p = None)"
proof -
  obtain rid cs where r: "authenticate_relay H (sv_env s) (trim_prefix (rq_authorization (sv_request s)) ''Bearer '') (snd st) = Inr rid"
    "desired_state (sv_env s) rid (snd st) = Inr (peer_rows (snd st) rid, cs)"
    "Peers reply = filter (\<lambda>p. PublicKey p \<noteq> []) (peer_rows (snd st) rid)"
    using sync_reply [OF assms] by blast
  have "peer_validate p = None" if "p \<in> set (Peers reply)" for p
    using stored_peer_valid [OF reachable_ok [OF assms(1)], of p rid] that r(3) by (auto simp: peer_validate_None_iff)
  then show ?thesis using r by blast
qed

theorem sync_sends_validated_peers_witness:
  "\<exists>reply st'. serve_store sample_H (new_config 10 False)
      (sample_served 9 (sample_request ''POST'' ''/v1/relay/sync'' ''Bearer 61'' (SyncBody sample_status0)))
      (new_limiters, sample_db) = (st', 200, SyncReply reply) \<and>
    Peers reply = [\<lparr>PublicKey = ''DEVKEY'', InnerIP = ''10.77.0.2/32''\<rparr>]"
proof -
  let ?s = "sample_served 9 (sample_request ''POST'' ''/v1/relay/sync'' ''Bearer 61'' (SyncBody sample_status0))"
  let ?st = "(new_limiters, sample_db)"
  let ?reply = "\<lparr>Peers = [\<lparr>PublicKey = ''DEVKEY'', InnerIP = ''10.77.0.2/32''\<rparr>], GameCIDRs = [], PollSecs = 10\<rparr>"
  define st' where "st' = fst (serve_store sample_H (new_config 10 False) ?s ?st)"
  have "snd (serve_store sample_H (new_config 10 False) ?s ?st) = (200, SyncReply ?reply)" by code_simp
  then have run: "serve_store sample_H (new_config 10 False) ?s ?st = (st', 200, SyncReply ?reply)"
    unfolding st'_def by (metis prod.collapse)
  have "rq_path (sv_request ?s) = ''/v1/relay/sync''" by (simp add: sample_served_def sample_request_def)
  then have "\<forall>p \<in> set (Peers ?reply). peer_validate p = None"
    using sync_sends_validated_peers [OF _ _ run] sample_reachable by auto
  then show ?thesis using run by (intro exI [of _ ?reply] exI [of _ st']) simp
qed

section \<open>Observations\<close>

text \<open>A row an accepted report may leave behind: written canonically, public, with a real port.\<close>

definition public_row :: "observed_row \<Rightarrow> bool" where
  "public_row o' \<longleftrightarrow> (\<exists>w. o_dst_ip o' = v4_string w \<and> \<not> v4_private w \<and> \<not> v4_loopback w \<and>
     \<not> v4_link_local w \<and> \<not> v4_multicast w \<and> 1 \<le> o_dst_port o' \<and> o_dst_port o' \<le> 65535)"

lemma observed_addr_Some:
  "observed_addr ob = Some w \<Longrightarrow> parse_addr (DstIP ob) = Some (V4 w) \<and> \<not> v4_private w \<and> \<not> v4_loopback w \<and>
     \<not> v4_link_local w \<and> \<not> v4_multicast w \<and> 1 \<le> DstPort ob \<and> DstPort ob \<le> 65535"
  by (auto simp: observed_addr_def split: option.splits addr.splits if_splits)

lemma record_observation_rows:
  assumes "record_observation H env key game (v4_string w) port db = (db', res)"
    "\<not> v4_private w" "\<not> v4_loopback w" "\<not> v4_link_local w" "\<not> v4_multicast w" "1 \<le> port" "port \<le> 65535"
    "\<forall>o' \<in> set (observed_rows db). public_row o'"
  shows "\<forall>o' \<in> set (observed_rows db'). public_row o'"
proof -
  have new: "public_row \<lparr>o_game = game, o_dst_ip = v4_string w, o_dst_port = port, o_key_hash = H key,
      o_first_seen = now env, o_last_seen = now env\<rparr>"
    unfolding public_row_def using assms(2-7) by (intro exI [of _ w]) simp
  have touch: "public_row (o'\<lparr>o_last_seen := t\<rparr>) = public_row o'" for o' t by (simp add: public_row_def)
  show ?thesis
    using assms(1,8) new
    by (auto simp: record_observation_def stmt_def Let_def touch split: if_splits)
qed

lemma store_observations_rows:
  assumes "\<forall>o' \<in> set (observed_rows db). public_row o'"
  shows "\<forall>o' \<in> set (observed_rows (fst (store_observations (store_backend H env rnd) key game obs out db))). public_row o'"
  using assms
proof (induction obs arbitrary: out db)
  case (Cons ob obs)
  show ?case
  proof (cases "observed_addr ob")
    case None
    then show ?thesis using Cons by simp
  next
    case (Some w)
    obtain db' res where run: "record_observation H env key game (v4_string w) (DstPort ob) db = (db', res)" by fastforce
    have "\<forall>o' \<in> set (observed_rows db'). public_row o'"
      using record_observation_rows [OF run] observed_addr_Some [OF Some] Cons.prems by blast
    then show ?thesis using Cons.IH Some run by (auto split: sum.split store_error.split)
  qed
qed simp

lemma store_observations_count:
  "snd (store_observations B key game obs out db) = (200, AcceptedReply a) \<Longrightarrow>
     Accepted a + Rejected a = Accepted out + Rejected out + int (length obs) \<and>
     Rejected a = Rejected out + int (length (filter (\<lambda>ob. observed_addr ob = None) obs))"
proof (induction obs arbitrary: out db)
  case (Cons ob obs)
  then show ?case
    by (cases "observed_addr ob")
      (force simp: write_err_def split: prod.splits sum.splits store_error.splits)+
qed simp

text \<open>C26. Everything a report leaves in the table is a public IPv4 address in canonical spelling with a
  port between 1 and 65535; the answer accounts for every observation, and the rejected ones are
  exactly those that fail this test.\<close>

theorem reports_store_public_addresses:
  assumes "\<forall>o' \<in> set (observed_rows (snd st)). public_row o'" "rq_path (sv_request s) = ''/v1/observations''"
    and "serve_store H cfg s st = (st', resp)"
  shows "(\<forall>o' \<in> set (observed_rows (snd st')). public_row o') \<and>
    (\<forall>req a. rq_body (sv_request s) = ObservationBody req \<and> resp = (200, AcceptedReply a) \<longrightarrow>
       Accepted a + Rejected a = int (length (ob_observations req)) \<and>
       Rejected a = int (length (filter (\<lambda>ob. observed_addr ob = None) (ob_observations req))))"
proof -
  let ?B = "store_backend H (sv_env s) (sv_random s)" and ?r = "sv_request s"
  have run: "handle_observations ?B cfg (now (sv_env s)) ?r st = (st', resp)"
    using assms(2,3) by (simp add: serve_store_def serve_def Let_def has_prefix_def)
  show ?thesis
  proof (cases "snd (fst (handle_observations ?B cfg (now (sv_env s)) ?r st)) = snd st \<and> fst resp \<noteq> 200")
    case True
    then show ?thesis using run assms(1) by auto
  next
    case False
    then obtain req where req: "rq_body ?r = ObservationBody req"
      "(snd st', resp) = store_observations ?B (ob_contributor_key req) (ob_game_id req) (ob_observations req)
               \<lparr>Accepted = 0, Rejected = 0\<rparr> (snd st)"
      using run by (auto simp: handle_observations_def reject_def write_err_def limited_def too_many_def Let_def
          split: if_splits body.splits prod.splits)
    then have "snd st' = fst (store_observations ?B (ob_contributor_key req) (ob_game_id req) (ob_observations req)
               \<lparr>Accepted = 0, Rejected = 0\<rparr> (snd st))"
      "resp = snd (store_observations ?B (ob_contributor_key req) (ob_game_id req) (ob_observations req)
               \<lparr>Accepted = 0, Rejected = 0\<rparr> (snd st))"
      by (metis fst_conv, metis snd_conv)
    then show ?thesis
      using store_observations_rows [OF assms(1)] store_observations_count [of ?B] req(1) by fastforce
  qed
qed

theorem reports_store_public_addresses_witness:
  "snd (serve_store sample_H (new_config 10 False)
     (sample_served 9 (sample_request ''POST'' ''/v1/observations'' []
       (ObservationBody \<lparr>ob_contributor_key = sample_key, ob_game_id = ''cs'', ob_observations =
          [\<lparr>DstIP = ''13.32.1.5'', DstPort = 27015\<rparr>, \<lparr>DstIP = ''10.0.0.1'', DstPort = 1\<rparr>]\<rparr>)))
     (new_limiters, sample_db)) = (200, AcceptedReply \<lparr>Accepted = 1, Rejected = 1\<rparr>) \<and>
   public_row \<lparr>o_game = ''cs'', o_dst_ip = ''13.32.1.5'', o_dst_port = 27015, o_key_hash = sample_H sample_key,
     o_first_seen = 9, o_last_seen = 9\<rparr>"
proof -
  let ?s = "sample_served 9 (sample_request ''POST'' ''/v1/observations'' []
       (ObservationBody \<lparr>ob_contributor_key = sample_key, ob_game_id = ''cs'', ob_observations =
          [\<lparr>DstIP = ''13.32.1.5'', DstPort = 27015\<rparr>, \<lparr>DstIP = ''10.0.0.1'', DstPort = 1\<rparr>]\<rparr>))"
  let ?run = "serve_store sample_H (new_config 10 False) ?s (new_limiters, sample_db)"
  have p: "rq_path (sv_request ?s) = ''/v1/observations''" by (simp add: sample_served_def sample_request_def)
  have start: "\<forall>o' \<in> set (observed_rows (snd (new_limiters, sample_db))). public_row o'" by (simp add: sample_db_def)
  have r: "snd ?run = (200, AcceptedReply \<lparr>Accepted = 1, Rejected = 1\<rparr>)" by code_simp
  have row: "observed_rows (snd (fst ?run)) = [\<lparr>o_game = ''cs'', o_dst_ip = ''13.32.1.5'', o_dst_port = 27015,
     o_key_hash = sample_H sample_key, o_first_seen = 9, o_last_seen = 9\<rparr>]" by code_simp
  have "?run = (fst ?run, snd ?run)" by simp
  from reports_store_public_addresses [OF start p this, THEN conjunct1] row have
    "public_row \<lparr>o_game = ''cs'', o_dst_ip = ''13.32.1.5'', o_dst_port = 27015, o_key_hash = sample_H sample_key,
     o_first_seen = 9, o_last_seen = 9\<rparr>" by simp
  with r show ?thesis by blast
qed

end
