(* ===== verification/Relay_Sync.thy ===== *)
theory Relay_Sync
  imports Wg_Kernel Http_Props
begin

text \<open>
  The relay agent against the control plane: \<open>HTTPSyncer.Sync\<close> as a request to the handlers of
  \<open>Http\<close> over the tables of \<open>Store\<close>. The properties follow a row of the tables to a peer on
  a relay's device.
\<close>

section \<open>A sync over HTTP\<close>

definition sync_request :: "string \<Rightarrow> string \<Rightarrow> relay_status \<Rightarrow> request" where
  "sync_request token remote status =
     \<lparr>rq_method = ''POST'', rq_path = ''/v1/relay/sync'', rq_authorization = ''Bearer '' @ token, rq_device_key = [],
      rq_forwarded_for = [], rq_remote_addr = remote, rq_body = SyncBody status\<rparr>"

definition error_body :: "reply \<Rightarrow> string \<times> string" where
  "error_body r = (case r of ErrorReply m h \<Rightarrow> (m, h) | _ \<Rightarrow> ([], []))"

definition sync_body :: "reply \<Rightarrow> sync_response option" where
  "sync_body r = (case r of SyncReply s \<Rightarrow> Some s | _ \<Rightarrow> None)"

text \<open>The environment and random bytes are those of the request; \<open>status_line\<close> writes the line
  of a status code.\<close>

definition remote_sync ::
    "(string \<Rightarrow> string) \<Rightarrow> config \<Rightarrow> db_env \<Rightarrow> string option \<Rightarrow> (nat \<Rightarrow> string) \<Rightarrow> string \<Rightarrow> string
     \<Rightarrow> relay_status \<Rightarrow> limiters \<times> db \<Rightarrow> (limiters \<times> db) \<times> (string + sync_response)" where
  "remote_sync H cfg env rnd status_line token remote status st =
     (let (st', code, reply) = serve_store H cfg
            \<lparr>sv_env = env, sv_random = rnd, sv_request = sync_request token remote status\<rparr> st
      in (st', http_sync code (status_line code) (error_body reply) (sync_body reply)))"

section \<open>From the tables to the device\<close>

lemma peer_rows_inj_on: "db_ok db \<Longrightarrow> inj_on PublicKey (set (peer_rows db rid))"
  using peer_rows_inj by (blast intro: inj_onI)

lemma remote_syncD:
  assumes "reachable H (snd st)" "remote_sync H cfg env rnd status_line token remote status st = (st', Inr reply)"
  shows "\<exists>rid. authenticate_relay H env token (snd st) = Inr rid \<and> reachable H (snd st') \<and>
    valid_peers (Peers reply) = filter (\<lambda>p. PublicKey p \<noteq> []) (peer_rows (snd st) rid) \<and>
    desired_state env rid (snd st) = Inr (peer_rows (snd st) rid, GameCIDRs reply) \<and> PollSecs reply = pollSecs cfg"
proof -
  let ?s = "\<lparr>sv_env = env, sv_random = rnd, sv_request = sync_request token remote status\<rparr>"
  obtain code body where run: "serve_store H cfg ?s st = (st', code, body)"
    and http: "http_sync code (status_line code) (error_body body) (sync_body body) = Inr reply"
    using assms(2) by (auto simp: remote_sync_def Let_def split: prod.splits)
  have "code = 200" "body = SyncReply reply"
    using http by (auto simp: http_sync_def sync_body_def split_def Let_def split: if_splits reply.splits)
  then have run: "serve_store H cfg ?s st = (st', 200, SyncReply reply)" using run by simp
  have p: "rq_path (sv_request ?s) = ''/v1/relay/sync''" by (simp add: sync_request_def)
  obtain rid where r: "authenticate_relay H env token (snd st) = Inr rid"
    "desired_state env rid (snd st) = Inr (peer_rows (snd st) rid, GameCIDRs reply)"
    "Peers reply = filter (\<lambda>p. PublicKey p \<noteq> []) (peer_rows (snd st) rid)" "PollSecs reply = pollSecs cfg"
    using sync_reply [OF assms(1) p run] trim_prefix_append [of "''Bearer ''" token]
    by (auto simp: sync_request_def simp del: trim_prefix_append)
  have "peer_validate q = None" if "q \<in> set (Peers reply)" for q
    using stored_peer_valid [OF reachable_ok [OF assms(1)], of q rid] that r(3) by (auto simp: peer_validate_None_iff)
  then have "valid_peers (Peers reply) = Peers reply" by (simp add: valid_peers_def)
  moreover have "reachable H (snd st')"
    using on_store.serve_inv [OF assms(1), of env rnd cfg "now env" "sync_request token remote status"] run
    by (simp add: serve_store_def)
  ultimately show ?thesis using r by auto
qed

text \<open>A pass without errors in the reconciliation leaves a device that keeps its contract at the rows of the
  tables.\<close>

lemma pass_reaches_rows:
  assumes "wg_device (dv_peers dev) (dv_apply dev) held sound suits" "sound (rh_dev h)" "reachable H (snd c)"
    and "run_once dev (remote_sync H cfg env rnd status_line token remote) sha256 apply_set reassert load version (h, c)
      = ((h', c'), next, errs)"
    and "\<forall>e \<in> set errs. \<exists>i. e = AllowlistFailed i \<or> (\<exists>f. e = FirewallFailed f)"
    and "\<And>rid. suits (filter (\<lambda>p. PublicKey p \<noteq> []) (peer_rows (snd c) rid))"
  shows "\<exists>rid. authenticate_relay H env token (snd c) = Inr rid \<and>
    held (rh_dev h') = peer_map (filter (\<lambda>p. PublicKey p \<noteq> []) (peer_rows (snd c) rid))"
proof -
  let ?cp = "remote_sync H cfg env rnd status_line token remote"
  let ?status = "status_of load version (dv_stats dev (rh_dev h))"
  obtain c1 resp where cp: "?cp ?status c = (c1, resp)" by fastforce
  obtain r where r: "resp = Inr r"
    using assms(4,5) cp by (cases resp) (auto simp: run_once_failed)
  obtain e1 e2 e3 k1 where p: "reconcile dev (valid_peers (Peers r)) (rh_dev h) = (rh_dev h', e1)"
    "errs = (case e1 of None \<Rightarrow> [] | Some e \<Rightarrow> [PeersFailed e]) @ (case e2 of None \<Rightarrow> [] | Some e \<Rightarrow> [AllowlistFailed e])
       @ (case e3 of None \<Rightarrow> [] | Some e \<Rightarrow> [FirewallFailed e])"
    by (rule run_onceE [OF cp [unfolded r] assms(4)]) blast
  then have e1: "e1 = None" using assms(5) by (cases e1) auto
  obtain rid where rid: "authenticate_relay H env token (snd c) = Inr rid"
    "valid_peers (Peers r) = filter (\<lambda>p. PublicKey p \<noteq> []) (peer_rows (snd c) rid)"
    using remote_syncD [OF assms(3) cp [unfolded r]] by blast
  let ?rows = "filter (\<lambda>p. PublicKey p \<noteq> []) (peer_rows (snd c) rid)"
  have "inj_on PublicKey (set ?rows)"
    using peer_rows_inj_on [OF reachable_ok [OF assms(3)], of rid] by (rule inj_on_subset) auto
  from wg_device.reconcile_reaches [OF assms(1) refl refl assms(2) this assms(6)] p(1) e1 rid
  show ?thesis by auto
qed

lemma rows_map:
  assumes "db_ok db"
  shows "peer_map (filter (\<lambda>p. PublicKey p \<noteq> []) (peer_rows db rid)) q = Some ip \<longleftrightarrow> q \<noteq> [] \<and>
    (\<exists>b \<in> set (binding_rows db). \<exists>d \<in> set (device_rows db). \<exists>r \<in> set (relay_rows db).
       b_relay b = rid \<and> r_id r = rid \<and> d_id d = b_device b \<and> d_pubkey d = q \<and> b_inner_ip b = ip \<and>
       key_active db (d_key_hash d) \<and> key_active db (r_key_hash r))"
proof -
  let ?rows = "filter (\<lambda>p. PublicKey p \<noteq> []) (peer_rows db rid)"
  have inj: "inj_on PublicKey (set ?rows)" using peer_rows_inj_on [OF assms, of rid] by (rule inj_on_subset) auto
  have "peer_map ?rows q = Some ip \<longleftrightarrow> q \<noteq> [] \<and> \<lparr>PublicKey = q, InnerIP = ip\<rparr> \<in> set (peer_rows db rid)"
  proof
    assume a: "peer_map ?rows q = Some ip"
    then obtain x :: api_peer where x: "x \<in> set (peer_rows db rid)" "PublicKey x \<noteq> []" "PublicKey x = q"
      using peer_map_SomeD [OF a] unfolding set_filter by blast
    have "InnerIP x = ip" using peer_map_inj [OF inj, of x] x a by simp
    then have "x = \<lparr>PublicKey = q, InnerIP = ip\<rparr>" using x(3) by (cases x) simp
    then show "q \<noteq> [] \<and> \<lparr>PublicKey = q, InnerIP = ip\<rparr> \<in> set (peer_rows db rid)" using x by simp
  next
    assume "q \<noteq> [] \<and> \<lparr>PublicKey = q, InnerIP = ip\<rparr> \<in> set (peer_rows db rid)"
    then show "peer_map ?rows q = Some ip" using peer_map_inj [OF inj, of "\<lparr>PublicKey = q, InnerIP = ip\<rparr>"] by simp
  qed
  then show ?thesis by (auto simp: in_peer_rows)
qed

text \<open>The rows suit the kernel when the keys are WireGuard keys; addresses and their uniqueness follow from
  the tables' invariant.\<close>

lemma rows_suit:
  assumes ok: "db_ok db" and keys: "\<forall>d \<in> set (device_rows db). d_pubkey d = [] \<or> key_text w own (d_pubkey d)"
  shows "kernel_suits w own (filter (\<lambda>p. PublicKey p \<noteq> []) (peer_rows db rid))"
  unfolding kernel_suits_def
proof (intro conjI ballI)
  show "inj_on InnerIP (set (filter (\<lambda>p. PublicKey p \<noteq> []) (peer_rows db rid)))"
    using peer_rows_inj [OF ok] by (auto intro!: inj_onI)
  fix p assume p: "p \<in> set (filter (\<lambda>p. PublicKey p \<noteq> []) (peer_rows db rid))"
  then obtain b d where b: "b \<in> set (binding_rows db)" "d \<in> set (device_rows db)"
    "p = \<lparr>PublicKey = d_pubkey d, InnerIP = b_inner_ip b\<rparr>" by (auto simp: in_peer_rows)
  show "key_text w own (PublicKey p)" using keys p b by auto
  obtain n m where "77 \<le> n" "n < 256" "1 \<le> m" "m \<le> 65000" "b_inner_ip b = host_ip (octet_prefix n) m"
    by (rule binding_address [OF ok b(1)]) blast
  then show "\<exists>a. InnerIP p = pfx_string (Prefix (V4 a) 32)"
    using host_ip_string [of n m] b(3) by (intro exI [of _ "host_addr n m"]) simp
qed

text \<open>C5. After a pass without errors the kernel of a relay holds, under their own addresses, exactly the
  devices that are bound to the relay while their key and the relay's key are active: a device
  appears with the first poll after its activation and a revoked one is gone after the next poll. This takes
  devices whose public keys are WireGuard keys in their standard text.\<close>

theorem relay_holds_exactly_bound_devices:
  assumes "wgctrl_documented w own conf" "reachable H (snd c)"
    and "\<forall>d \<in> set (device_rows (snd c)). d_pubkey d = [] \<or> key_text w own (d_pubkey d)"
    and "run_once (kernel_dev w) (remote_sync H cfg env rnd status_line token remote) sha256 apply_set reassert load version (h, c)
      = ((h', c'), next, errs)"
    and "\<forall>e \<in> set errs. \<exists>i. e = AllowlistFailed i \<or> (\<exists>f. e = FirewallFailed f)"
  shows "\<exists>rid. authenticate_relay H env token (snd c) = Inr rid \<and>
    (\<forall>q ip. kernel_held w conf (rh_dev h') q = Some ip \<longleftrightarrow> q \<noteq> [] \<and>
       (\<exists>b \<in> set (binding_rows (snd c)). \<exists>d \<in> set (device_rows (snd c)). \<exists>r \<in> set (relay_rows (snd c)).
          b_relay b = rid \<and> r_id r = rid \<and> d_id d = b_device b \<and> d_pubkey d = q \<and> b_inner_ip b = ip \<and>
          key_active (snd c) (d_key_hash d) \<and> key_active (snd c) (r_key_hash r)))"
proof -
  note ok = reachable_ok [OF assms(2)]
  from pass_reaches_rows [OF kernel_wg_device [OF assms(1)] TrueI assms(2,4,5) rows_suit [OF ok assms(3)]]
  show ?thesis by (auto simp: rows_map [OF ok])
qed

definition sample_kernel :: "((string \<times> prefix list) list, string \<rightharpoonup> string set) relay_host" where
  "sample_kernel = \<lparr>rh_dev = [(''OLD'', [Prefix (V4 0x0A4D0009) 32])], rh_sets = new_syncer ''games'', rh_kernel = Map.empty\<rparr>"

theorem relay_holds_exactly_bound_devices_witness:
  "let out = run_once (kernel_dev (sim_wgctrl '''')) (remote_sync sample_H (new_config 10 False) (sample_env 9) None (\<lambda>_. ''status'') ''61'' ''10.0.0.9:1'')
       (\<lambda>u. CHR ''h'' # u) (apply_with_ipset sample_ipset) (None :: (_ \<Rightarrow> _ \<times> unit option) option) 0 ''dev''
       (sample_kernel, (new_limiters, sample_db))
   in snd (snd out) = [] \<and> kernel_held (sim_wgctrl '''') sim_conf (rh_dev (fst (fst out))) ''DEVKEY'' = Some ''10.77.0.2/32'' \<and>
     kernel_held (sim_wgctrl '''') sim_conf (rh_dev (fst (fst out))) ''OLD'' = None"
proof -
  let ?cp = "remote_sync sample_H (new_config 10 False) (sample_env 9) None (\<lambda>_. ''status'') ''61'' ''10.0.0.9:1''"
  let ?w = "sim_wgctrl ''''"
  define out where "out = run_once (kernel_dev ?w) ?cp (\<lambda>u. CHR ''h'' # u) (apply_with_ipset sample_ipset)
     (None :: (_ \<Rightarrow> _ \<times> unit option) option) 0 ''dev'' (sample_kernel, (new_limiters, sample_db))"
  have out: "run_once (kernel_dev ?w) ?cp (\<lambda>u. CHR ''h'' # u) (apply_with_ipset sample_ipset)
     (None :: (_ \<Rightarrow> _ \<times> unit option) option) 0 ''dev'' (sample_kernel, (new_limiters, sample_db)) =
    ((fst (fst out), snd (fst out)), fst (snd out), snd (snd out))" by (simp add: out_def)
  have e: "snd (snd out) = []" unfolding out_def by code_simp
  have "map d_pubkey (device_rows sample_db) = [''DEVKEY'']" by code_simp
  then have "d_pubkey d = ''DEVKEY''" if "d \<in> set (device_rows sample_db)" for d
    using that by (metis image_eqI image_set empty_iff list.set(1) set_ConsD)
  then have keys: "\<forall>d \<in> set (device_rows (snd (new_limiters, sample_db))). d_pubkey d = [] \<or> key_text ?w ''OWN'' (d_pubkey d)"
    by (simp add: key_text_def sim_wgctrl_def has_prefix_def)
  have "reachable sample_H (snd (new_limiters, sample_db))" using sample_reachable by simp
  from relay_holds_exactly_bound_devices [OF sim_wgctrl_documented this keys out] e obtain rid where
    a: "authenticate_relay sample_H (sample_env 9) ''61'' sample_db = Inr rid" and
    all: "\<And>q ip. kernel_held ?w sim_conf (rh_dev (fst (fst out))) q = Some ip \<longleftrightarrow> q \<noteq> [] \<and>
       (\<exists>b \<in> set (binding_rows sample_db). \<exists>d \<in> set (device_rows sample_db). \<exists>r \<in> set (relay_rows sample_db).
          b_relay b = rid \<and> r_id r = rid \<and> d_id d = b_device b \<and> d_pubkey d = q \<and> b_inner_ip b = ip \<and>
          key_active sample_db (d_key_hash d) \<and> key_active sample_db (r_key_hash r))" by auto
  have "authenticate_relay sample_H (sample_env 9) ''61'' sample_db = Inr ''relay-RELAYKEY----''" by code_simp
  then have "rid = ''relay-RELAYKEY----''" using a by simp
  moreover have "\<exists>b \<in> set (binding_rows sample_db). \<exists>d \<in> set (device_rows sample_db). \<exists>r \<in> set (relay_rows sample_db).
          b_relay b = ''relay-RELAYKEY----'' \<and> r_id r = ''relay-RELAYKEY----'' \<and> d_id d = b_device b \<and> d_pubkey d = ''DEVKEY'' \<and>
          b_inner_ip b = ''10.77.0.2/32'' \<and> key_active sample_db (d_key_hash d) \<and> key_active sample_db (r_key_hash r)"
    by code_simp
  moreover have "\<not> (\<exists>d \<in> set (device_rows sample_db). d_pubkey d = ''OLD'')" by code_simp
  ultimately show ?thesis using all [of "''DEVKEY''" "''10.77.0.2/32''"] all [of "''OLD''"] e
    unfolding out_def [symmetric] Let_def by (metis list.distinct(1) not_None_eq)
qed

text \<open>C15. A key that is not one stops a relay. Nothing between a client and the kernel checks that a device's
  public key is a WireGuard key: from the moment a device with such a key is bound to a relay, no
  pass changes the relay's peers any more and each reports an error, so nobody who activates later appears
  and nobody who is revoked goes, until that device is released or its key revoked.\<close>

theorem unreadable_key_stalls_relay:
  assumes "wgctrl_documented w own conf" "reachable H (snd c)"
    and "authenticate_relay H env token (snd c) = Inr rid"
    and "b \<in> set (binding_rows (snd c))" "d \<in> set (device_rows (snd c))" "r \<in> set (relay_rows (snd c))"
    and "b_relay b = rid" "r_id r = rid" "d_id d = b_device b" "key_active (snd c) (d_key_hash d)" "key_active (snd c) (r_key_hash r)"
    and "d_pubkey d \<noteq> []" "parse_key w (d_pubkey d) = None"
    and "run_once (kernel_dev w) (remote_sync H cfg env rnd status_line token remote) sha256 apply_set reassert load version (h, c)
      = ((h', c'), next, errs)"
  shows "rh_dev h' = rh_dev h \<and> ((\<exists>e. SyncFailed e \<in> set errs) \<or> (\<exists>e. PeersFailed e \<in> set errs))"
proof -
  let ?cp = "remote_sync H cfg env rnd status_line token remote"
  let ?status = "status_of load version (dv_stats (kernel_dev w) (rh_dev h))"
  obtain c1 resp where cp: "?cp ?status c = (c1, resp)" by fastforce
  show ?thesis
  proof (cases resp)
    case (Inl e)
    then show ?thesis using assms(14) cp by (auto simp: run_once_failed)
  next
    case (Inr reply)
    obtain e1 e2 e3 k1 where p: "reconcile (kernel_dev w) (valid_peers (Peers reply)) (rh_dev h) = (rh_dev h', e1)"
      "errs = (case e1 of None \<Rightarrow> [] | Some e \<Rightarrow> [PeersFailed e]) @ (case e2 of None \<Rightarrow> [] | Some e \<Rightarrow> [AllowlistFailed e])
         @ (case e3 of None \<Rightarrow> [] | Some e \<Rightarrow> [FirewallFailed e])"
      by (rule run_onceE [OF cp [unfolded Inr] assms(14)]) blast
    have "valid_peers (Peers reply) = filter (\<lambda>p. PublicKey p \<noteq> []) (peer_rows (snd c) rid)"
      using remote_syncD [OF assms(2) cp [unfolded Inr]] assms(3) by auto
    then have "\<lparr>PublicKey = d_pubkey d, InnerIP = b_inner_ip b\<rparr> \<in> set (valid_peers (Peers reply))"
      using assms(4-12) by (auto simp: in_peer_rows)
    from unreadable_key_refused [OF assms(1) this, of "rh_dev h"] assms(13) p show ?thesis by auto
  qed
qed

theorem unreadable_key_stalls_relay_witness:
  "let out = run_once (kernel_dev (sim_wgctrl ''wg:'')) (remote_sync sample_H (new_config 10 False) (sample_env 9) None (\<lambda>_. ''status'') ''61'' ''10.0.0.9:1'')
       (\<lambda>u. CHR ''h'' # u) (apply_with_ipset sample_ipset) (None :: (_ \<Rightarrow> _ \<times> unit option) option) 0 ''dev''
       (sample_kernel, (new_limiters, sample_db))
   in rh_dev (fst (fst out)) = rh_dev sample_kernel"
proof -
  let ?cp = "remote_sync sample_H (new_config 10 False) (sample_env 9) None (\<lambda>_. ''status'') ''61'' ''10.0.0.9:1''"
  let ?w = "sim_wgctrl ''wg:''"
  define out where "out = run_once (kernel_dev ?w) ?cp (\<lambda>u. CHR ''h'' # u) (apply_with_ipset sample_ipset)
     (None :: (_ \<Rightarrow> _ \<times> unit option) option) 0 ''dev'' (sample_kernel, (new_limiters, sample_db))"
  have out: "run_once (kernel_dev ?w) ?cp (\<lambda>u. CHR ''h'' # u) (apply_with_ipset sample_ipset)
     (None :: (_ \<Rightarrow> _ \<times> unit option) option) 0 ''dev'' (sample_kernel, (new_limiters, sample_db)) =
    ((fst (fst out), snd (fst out)), fst (snd out), snd (snd out))" by (simp add: out_def)
  let ?c = "(new_limiters, sample_db)"
  have "\<exists>b \<in> set (binding_rows sample_db). \<exists>d \<in> set (device_rows sample_db). \<exists>r \<in> set (relay_rows sample_db).
          b_relay b = ''relay-RELAYKEY----'' \<and> r_id r = ''relay-RELAYKEY----'' \<and> d_id d = b_device b \<and>
          key_active sample_db (d_key_hash d) \<and> key_active sample_db (r_key_hash r) \<and> d_pubkey d = ''DEVKEY''"
    by code_simp
  then obtain b d r where m: "b \<in> set (binding_rows (snd ?c))" "d \<in> set (device_rows (snd ?c))" "r \<in> set (relay_rows (snd ?c))"
    "b_relay b = ''relay-RELAYKEY----''" "r_id r = ''relay-RELAYKEY----''" "d_id d = b_device b"
    "key_active (snd ?c) (d_key_hash d)" "key_active (snd ?c) (r_key_hash r)" and dev: "d_pubkey d = ''DEVKEY''" by auto
  have k: "d_pubkey d \<noteq> []" "parse_key ?w (d_pubkey d) = None" by (simp_all add: dev sim_wgctrl_def has_prefix_def)
  have a: "authenticate_relay sample_H (sample_env 9) ''61'' (snd ?c) = Inr ''relay-RELAYKEY----''" unfolding snd_conv by code_simp
  have "reachable sample_H (snd ?c)" using sample_reachable by simp
  from unreadable_key_stalls_relay [OF sim_wgctrl_documented this a m k out]
  show ?thesis unfolding out_def [symmetric] Let_def by simp
qed

end
