(* ===== verification/Routes.thy ===== *)
theory Routes
  imports Netip
begin

text \<open>
  \<open>internal/client/routes\<close> and \<open>internal/client/winnet\<close>: what belongs in the Windows routing
  table, the plan from one table to the next, the resolution of a relay's endpoint, and the
  application of a plan. The calls of \<open>winipcfg\<close> are parameters; \<open>winipcfg_documented\<close> is
  what they promise. The properties show that a plan reaches what is wanted and that the pin of
  the relay is in place whenever a tunnel route is.
\<close>

section \<open>Tables and plans\<close>

record table =
  RelayPin :: string
  Lobby :: "string list"
  Game :: "string list"

record route_change =
  AddPin :: string
  RemovePin :: string
  AddLobby :: "string list"
  DelLobby :: "string list"
  AddGame :: "string list"
  DelGame :: "string list"

definition empty_change :: "route_change \<Rightarrow> bool" where
  "empty_change c \<longleftrightarrow> AddPin c = [] \<and> RemovePin c = [] \<and> length (AddLobby c) = 0 \<and> length (DelLobby c) = 0 \<and>
     length (AddGame c) = 0 \<and> length (DelGame c) = 0"

text \<open>\<open>diff\<close>: the loops range over the keys of a map, so an entry counts once; sorting makes the
  result independent of the order of the iteration.\<close>

definition route_diff :: "string list \<Rightarrow> string list \<Rightarrow> string list \<times> string list" where
  "route_diff current want =
     (sort (filter (\<lambda>p. p \<notin> set current) (remdups want)), sort (filter (\<lambda>p. p \<notin> set want) (remdups current)))"

definition plan :: "table \<Rightarrow> table \<Rightarrow> route_change" where
  "plan current want =
     (let (al, dl) = route_diff (Lobby current) (Lobby want); (ag, dg) = route_diff (Game current) (Game want) in
      \<lparr>AddPin = (if RelayPin current \<noteq> RelayPin want then RelayPin want else []),
       RemovePin = (if RelayPin current \<noteq> RelayPin want then RelayPin current else []),
       AddLobby = al, DelLobby = dl, AddGame = ag, DelGame = dg\<rparr>)"

definition want_table :: "string \<Rightarrow> string list \<Rightarrow> string list \<Rightarrow> table" where
  "want_table pin lobby game_cidrs = \<lparr>RelayPin = pin, Lobby = sort lobby, Game = sort game_cidrs\<rparr>"

definition disconnected :: table where
  "disconnected = \<lparr>RelayPin = [], Lobby = [], Game = []\<rparr>"

section \<open>Relay endpoints\<close>

text \<open>\<open>ResolveEndpoint\<close>: \<open>lookup\<close> is the resolver, the port must be a decimal number below
  65536 without sign, as \<open>netip.ParseAddrPort\<close> reads it. The result is the literal endpoint and
  the /32 to pin.\<close>

datatype resolve_error = NotHostPort | LookupFailed | BadPort | NoIPv4

definition parse_port :: "string \<Rightarrow> nat option" where
  "parse_port s = (case parse_digits s of Some n \<Rightarrow> if n < 65536 then Some n else None | None \<Rightarrow> None)"

fun first_v4 :: "addr list \<Rightarrow> 32 word option" where
  "first_v4 [] = None"
| "first_v4 (a # as) = (case unmap a of V4 w \<Rightarrow> Some w | _ \<Rightarrow> first_v4 as)"

definition resolve_endpoint ::
    "(string \<Rightarrow> addr list option) \<Rightarrow> string \<Rightarrow> resolve_error + (32 word \<times> nat) \<times> string" where
  "resolve_endpoint lookup endpoint =
     (case split_host_port endpoint of
        None \<Rightarrow> Inl NotHostPort
      | Some (host, port) \<Rightarrow>
          (case (case parse_addr host of Some a \<Rightarrow> Some [a] | None \<Rightarrow> lookup host) of
             None \<Rightarrow> Inl LookupFailed
           | Some addrs \<Rightarrow>
               (case first_v4 addrs of
                  None \<Rightarrow> Inl NoIPv4
                | Some w \<Rightarrow>
                    (case parse_port port of
                       None \<Rightarrow> Inl BadPort
                     | Some p \<Rightarrow> Inr ((w, p), v4_string w @ ''/32'')))))"

text \<open>\<open>AddrPort.String\<close>.\<close>

definition addr_port_string :: "32 word \<times> nat \<Rightarrow> string" where
  "addr_port_string ap = v4_string (fst ap) @ '':'' @ dec (snd ap)"

section \<open>Applying a plan\<close>

text \<open>The errors of the route calls that matter, and the calls: an adapter, a prefix, a next hop.\<close>

datatype win_error = ERROR_NOT_FOUND | ERROR_OBJECT_ALREADY_EXISTS | OtherError string

record ('l, 's) winipcfg =
  delete_route :: "'l \<Rightarrow> prefix \<Rightarrow> addr \<Rightarrow> 's \<Rightarrow> 's \<times> win_error option"
  add_route :: "'l \<Rightarrow> prefix \<Rightarrow> addr \<Rightarrow> 's \<Rightarrow> 's \<times> win_error option"

record 'l applier =
  Tunnel :: 'l
  Physical :: 'l
  PhysicalGateway :: addr

datatype route_error = BadRoute string | AddFailed string win_error | DeleteFailed string win_error | NoGateway string

definition add_tunnel :: "('l, 's) winipcfg \<Rightarrow> 'l applier \<Rightarrow> string \<Rightarrow> 's \<Rightarrow> 's \<times> route_error option" where
  "add_tunnel os a cidr k =
     (case parse_prefix cidr of
        None \<Rightarrow> (k, Some (BadRoute cidr))
      | Some p \<Rightarrow>
          let k1 = fst (delete_route os (Tunnel a) p NoAddr k) in
          (case add_route os (Tunnel a) p NoAddr k1 of
             (k2, None) \<Rightarrow> (k2, None)
           | (k2, Some e) \<Rightarrow> (k2, Some (AddFailed cidr e))))"

definition del_tunnel :: "('l, 's) winipcfg \<Rightarrow> 'l applier \<Rightarrow> string \<Rightarrow> 's \<Rightarrow> 's \<times> route_error option" where
  "del_tunnel os a cidr k =
     (case parse_prefix cidr of
        None \<Rightarrow> (k, Some (BadRoute cidr))
      | Some p \<Rightarrow>
          (case delete_route os (Tunnel a) p NoAddr k of
             (k1, None) \<Rightarrow> (k1, None)
           | (k1, Some e) \<Rightarrow> (k1, if e = ERROR_NOT_FOUND then None else Some (DeleteFailed cidr e))))"

definition add_pin :: "('l, 's) winipcfg \<Rightarrow> 'l applier \<Rightarrow> string \<Rightarrow> 's \<Rightarrow> 's \<times> route_error option" where
  "add_pin os a cidr k =
     (case parse_prefix cidr of
        None \<Rightarrow> (k, Some (BadRoute cidr))
      | Some p \<Rightarrow>
          if PhysicalGateway a = NoAddr then (k, Some (NoGateway cidr))
          else let k1 = fst (delete_route os (Physical a) p (PhysicalGateway a) k) in
            (case add_route os (Physical a) p (PhysicalGateway a) k1 of
               (k2, None) \<Rightarrow> (k2, None)
             | (k2, Some e) \<Rightarrow> (k2, Some (AddFailed cidr e))))"

definition del_pin :: "('l, 's) winipcfg \<Rightarrow> 'l applier \<Rightarrow> string \<Rightarrow> 's \<Rightarrow> 's \<times> route_error option" where
  "del_pin os a cidr k =
     (case parse_prefix cidr of
        None \<Rightarrow> (k, Some (BadRoute cidr))
      | Some p \<Rightarrow>
          (case delete_route os (Physical a) p (PhysicalGateway a) k of
             (k1, None) \<Rightarrow> (k1, None)
           | (k1, Some e) \<Rightarrow> (k1, if e = ERROR_NOT_FOUND then None else Some (DeleteFailed cidr e))))"

text \<open>Steps run in order until one fails.\<close>

fun steps :: "('x \<Rightarrow> 's \<Rightarrow> 's \<times> 'e option) \<Rightarrow> 'x list \<Rightarrow> 's \<Rightarrow> 's \<times> 'e option" where
  "steps f [] k = (k, None)"
| "steps f (x # xs) k = (case f x k of (k1, None) \<Rightarrow> steps f xs k1 | (k1, Some e) \<Rightarrow> (k1, Some e))"

datatype route_step = StepAddPin string | StepAdd string | StepDel string | StepDelPin string

fun run_step :: "('l, 's) winipcfg \<Rightarrow> 'l applier \<Rightarrow> route_step \<Rightarrow> 's \<Rightarrow> 's \<times> route_error option" where
  "run_step os a (StepAddPin p) = add_pin os a p"
| "run_step os a (StepAdd p) = add_tunnel os a p"
| "run_step os a (StepDel p) = del_tunnel os a p"
| "run_step os a (StepDelPin p) = del_pin os a p"

definition added :: "route_change \<Rightarrow> string list" where "added c = AddLobby c @ AddGame c"

definition deleted :: "route_change \<Rightarrow> string list" where "deleted c = DelGame c @ DelLobby c"

definition change_steps :: "route_change \<Rightarrow> route_step list" where
  "change_steps c =
     (if AddPin c \<noteq> [] then [StepAddPin (AddPin c)] else []) @
     map StepAdd (added c) @ map StepDel (deleted c) @
     (if RemovePin c \<noteq> [] then [StepDelPin (RemovePin c)] else [])"

definition apply_plan :: "('l, 's) winipcfg \<Rightarrow> 'l applier \<Rightarrow> route_change \<Rightarrow> 's \<Rightarrow> 's \<times> route_error option" where
  "apply_plan os a c k = steps (run_step os a) (change_steps c) k"

text \<open>\<open>DefaultRoute\<close>: of the rows of the table that lead everywhere, the first with the smallest
  metric.\<close>

record 'l forward_row =
  fr_prefix_length :: nat
  fr_metric :: nat
  fr_luid :: 'l
  fr_next_hop :: addr

definition default_route :: "'l forward_row list \<Rightarrow> ('l \<times> addr) option" where
  "default_route rows =
     map_option (\<lambda>r. (fr_luid r, fr_next_hop r))
       (foldl (\<lambda>best r. if fr_prefix_length r \<noteq> 0 then best
          else case best of None \<Rightarrow> Some r | Some b \<Rightarrow> if fr_metric r < fr_metric b then Some r else best) None rows)"

section \<open>Plans reach what is wanted\<close>

lemma route_diff_sets:
  "set (fst (route_diff current want)) = set want - set current"
  "set (snd (route_diff current want)) = set current - set want"
  by (auto simp: route_diff_def)

text \<open>A plan on tables as sets of lines.\<close>

definition apply_change :: "route_change \<Rightarrow> string \<times> string set \<times> string set \<Rightarrow> string \<times> string set \<times> string set" where
  "apply_change c t =
     ((if AddPin c \<noteq> [] then AddPin c else if RemovePin c \<noteq> [] \<and> RemovePin c = fst t then [] else fst t),
      (fst (snd t) \<union> set (AddLobby c)) - set (DelLobby c), (snd (snd t) \<union> set (AddGame c)) - set (DelGame c))"

definition lines_of :: "table \<Rightarrow> string \<times> string set \<times> string set" where
  "lines_of t = (RelayPin t, set (Lobby t), set (Game t))"

text \<open>Carrying out the plan turns the current table into the wanted one; the plan is empty exactly
  when the two already agree, and no line is both added and deleted.\<close>

theorem plan_reaches_wanted:
  "apply_change (plan current want) (lines_of current) = lines_of want \<and>
   (empty_change (plan current want) \<longleftrightarrow> lines_of current = lines_of want) \<and>
   set (AddGame (plan current want)) \<inter> set (DelGame (plan current want)) = {} \<and>
   set (AddLobby (plan current want)) \<inter> set (DelLobby (plan current want)) = {} \<and>
   (AddPin (plan current want) \<noteq> [] \<longrightarrow> AddPin (plan current want) \<noteq> RemovePin (plan current want))"
proof -
  have sets: "set (AddGame (plan current want)) = set (Game want) - set (Game current)"
    "set (DelGame (plan current want)) = set (Game current) - set (Game want)"
    "set (AddLobby (plan current want)) = set (Lobby want) - set (Lobby current)"
    "set (DelLobby (plan current want)) = set (Lobby current) - set (Lobby want)"
    and pins: "AddPin (plan current want) = (if RelayPin current \<noteq> RelayPin want then RelayPin want else [])"
    "RemovePin (plan current want) = (if RelayPin current \<noteq> RelayPin want then RelayPin current else [])"
    by (simp_all add: plan_def split_def Let_def route_diff_sets)
  have "empty_change (plan current want) \<longleftrightarrow> RelayPin current = RelayPin want \<and>
      set (Lobby want) = set (Lobby current) \<and> set (Game want) = set (Game current)"
    unfolding empty_change_def length_0_conv set_empty [symmetric] sets pins by auto
  then show ?thesis unfolding apply_change_def lines_of_def sets pins by auto
qed

section \<open>What Windows promises\<close>

text \<open>\<open>routes\<close> is the kernel's table. A call that fails changes nothing; deleting what is not there
  says so.\<close>

definition winipcfg_documented :: "('l, 's) winipcfg \<Rightarrow> ('s \<Rightarrow> ('l \<times> prefix \<times> addr) set) \<Rightarrow> bool" where
  "winipcfg_documented os routes \<longleftrightarrow> (\<forall>l p h k.
     (case delete_route os l p h k of
        (k', None) \<Rightarrow> routes k' = routes k - {(l, p, h)}
      | (k', Some e) \<Rightarrow> routes k' = routes k \<and> (e = ERROR_NOT_FOUND \<longrightarrow> (l, p, h) \<notin> routes k)) \<and>
     (case add_route os l p h k of
        (k', None) \<Rightarrow> routes k' = insert (l, p, h) (routes k)
      | (k', Some e) \<Rightarrow> routes k' = routes k))"

lemma winipcfg_documentedD:
  assumes "winipcfg_documented os routes"
  shows delete_done: "delete_route os l p h k = (k', None) \<Longrightarrow> routes k' = routes k - {(l, p, h)}"
    and delete_failed: "delete_route os l p h k = (k', Some e) \<Longrightarrow> routes k' = routes k \<and> (e = ERROR_NOT_FOUND \<longrightarrow> (l, p, h) \<notin> routes k)"
    and add_done: "add_route os l p h k = (k', None) \<Longrightarrow> routes k' = insert (l, p, h) (routes k)"
    and add_failed: "add_route os l p h k = (k', Some e) \<Longrightarrow> routes k' = routes k"
proof -
  have d: "case delete_route os l p h k of
        (k', None) \<Rightarrow> routes k' = routes k - {(l, p, h)}
      | (k', Some e) \<Rightarrow> routes k' = routes k \<and> (e = ERROR_NOT_FOUND \<longrightarrow> (l, p, h) \<notin> routes k)"
    and a: "case add_route os l p h k of
        (k', None) \<Rightarrow> routes k' = insert (l, p, h) (routes k)
      | (k', Some e) \<Rightarrow> routes k' = routes k"
    using spec [OF spec [OF spec [OF spec [OF assms [unfolded winipcfg_documented_def], of l], of p], of h], of k]
    by (rule conjunct1, rule conjunct2)
  show "delete_route os l p h k = (k', None) \<Longrightarrow> routes k' = routes k - {(l, p, h)}"
    and "delete_route os l p h k = (k', Some e) \<Longrightarrow> routes k' = routes k \<and> (e = ERROR_NOT_FOUND \<longrightarrow> (l, p, h) \<notin> routes k)"
    and "add_route os l p h k = (k', None) \<Longrightarrow> routes k' = insert (l, p, h) (routes k)"
    and "add_route os l p h k = (k', Some e) \<Longrightarrow> routes k' = routes k"
    using d a by simp_all
qed

text \<open>The prefixes routed into the tunnel and those pinned.\<close>

definition tunnelled :: "'l applier \<Rightarrow> ('l \<times> prefix \<times> addr) set \<Rightarrow> prefix set" where
  "tunnelled a rs = {p. (Tunnel a, p, NoAddr) \<in> rs}"

definition pinned :: "'l applier \<Rightarrow> ('l \<times> prefix \<times> addr) set \<Rightarrow> prefix set" where
  "pinned a rs = {p. (Physical a, p, PhysicalGateway a) \<in> rs}"

text \<open>The calls with a record of every state of the table they lead to.\<close>

definition recorded :: "('l, 's) winipcfg \<Rightarrow> ('l, 's \<times> 's list) winipcfg" where
  "recorded os =
     \<lparr>delete_route = (\<lambda>l p h st. let (k, e) = delete_route os l p h (fst st) in ((k, snd st @ [k]), e)),
      add_route = (\<lambda>l p h st. let (k, e) = add_route os l p h (fst st) in ((k, snd st @ [k]), e))\<rparr>"

text \<open>From \<open>st\<close> to \<open>st'\<close> every new state of the table satisfies \<open>Q\<close>, the last one too.\<close>

definition through :: "('s \<Rightarrow> ('l \<times> prefix \<times> addr) set) \<Rightarrow> (('l \<times> prefix \<times> addr) set \<Rightarrow> bool) \<Rightarrow> 's \<times> 's list \<Rightarrow> 's \<times> 's list \<Rightarrow> bool" where
  "through routes Q st st' \<longleftrightarrow> (\<forall>t \<in> set (snd st'). t \<in> set (snd st) \<or> Q (routes t)) \<and> Q (routes (fst st'))"

lemma through_trans: "through routes Q a b \<Longrightarrow> through routes Q b c \<Longrightarrow> through routes Q a c"
  unfolding through_def by blast

lemma through_mono: "through routes Q a b \<Longrightarrow> (\<And>t. Q t \<Longrightarrow> R t) \<Longrightarrow> through routes R a b"
  unfolding through_def by blast

lemma through_refl: "Q (routes (fst st)) \<Longrightarrow> through routes Q st st"
  by (simp add: through_def)

lemma recorded_delete:
  assumes "winipcfg_documented os routes" "delete_route (recorded os) l p h st = (st', e)"
  shows "Q (routes (fst st')) \<Longrightarrow> through routes Q st st'"
    and "routes (fst st') = (if e = None then routes (fst st) - {(l, p, h)} else routes (fst st))"
    and "e = Some ERROR_NOT_FOUND \<Longrightarrow> (l, p, h) \<notin> routes (fst st)"
proof -
  obtain k d where d: "delete_route os l p h (fst st) = (k, d)" by fastforce
  then have st': "st' = (k, snd st @ [k])" "e = d" using assms(2) by (simp_all add: recorded_def)
  show "Q (routes (fst st')) \<Longrightarrow> through routes Q st st'" by (simp add: st' through_def)
  show "routes (fst st') = (if e = None then routes (fst st) - {(l, p, h)} else routes (fst st))"
    "e = Some ERROR_NOT_FOUND \<Longrightarrow> (l, p, h) \<notin> routes (fst st)"
    using d delete_done [OF assms(1), of l p h "fst st" k] delete_failed [OF assms(1), of l p h "fst st" k]
    by (cases d; simp add: st')+
qed

lemma recorded_add:
  assumes "winipcfg_documented os routes" "add_route (recorded os) l p h st = (st', e)"
  shows "Q (routes (fst st')) \<Longrightarrow> through routes Q st st'"
    and "routes (fst st') = (if e = None then insert (l, p, h) (routes (fst st)) else routes (fst st))"
proof -
  obtain k d where d: "add_route os l p h (fst st) = (k, d)" by fastforce
  then have st': "st' = (k, snd st @ [k])" "e = d" using assms(2) by (simp_all add: recorded_def)
  show "Q (routes (fst st')) \<Longrightarrow> through routes Q st st'" by (simp add: st' through_def)
  show "routes (fst st') = (if e = None then insert (l, p, h) (routes (fst st)) else routes (fst st))"
    using d add_done [OF assms(1), of l p h "fst st" k] add_failed [OF assms(1), of l p h "fst st" k]
    by (cases d) (simp_all add: st')
qed

section \<open>Single steps\<close>

definition nets :: "string set \<Rightarrow> prefix set" where
  "nets cs = {p. \<exists>c \<in> cs. parse_prefix c = Some p}"

lemma nets_simps [simp]: "nets {} = {}" "nets (A \<union> B) = nets A \<union> nets B"
  "nets (insert c A) = (case parse_prefix c of None \<Rightarrow> nets A | Some p \<Rightarrow> insert p (nets A))"
  by (auto simp: nets_def split: option.split)

lemma nets_mono: "A \<subseteq> B \<Longrightarrow> nets A \<subseteq> nets B"
  by (auto simp: nets_def)

lemma route_views [simp]:
  "Tunnel a \<noteq> Physical a \<Longrightarrow> pinned a (rs - {(Tunnel a, p, h)}) = pinned a rs"
  "Tunnel a \<noteq> Physical a \<Longrightarrow> pinned a (insert (Tunnel a, p, h) rs) = pinned a rs"
  "tunnelled a (rs - {(Tunnel a, p, NoAddr)}) = tunnelled a rs - {p}"
  "tunnelled a (insert (Tunnel a, p, NoAddr) rs) = insert p (tunnelled a rs)"
  "Tunnel a \<noteq> Physical a \<Longrightarrow> tunnelled a (rs - {(Physical a, p, h)}) = tunnelled a rs"
  "Tunnel a \<noteq> Physical a \<Longrightarrow> tunnelled a (insert (Physical a, p, h) rs) = tunnelled a rs"
  "pinned a (rs - {(Physical a, p, PhysicalGateway a)}) = pinned a rs - {p}"
  "pinned a (insert (Physical a, p, PhysicalGateway a) rs) = insert p (pinned a rs)"
  by (auto simp: tunnelled_def pinned_def)

lemma add_tunnel_step:
  assumes doc: "winipcfg_documented os routes" and lu: "Tunnel a \<noteq> Physical a"
    and run: "add_tunnel (recorded os) a c st = (st', e)"
  shows "through routes (\<lambda>t. pinned a t = pinned a (routes (fst st)) \<and>
      tunnelled a t \<subseteq> tunnelled a (routes (fst st)) \<union> nets {c}) st st' \<and>
    (e = None \<longrightarrow> parse_prefix c \<noteq> None \<and> tunnelled a (routes (fst st')) = tunnelled a (routes (fst st)) \<union> nets {c})"
proof (cases "parse_prefix c")
  case None
  then show ?thesis using run by (auto simp: add_tunnel_def intro: through_refl)
next
  case (Some p)
  obtain st1 d where d: "delete_route (recorded os) (Tunnel a) p NoAddr st = (st1, d)" by fastforce
  obtain st2 b where b: "add_route (recorded os) (Tunnel a) p NoAddr st1 = (st2, b)" by fastforce
  note D = recorded_delete [OF doc d] and B = recorded_add [OF doc b]
  have r: "st' = st2" "e = None \<longleftrightarrow> b = None" using run Some d b by (auto simp: add_tunnel_def split: option.splits)
  let ?Q = "\<lambda>t. pinned a t = pinned a (routes (fst st)) \<and> tunnelled a t \<subseteq> tunnelled a (routes (fst st)) \<union> nets {c}"
  have 1: "?Q (routes (fst st1))" using lu unfolding D(2) by auto
  have 2: "?Q (routes (fst st2))" using 1 lu Some unfolding B(2) by auto
  have "through routes ?Q st st1" using 1 by (rule D(1))
  moreover have "through routes ?Q st1 st2" using 2 by (rule B(1))
  ultimately have "through routes ?Q st st2" by (rule through_trans)
  moreover have "e = None \<longrightarrow> tunnelled a (routes (fst st2)) = tunnelled a (routes (fst st)) \<union> nets {c}"
    using Some r(2) unfolding B(2) D(2) by auto
  ultimately show ?thesis using Some r by simp
qed

lemma del_tunnel_step:
  assumes doc: "winipcfg_documented os routes" and lu: "Tunnel a \<noteq> Physical a"
    and run: "del_tunnel (recorded os) a c st = (st', e)"
  shows "through routes (\<lambda>t. pinned a t = pinned a (routes (fst st)) \<and>
      tunnelled a t \<subseteq> tunnelled a (routes (fst st))) st st' \<and>
    (e = None \<longrightarrow> parse_prefix c \<noteq> None \<and> tunnelled a (routes (fst st')) = tunnelled a (routes (fst st)) - nets {c})"
proof (cases "parse_prefix c")
  case None
  then show ?thesis using run by (auto simp: del_tunnel_def intro: through_refl)
next
  case (Some p)
  obtain st1 d where d: "delete_route (recorded os) (Tunnel a) p NoAddr st = (st1, d)" by fastforce
  note D = recorded_delete [OF doc d]
  have r: "st' = st1" "e = None \<longleftrightarrow> d = None \<or> d = Some ERROR_NOT_FOUND"
    using run Some d by (auto simp: del_tunnel_def split: option.splits if_splits)
  let ?Q = "\<lambda>t. pinned a t = pinned a (routes (fst st)) \<and> tunnelled a t \<subseteq> tunnelled a (routes (fst st))"
  have 1: "?Q (routes (fst st1))" using lu unfolding D(2) by auto
  have "through routes ?Q st st1" using 1 by (rule D(1))
  moreover have "e = None \<longrightarrow> tunnelled a (routes (fst st1)) = tunnelled a (routes (fst st)) - nets {c}"
    using Some r(2) D(3) unfolding D(2) by (auto simp: tunnelled_def)
  ultimately show ?thesis using Some r by simp
qed

lemma add_pin_step:
  assumes doc: "winipcfg_documented os routes" and lu: "Tunnel a \<noteq> Physical a"
    and run: "add_pin (recorded os) a c st = (st', e)"
  shows "through routes (\<lambda>t. tunnelled a t = tunnelled a (routes (fst st)) \<and>
      pinned a (routes (fst st)) - nets {c} \<subseteq> pinned a t) st st' \<and>
    (e = None \<longrightarrow> parse_prefix c \<noteq> None \<and> pinned a (routes (fst st')) = pinned a (routes (fst st)) \<union> nets {c})"
proof (cases "parse_prefix c = None \<or> PhysicalGateway a = NoAddr")
  case True
  then show ?thesis using run by (auto simp: add_pin_def intro: through_refl split: option.splits)
next
  case False
  then obtain p where p: "parse_prefix c = Some p" by auto
  obtain st1 d where d: "delete_route (recorded os) (Physical a) p (PhysicalGateway a) st = (st1, d)" by fastforce
  obtain st2 b where b: "add_route (recorded os) (Physical a) p (PhysicalGateway a) st1 = (st2, b)" by fastforce
  note D = recorded_delete [OF doc d] and B = recorded_add [OF doc b]
  have r: "st' = st2" "e = None \<longleftrightarrow> b = None" using run False p d b by (auto simp: add_pin_def split: option.splits)
  let ?Q = "\<lambda>t. tunnelled a t = tunnelled a (routes (fst st)) \<and> pinned a (routes (fst st)) - nets {c} \<subseteq> pinned a t"
  have 1: "?Q (routes (fst st1))" using lu p unfolding D(2) by auto
  have 2: "?Q (routes (fst st2))" using 1 lu unfolding B(2) by auto
  have "through routes ?Q st st1" using 1 by (rule D(1))
  moreover have "through routes ?Q st1 st2" using 2 by (rule B(1))
  ultimately have "through routes ?Q st st2" by (rule through_trans)
  moreover have "e = None \<longrightarrow> pinned a (routes (fst st2)) = pinned a (routes (fst st)) \<union> nets {c}"
    using p r(2) unfolding B(2) D(2) by auto
  ultimately show ?thesis using p r by simp
qed

lemma del_pin_step:
  assumes doc: "winipcfg_documented os routes" and lu: "Tunnel a \<noteq> Physical a"
    and run: "del_pin (recorded os) a c st = (st', e)"
  shows "through routes (\<lambda>t. tunnelled a t = tunnelled a (routes (fst st)) \<and>
      pinned a (routes (fst st)) - nets {c} \<subseteq> pinned a t) st st' \<and>
    (e = None \<longrightarrow> parse_prefix c \<noteq> None \<and> pinned a (routes (fst st')) = pinned a (routes (fst st)) - nets {c})"
proof (cases "parse_prefix c")
  case None
  then show ?thesis using run by (auto simp: del_pin_def intro: through_refl)
next
  case (Some p)
  obtain st1 d where d: "delete_route (recorded os) (Physical a) p (PhysicalGateway a) st = (st1, d)" by fastforce
  note D = recorded_delete [OF doc d]
  have r: "st' = st1" "e = None \<longleftrightarrow> d = None \<or> d = Some ERROR_NOT_FOUND"
    using run Some d by (auto simp: del_pin_def split: option.splits if_splits)
  let ?Q = "\<lambda>t. tunnelled a t = tunnelled a (routes (fst st)) \<and> pinned a (routes (fst st)) - nets {c} \<subseteq> pinned a t"
  have 1: "?Q (routes (fst st1))" using lu Some unfolding D(2) by auto
  have "through routes ?Q st st1" using 1 by (rule D(1))
  moreover have "e = None \<longrightarrow> pinned a (routes (fst st1)) = pinned a (routes (fst st)) - nets {c}"
    using Some r(2) D(3) unfolding D(2) by (auto simp: pinned_def)
  ultimately show ?thesis using Some r by simp
qed

section \<open>Whole plans\<close>

lemma steps_append:
  "steps f (xs @ ys) k = (case steps f xs k of (k1, None) \<Rightarrow> steps f ys k1 | (k1, Some e) \<Rightarrow> (k1, Some e))"
  by (induction f xs k rule: steps.induct) (auto split: prod.split option.split)

lemma add_steps:
  assumes doc: "winipcfg_documented os routes" and lu: "Tunnel a \<noteq> Physical a"
  shows "steps (run_step (recorded os) a) (map StepAdd cs) st = (st', e) \<Longrightarrow>
    through routes (\<lambda>t. pinned a t = pinned a (routes (fst st)) \<and>
      tunnelled a t \<subseteq> tunnelled a (routes (fst st)) \<union> nets (set cs)) st st' \<and>
    (e = None \<longrightarrow> tunnelled a (routes (fst st')) = tunnelled a (routes (fst st)) \<union> nets (set cs))"
proof (induction cs arbitrary: st)
  case Nil
  then show ?case by (auto intro: through_refl)
next
  case (Cons c cs)
  obtain st1 d where d: "add_tunnel (recorded os) a c st = (st1, d)" by fastforce
  note A = add_tunnel_step [OF doc lu d]
  have sub: "nets (set (c # cs)) = nets {c} \<union> nets (set cs)" by (auto split: option.splits)
  have one: "pinned a (routes (fst st1)) = pinned a (routes (fst st))"
    "tunnelled a (routes (fst st1)) \<subseteq> tunnelled a (routes (fst st)) \<union> nets {c}"
    using A by (simp_all add: through_def)
  have t1: "through routes (\<lambda>t. pinned a t = pinned a (routes (fst st)) \<and>
      tunnelled a t \<subseteq> tunnelled a (routes (fst st)) \<union> nets (set (c # cs))) st st1"
    unfolding sub by (rule through_mono [OF conjunct1 [OF A]]) blast
  show ?case
  proof (cases d)
    case (Some x)
    then have "st' = st1" "e \<noteq> None" using Cons.prems d by auto
    then show ?thesis using t1 by blast
  next
    case None
    then have run: "steps (run_step (recorded os) a) (map StepAdd cs) st1 = (st', e)" using Cons.prems d by simp
    note IH = Cons.IH [OF run]
    have "through routes (\<lambda>t. pinned a t = pinned a (routes (fst st)) \<and>
      tunnelled a t \<subseteq> tunnelled a (routes (fst st)) \<union> nets (set (c # cs))) st1 st'"
      unfolding sub by (rule through_mono [OF conjunct1 [OF IH]]) (use one in blast)
    with t1 have "through routes (\<lambda>t. pinned a t = pinned a (routes (fst st)) \<and>
      tunnelled a t \<subseteq> tunnelled a (routes (fst st)) \<union> nets (set (c # cs))) st st'" by (rule through_trans)
    moreover have "e = None \<longrightarrow> tunnelled a (routes (fst st')) = tunnelled a (routes (fst st)) \<union> nets (set (c # cs))"
      unfolding sub using IH A None by blast
    ultimately show ?thesis by blast
  qed
qed

lemma del_steps:
  assumes doc: "winipcfg_documented os routes" and lu: "Tunnel a \<noteq> Physical a"
  shows "steps (run_step (recorded os) a) (map StepDel cs) st = (st', e) \<Longrightarrow>
    through routes (\<lambda>t. pinned a t = pinned a (routes (fst st)) \<and>
      tunnelled a t \<subseteq> tunnelled a (routes (fst st))) st st' \<and>
    (e = None \<longrightarrow> tunnelled a (routes (fst st')) = tunnelled a (routes (fst st)) - nets (set cs))"
proof (induction cs arbitrary: st)
  case Nil
  then show ?case by (auto intro: through_refl)
next
  case (Cons c cs)
  obtain st1 d where d: "del_tunnel (recorded os) a c st = (st1, d)" by fastforce
  note A = del_tunnel_step [OF doc lu d]
  have sub: "nets (set (c # cs)) = nets {c} \<union> nets (set cs)" by (auto split: option.splits)
  have one: "pinned a (routes (fst st1)) = pinned a (routes (fst st))"
    "tunnelled a (routes (fst st1)) \<subseteq> tunnelled a (routes (fst st))"
    using A by (simp_all add: through_def)
  show ?case
  proof (cases d)
    case (Some x)
    then have "st' = st1" "e \<noteq> None" using Cons.prems d by auto
    then show ?thesis using A by blast
  next
    case None
    then have run: "steps (run_step (recorded os) a) (map StepDel cs) st1 = (st', e)" using Cons.prems d by simp
    note IH = Cons.IH [OF run]
    have "through routes (\<lambda>t. pinned a t = pinned a (routes (fst st)) \<and>
      tunnelled a t \<subseteq> tunnelled a (routes (fst st))) st1 st'"
      by (rule through_mono [OF conjunct1 [OF IH]]) (use one in blast)
    with conjunct1 [OF A] have "through routes (\<lambda>t. pinned a t = pinned a (routes (fst st)) \<and>
      tunnelled a t \<subseteq> tunnelled a (routes (fst st))) st st'" by (rule through_trans)
    moreover have "e = None \<longrightarrow> tunnelled a (routes (fst st')) = tunnelled a (routes (fst st)) - nets (set (c # cs))"
      unfolding sub using IH A None by blast
    ultimately show ?thesis by blast
  qed
qed

text \<open>The pin of a table is in place.\<close>

definition pin_in :: "'l applier \<Rightarrow> string \<Rightarrow> ('l \<times> prefix \<times> addr) set \<Rightarrow> bool" where
  "pin_in a pin rs \<longleftrightarrow> pin \<noteq> [] \<and> nets {pin} \<noteq> {} \<and> nets {pin} \<subseteq> pinned a rs"

text \<open>While a prefix is routed into the tunnel, so is the relay's own pin past it.\<close>

definition guarded :: "'l applier \<Rightarrow> string set \<Rightarrow> ('l \<times> prefix \<times> addr) set \<Rightarrow> bool" where
  "guarded a pins rs \<longleftrightarrow> (tunnelled a rs \<noteq> {} \<longrightarrow> (\<exists>pin \<in> pins. pin_in a pin rs))"

definition lines :: "table \<Rightarrow> string set" where
  "lines t = set (Lobby t) \<union> set (Game t)"

text \<open>Two lines for the same prefix are the same line, as for prefixes in canonical form.\<close>

definition distinct_nets :: "string set \<Rightarrow> bool" where
  "distinct_nets A \<longleftrightarrow> (\<forall>c \<in> A. \<forall>d \<in> A. parse_prefix c \<noteq> None \<and> parse_prefix c = parse_prefix d \<longrightarrow> c = d)"

lemma distinct_netsD: "distinct_nets C \<Longrightarrow> A \<union> B \<subseteq> C \<Longrightarrow> A \<inter> B = {} \<Longrightarrow> nets A \<inter> nets B = {}"
proof (rule equals0I)
  fix p assume d: "distinct_nets C" "A \<union> B \<subseteq> C" "A \<inter> B = {}" and "p \<in> nets A \<inter> nets B"
  then obtain x y where xy: "x \<in> A" "y \<in> B" "parse_prefix x = Some p" "parse_prefix y = Some p"
    by (auto simp: nets_def)
  then have "x = y" using d(1,2) unfolding distinct_nets_def by (metis Un_iff option.distinct(1) subsetD)
  then show False using xy d(3) by blast
qed

text \<open>What a plan starts from. Of the two tables: routes are only wanted together with a pin, lines
  are canonical and none is both a lobby and a game route. Of the kernel: nothing is routed that
  is not recorded, and the recorded pin is in place.\<close>

definition plan_tables :: "table \<Rightarrow> table \<Rightarrow> bool" where
  "plan_tables current want \<longleftrightarrow> (RelayPin want = [] \<longrightarrow> lines want = {}) \<and>
     distinct_nets (lines current \<union> lines want) \<and> distinct_nets {RelayPin current, RelayPin want} \<and>
     (set (Lobby current) \<union> set (Lobby want)) \<inter> (set (Game current) \<union> set (Game want)) = {}"

definition plan_kernel :: "'l applier \<Rightarrow> table \<Rightarrow> ('l \<times> prefix \<times> addr) set \<Rightarrow> bool" where
  "plan_kernel a current rs \<longleftrightarrow> Tunnel a \<noteq> Physical a \<and> tunnelled a rs \<subseteq> nets (lines current) \<and>
     (RelayPin current \<noteq> [] \<longrightarrow> pin_in a (RelayPin current) rs) \<and> (RelayPin current = [] \<longrightarrow> tunnelled a rs = {})"

text \<open>The states a plan may pass through.\<close>

definition plan_safe :: "'l applier \<Rightarrow> table \<Rightarrow> table \<Rightarrow> ('l \<times> prefix \<times> addr) set \<Rightarrow> bool" where
  "plan_safe a current want t \<longleftrightarrow> guarded a {RelayPin current, RelayPin want} t \<and>
     tunnelled a t \<subseteq> nets (lines current \<union> lines want)"

lemma pin_in_mono: "pin_in a x rs \<Longrightarrow> pinned a rs \<subseteq> pinned a rs' \<Longrightarrow> pin_in a x rs'"
  by (auto simp: pin_in_def)

lemma pin_kept:
  assumes "pin_in a x rs" "pinned a rs - nets {y} \<subseteq> pinned a rs'" "x \<noteq> y" "distinct_nets {x, y}"
  shows "pin_in a x rs'"
proof -
  have "nets {x} \<inter> nets {y} = {}" by (rule distinct_netsD [OF assms(4)]) (use assms(3) in auto)
  then show ?thesis using assms(1,2) unfolding pin_in_def by blast
qed

lemma through_last: "through routes Q a b \<Longrightarrow> Q (routes (fst b))"
  by (simp add: through_def)

lemma plan_lines:
  assumes "plan_tables current want"
  shows "set (added (plan current want)) = lines want - lines current"
    and "set (deleted (plan current want)) = lines current - lines want"
    and "nets (lines want) \<inter> nets (set (deleted (plan current want))) = {}"
    and "nets (lines current) \<subseteq> nets (lines want) \<union> nets (set (deleted (plan current want)))"
    and "nets (lines want) \<subseteq> nets (lines current) \<union> nets (set (added (plan current want)))"
    and "nets (set (added (plan current want))) \<subseteq> nets (lines want)"
    and "RelayPin want = [] \<Longrightarrow> nets (set (added (plan current want))) = {}"
proof -
  have lg: "(set (Lobby current) \<union> set (Lobby want)) \<inter> (set (Game current) \<union> set (Game want)) = {}"
    and dn: "distinct_nets (lines current \<union> lines want)" and noy: "RelayPin want = [] \<longrightarrow> lines want = {}"
    using assms by (simp_all add: plan_tables_def)
  show A: "set (added (plan current want)) = lines want - lines current" and D: "set (deleted (plan current want)) = lines current - lines want"
    using lg by (auto simp: added_def deleted_def plan_def split_def Let_def route_diff_sets lines_def)
  show "nets (lines want) \<inter> nets (set (deleted (plan current want))) = {}" unfolding D by (rule distinct_netsD [OF dn]) auto
  have "lines current \<subseteq> lines want \<union> set (deleted (plan current want))" "lines want \<subseteq> lines current \<union> set (added (plan current want))" "set (added (plan current want)) \<subseteq> lines want"
    unfolding A D by auto
  then show "nets (lines current) \<subseteq> nets (lines want) \<union> nets (set (deleted (plan current want)))"
    "nets (lines want) \<subseteq> nets (lines current) \<union> nets (set (added (plan current want)))" "nets (set (added (plan current want))) \<subseteq> nets (lines want)"
    by (metis nets_mono nets_simps(2))+
  show "RelayPin want = [] \<Longrightarrow> nets (set (added (plan current want))) = {}" unfolding A using noy by simp
qed

lemma plan_pins:
  "AddPin (plan current want) = (if RelayPin current \<noteq> RelayPin want then RelayPin want else [])"
  "RemovePin (plan current want) = (if RelayPin current \<noteq> RelayPin want then RelayPin current else [])"
  by (simp_all add: plan_def split_def Let_def)

text \<open>Changing one pin keeps the other and every tunnel route.\<close>

lemma add_pin_keeps:
  assumes "winipcfg_documented os routes" "Tunnel a \<noteq> Physical a" "add_pin (recorded os) a y st = (st', e)"
    and "x \<noteq> y" "distinct_nets {x, y}" "x \<noteq> [] \<longrightarrow> pin_in a x (routes (fst st))"
  shows "through routes (\<lambda>t. tunnelled a t = tunnelled a (routes (fst st)) \<and> (x \<noteq> [] \<longrightarrow> pin_in a x t)) st st' \<and>
    (e = None \<longrightarrow> y \<noteq> [] \<longrightarrow> pin_in a y (routes (fst st')))"
proof -
  note S = add_pin_step [OF assms(1-3)]
  have "through routes (\<lambda>t. tunnelled a t = tunnelled a (routes (fst st)) \<and> (x \<noteq> [] \<longrightarrow> pin_in a x t)) st st'"
    by (rule through_mono [OF conjunct1 [OF S]]) (use pin_kept [OF _ _ assms(4,5)] assms(6) in blast)
  then show ?thesis using S by (auto simp: pin_in_def)
qed

lemma del_pin_keeps:
  assumes "winipcfg_documented os routes" "Tunnel a \<noteq> Physical a" "del_pin (recorded os) a x st = (st', e)"
    and "y \<noteq> x" "distinct_nets {y, x}" "y \<noteq> [] \<longrightarrow> pin_in a y (routes (fst st))"
  shows "through routes (\<lambda>t. tunnelled a t = tunnelled a (routes (fst st)) \<and> (y \<noteq> [] \<longrightarrow> pin_in a y t)) st st'"
proof -
  note S = del_pin_step [OF assms(1-3)]
  show ?thesis
    by (rule through_mono [OF conjunct1 [OF S]]) (use pin_kept [OF _ _ assms(4,5)] assms(6) in blast)
qed

text \<open>The phases of a plan.\<close>

definition pin_steps :: "table \<Rightarrow> table \<Rightarrow> route_step list" where
  "pin_steps current want = (if AddPin (plan current want) \<noteq> [] then [StepAddPin (AddPin (plan current want))] else [])"

definition unpin_steps :: "table \<Rightarrow> table \<Rightarrow> route_step list" where
  "unpin_steps current want =
     (if RemovePin (plan current want) \<noteq> [] then [StepDelPin (RemovePin (plan current want))] else [])"

lemma pin_phase:
  assumes doc: "winipcfg_documented os routes" and tabs: "plan_tables current want"
    and kern: "plan_kernel a current (routes (fst st))"
    and run: "steps (run_step (recorded os) a) (pin_steps current want) st = (st1, e1)"
  shows "through routes (\<lambda>t. plan_safe a current want t \<and> tunnelled a t = tunnelled a (routes (fst st)) \<and>
      (RelayPin current \<noteq> [] \<longrightarrow> pin_in a (RelayPin current) t)) st st1 \<and>
    (e1 = None \<longrightarrow> RelayPin want \<noteq> [] \<longrightarrow> pin_in a (RelayPin want) (routes (fst st1)))"
proof -
  let ?X = "RelayPin current" and ?Y = "RelayPin want"
  have lu: "Tunnel a \<noteq> Physical a" and rec: "tunnelled a (routes (fst st)) \<subseteq> nets (lines current)"
    and px: "?X \<noteq> [] \<longrightarrow> pin_in a ?X (routes (fst st))" and nox: "?X = [] \<longrightarrow> tunnelled a (routes (fst st)) = {}"
    and dp: "distinct_nets {?X, ?Y}"
    using kern tabs by (simp_all add: plan_kernel_def plan_tables_def)
  have safe: "plan_safe a current want t"
    if "tunnelled a t = tunnelled a (routes (fst st))" "?X \<noteq> [] \<longrightarrow> pin_in a ?X t" for t
    using that rec nox by (auto simp: plan_safe_def guarded_def)
  show ?thesis
  proof (cases "AddPin (plan current want) = []")
    case True
    then have "st1 = st" "?Y \<noteq> [] \<longrightarrow> ?X = ?Y" using run by (auto simp: pin_steps_def plan_pins split: if_splits)
    then show ?thesis using px safe by (auto intro: through_refl)
  next
    case False
    then have xy: "?X \<noteq> ?Y" "AddPin (plan current want) = ?Y" by (auto simp: plan_pins split: if_splits)
    then have "add_pin (recorded os) a ?Y st = (st1, e1)"
      using run False by (auto simp: pin_steps_def split: option.splits prod.splits)
    note S = add_pin_keeps [OF doc lu this xy(1) dp px]
    have "through routes (\<lambda>t. plan_safe a current want t \<and> tunnelled a t = tunnelled a (routes (fst st)) \<and>
        (?X \<noteq> [] \<longrightarrow> pin_in a ?X t)) st st1"
      by (rule through_mono [OF conjunct1 [OF S]]) (simp add: safe)
    then show ?thesis using conjunct2 [OF S] by (rule conjI)
  qed
qed

lemma route_phases:
  assumes doc: "winipcfg_documented os routes" and tabs: "plan_tables current want"
    and kern: "plan_kernel a current (routes (fst st))"
    and before: "tunnelled a (routes (fst st1)) = tunnelled a (routes (fst st))"
      "RelayPin current \<noteq> [] \<longrightarrow> pin_in a (RelayPin current) (routes (fst st1))"
      "RelayPin want \<noteq> [] \<longrightarrow> pin_in a (RelayPin want) (routes (fst st1))"
    and adds: "steps (run_step (recorded os) a) (map StepAdd (added (plan current want))) st1 = (st2, e2)"
    and dels: "steps (run_step (recorded os) a) (map StepDel (deleted (plan current want))) st2 = (st3, e3)"
  shows "through routes (plan_safe a current want) st1 st2 \<and>
    (e2 = None \<longrightarrow> through routes (plan_safe a current want) st2 st3 \<and>
      (RelayPin want \<noteq> [] \<longrightarrow> pin_in a (RelayPin want) (routes (fst st3))) \<and>
      (e3 = None \<longrightarrow> tunnelled a (routes (fst st3)) \<subseteq> nets (lines want) \<and>
        (tunnelled a (routes (fst st)) = nets (lines current) \<longrightarrow> tunnelled a (routes (fst st3)) = nets (lines want))))"
proof -
  note L = plan_lines [OF tabs]
  have lu: "Tunnel a \<noteq> Physical a" and rec: "tunnelled a (routes (fst st)) \<subseteq> nets (lines current)"
    and nox: "RelayPin current = [] \<longrightarrow> tunnelled a (routes (fst st)) = {}"
    using kern by (simp_all add: plan_kernel_def)
  note A = add_steps [OF doc lu adds] and D = del_steps [OF doc lu dels]
  have safe: "plan_safe a current want t \<and> (RelayPin want \<noteq> [] \<longrightarrow> pin_in a (RelayPin want) t)"
    if t: "pinned a t = pinned a (routes (fst st1))"
      "tunnelled a t \<subseteq> tunnelled a (routes (fst st)) \<union> nets (set (added (plan current want)))" for t
  proof -
    have "RelayPin current \<noteq> [] \<longrightarrow> pin_in a (RelayPin current) t" "RelayPin want \<noteq> [] \<longrightarrow> pin_in a (RelayPin want) t"
      using before(2,3) pin_in_mono [of a _ "routes (fst st1)" t] t(1) by blast+
    then show ?thesis using t(2) rec nox L(6,7) unfolding plan_safe_def guarded_def by auto
  qed
  have "through routes (plan_safe a current want) st1 st2"
    by (rule through_mono [OF conjunct1 [OF A]]) (use safe before(1) in blast)
  moreover have "through routes (\<lambda>t. plan_safe a current want t \<and> (RelayPin want \<noteq> [] \<longrightarrow> pin_in a (RelayPin want) t)) st2 st3"
    using through_last [OF conjunct1 [OF A]] before(1)
    by (intro through_mono [OF conjunct1 [OF D]] safe) auto
  moreover have "tunnelled a (routes (fst st3)) \<subseteq> nets (lines want) \<and>
        (tunnelled a (routes (fst st)) = nets (lines current) \<longrightarrow> tunnelled a (routes (fst st3)) = nets (lines want))"
    if n: "e2 = None" "e3 = None"
  proof -
    have "tunnelled a (routes (fst st3)) = (tunnelled a (routes (fst st)) \<union>
        nets (set (added (plan current want)))) -
        nets (set (deleted (plan current want)))"
      using A D n before(1) by simp
    then show ?thesis using rec L(3-6) by blast
  qed
  ultimately show ?thesis using through_last by (blast intro: through_mono)
qed

lemma unpin_phase:
  assumes doc: "winipcfg_documented os routes" and tabs: "plan_tables current want" and lu: "Tunnel a \<noteq> Physical a"
    and before: "tunnelled a (routes (fst st)) \<subseteq> nets (lines want)"
      "RelayPin want \<noteq> [] \<longrightarrow> pin_in a (RelayPin want) (routes (fst st))"
    and run: "steps (run_step (recorded os) a) (unpin_steps current want) st = (st', e)"
  shows "through routes (\<lambda>t. plan_safe a current want t \<and> tunnelled a t = tunnelled a (routes (fst st)) \<and>
      (RelayPin want \<noteq> [] \<longrightarrow> pin_in a (RelayPin want) t)) st st'"
proof -
  let ?X = "RelayPin current" and ?Y = "RelayPin want"
  have noy: "?Y = [] \<longrightarrow> lines want = {}" and dp: "distinct_nets {?Y, ?X}"
    using tabs by (simp_all add: plan_tables_def insert_commute)
  have safe: "plan_safe a current want t"
    if "tunnelled a t = tunnelled a (routes (fst st))" "?Y \<noteq> [] \<longrightarrow> pin_in a ?Y t" for t
    using that before(1) noy by (auto simp: plan_safe_def guarded_def)
  show ?thesis
  proof (cases "RemovePin (plan current want) = []")
    case True
    then have "st' = st" using run by (simp add: unpin_steps_def)
    then show ?thesis using before(2) safe by (auto intro: through_refl)
  next
    case False
    then have xy: "?Y \<noteq> ?X" "RemovePin (plan current want) = ?X" by (auto simp: plan_pins split: if_splits)
    then have "del_pin (recorded os) a ?X st = (st', e)"
      using run False by (auto simp: unpin_steps_def split: option.splits prod.splits)
    note S = del_pin_keeps [OF doc lu this xy(1) dp before(2)]
    show ?thesis by (rule through_mono [OF S]) (simp add: safe)
  qed
qed

lemma apply_plan_run:
  assumes doc: "winipcfg_documented os routes" and tabs: "plan_tables current want"
    and kern: "plan_kernel a current (routes (fst st))"
    and run: "apply_plan (recorded os) a (plan current want) st = (st', e)"
  shows "through routes (plan_safe a current want) st st' \<and>
    (e = None \<longrightarrow> plan_kernel a want (routes (fst st')) \<and>
      (tunnelled a (routes (fst st)) = nets (lines current) \<longrightarrow> tunnelled a (routes (fst st')) = nets (lines want)))"
proof -
  have lu: "Tunnel a \<noteq> Physical a" using kern by (simp add: plan_kernel_def)
  obtain st1 e1 where s1: "steps (run_step (recorded os) a) (pin_steps current want) st = (st1, e1)" by fastforce
  obtain st2 e2 where s2: "steps (run_step (recorded os) a) (map StepAdd (added (plan current want))) st1 = (st2, e2)" by fastforce
  obtain st3 e3 where s3: "steps (run_step (recorded os) a) (map StepDel (deleted (plan current want))) st2 = (st3, e3)" by fastforce
  obtain st4 e4 where s4: "steps (run_step (recorded os) a) (unpin_steps current want) st3 = (st4, e4)" by fastforce
  have whole: "(st', e) = (if e1 \<noteq> None then (st1, e1) else if e2 \<noteq> None then (st2, e2)
      else if e3 \<noteq> None then (st3, e3) else (st4, e4))"
    using run by (auto simp: apply_plan_def change_steps_def pin_steps_def [symmetric] unpin_steps_def [symmetric]
        steps_append s1 s2 s3 s4 split: option.splits)
  note P1 = pin_phase [OF doc tabs kern s1]
  have t1: "through routes (plan_safe a current want) st st1" by (rule through_mono [OF conjunct1 [OF P1]]) blast
  show ?thesis
  proof (cases "e1 = None")
    case False
    then show ?thesis using whole t1 by auto
  next
    case e1: True
    note R = route_phases [OF doc tabs kern _ _ _ s2 s3]
    have R: "through routes (plan_safe a current want) st1 st2 \<and>
      (e2 = None \<longrightarrow> through routes (plan_safe a current want) st2 st3 \<and>
        (RelayPin want \<noteq> [] \<longrightarrow> pin_in a (RelayPin want) (routes (fst st3))) \<and>
        (e3 = None \<longrightarrow> tunnelled a (routes (fst st3)) \<subseteq> nets (lines want) \<and>
          (tunnelled a (routes (fst st)) = nets (lines current) \<longrightarrow> tunnelled a (routes (fst st3)) = nets (lines want))))"
      using P1 e1 through_last [OF conjunct1 [OF P1]] by (intro R) blast+
    show ?thesis
    proof (cases "e2 = None \<and> e3 = None")
      case False
      have "through routes (plan_safe a current want) st st2" by (rule through_trans [OF t1 conjunct1 [OF R]])
      moreover have "through routes (plan_safe a current want) st st3" if "e2 = None"
        by (rule through_trans [OF calculation]) (use R that in blast)
      moreover have "e2 \<noteq> None \<and> st' = st2 \<and> e = e2 \<or> e2 = None \<and> e3 \<noteq> None \<and> st' = st3 \<and> e = e3"
        using whole e1 False by (cases e2; cases e3) simp_all
      ultimately show ?thesis by blast
    next
      case True
      have U: "through routes (\<lambda>t. plan_safe a current want t \<and> tunnelled a t = tunnelled a (routes (fst st3)) \<and>
          (RelayPin want \<noteq> [] \<longrightarrow> pin_in a (RelayPin want) t)) st3 st4"
        using R True by (intro unpin_phase [OF doc tabs lu _ _ s4]) blast+
      have "through routes (plan_safe a current want) st3 st4" by (rule through_mono [OF U]) blast
      then have "through routes (plan_safe a current want) st st4"
        using t1 R True by (meson through_trans)
      moreover have "st' = st4" using whole e1 True by simp
      moreover have "RelayPin want = [] \<longrightarrow> lines want = {}" using tabs by (simp add: plan_tables_def)
      ultimately show ?thesis using through_last [OF U] R True lu unfolding plan_kernel_def by auto
    qed
  qed
qed

text \<open>Recording does not change what is done.\<close>

lemma recorded_step:
  "run_step (recorded os) a x st = (st', e) \<Longrightarrow> run_step os a x (fst st) = (fst st', e)"
  by (cases x) (auto simp: add_pin_def del_pin_def add_tunnel_def del_tunnel_def recorded_def Let_def split_def
      split: option.splits prod.splits if_splits)

lemma recorded_steps:
  "steps (run_step (recorded os) a) xs st = (st', e) \<Longrightarrow> steps (run_step os a) xs (fst st) = (fst st', e)"
proof (induction xs arbitrary: st)
  case Nil
  then show ?case by auto
next
  case (Cons x xs)
  obtain st1 d where d: "run_step (recorded os) a x st = (st1, d)" by fastforce
  show ?case using Cons.prems Cons.IH [of st1] recorded_step [OF d] d by (cases d) auto
qed

lemma recorded_apply:
  "apply_plan (recorded os) a c st = (st', e) \<Longrightarrow> apply_plan os a c (fst st) = (fst st', e)"
  unfolding apply_plan_def by (rule recorded_steps)


text \<open>A kernel with a list for its table, an adapter pair, and a switch of the relay with one more
  prefix to capture.\<close>

definition sample_win :: "(nat, (nat \<times> prefix \<times> addr) list) winipcfg" where
  "sample_win =
     \<lparr>delete_route = (\<lambda>l p h k. if (l, p, h) \<in> set k then (removeAll (l, p, h) k, None) else (k, Some ERROR_NOT_FOUND)),
      add_route = (\<lambda>l p h k. if (l, p, h) \<in> set k then (k, Some ERROR_OBJECT_ALREADY_EXISTS) else ((l, p, h) # k, None))\<rparr>"

lemma sample_win_documented: "winipcfg_documented sample_win set"
  by (auto simp: winipcfg_documented_def sample_win_def)

definition sample_applier :: "nat applier" where
  "sample_applier = \<lparr>Tunnel = 7, Physical = 3, PhysicalGateway = V4 0xC0A80101\<rparr>"

definition sample_current :: table where
  "sample_current = want_table ''203.0.113.5/32'' [] [''104.160.0.0/16'']"

definition sample_want :: table where
  "sample_want = want_table ''198.51.100.9/32'' [] [''104.160.0.0/16'', ''23.0.0.0/8'']"

definition sample_routes :: "(nat \<times> prefix \<times> addr) list" where
  "sample_routes = fst (apply_plan sample_win sample_applier (plan disconnected sample_current) [])"

lemma sample_parse [simp]:
  "parse_prefix ''203.0.113.5/32'' = Some (Prefix (V4 0xCB007105) 32)"
  "parse_prefix ''198.51.100.9/32'' = Some (Prefix (V4 0xC6336409) 32)"
  "parse_prefix ''104.160.0.0/16'' = Some (Prefix (V4 0x68A00000) 16)"
  "parse_prefix ''23.0.0.0/8'' = Some (Prefix (V4 0x17000000) 8)"
  by code_simp+

lemma sample_route_runs:
  "sample_routes = [(7, Prefix (V4 0x68A00000) 16, NoAddr), (3, Prefix (V4 0xCB007105) 32, V4 0xC0A80101)]"
  "snd (apply_plan (recorded sample_win) sample_applier (plan sample_current sample_want) (sample_routes, [])) = None"
  by code_simp+

lemma sample_route_tables:
  "plan_tables sample_current sample_want" "plan_kernel sample_applier sample_current (set sample_routes)"
  "tunnelled sample_applier (set sample_routes) = nets (lines sample_current)"
  "nets (lines sample_want) = {Prefix (V4 0x68A00000) 16, Prefix (V4 0x17000000) 8}"
  by (auto simp: plan_tables_def plan_kernel_def sample_current_def sample_want_def want_table_def lines_def
      distinct_nets_def pin_in_def tunnelled_def pinned_def sample_applier_def sample_route_runs)


end
