(* ===== verification/Codec.thy ===== *)
theory Codec
  imports Netip
begin

text \<open>
  The byte codecs of \<open>encoding/hex\<close> and \<open>encoding/base64\<close> the client uses for WireGuard keys.
  Bytes are numbers below 256.
\<close>

section \<open>Hexadecimal\<close>

text \<open>\<open>hex.EncodeToString\<close> and \<open>hex.DecodeString\<close>; decoding accepts both cases.\<close>

definition hex_string :: "nat list \<Rightarrow> string" where
  "hex_string bs = concat (map (\<lambda>b. [hex_digit (b div 16), hex_digit (b mod 16)]) bs)"

fun hex_parse :: "string \<Rightarrow> nat list option" where
  "hex_parse [] = Some []"
| "hex_parse [c] = None"
| "hex_parse (c # d # s) =
     (case (hex_val c, hex_val d) of
        (Some h, Some l) \<Rightarrow> map_option ((#) (16 * h + l)) (hex_parse s)
      | _ \<Rightarrow> None)"

lemma byte_of_hex_digit: "d < 16 \<Longrightarrow> byte_of (hex_digit d) = (if d < 10 then 48 + d else 87 + d)"
  by (simp add: hex_digit_def byte_of_char_of)

lemma hex_val_digit: "d < 16 \<Longrightarrow> hex_val (hex_digit d) = Some d"
  by (simp add: hex_val_def byte_of_hex_digit)

lemma hex_parse_encode: "\<forall>b \<in> set bs. b < 256 \<Longrightarrow> hex_parse (hex_string bs) = Some bs"
proof (induction bs)
  case Nil
  then show ?case by (simp add: hex_string_def)
next
  case (Cons b bs)
  then have "hex_val (hex_digit (b div 16)) = Some (b div 16)" "hex_val (hex_digit (b mod 16)) = Some (b mod 16)"
    by (simp_all add: hex_val_digit less_mult_imp_div_less)
  then show ?case using Cons by (simp add: hex_string_def)
qed

lemma length_hex_string [simp]: "length (hex_string bs) = 2 * length bs"
  by (induction bs) (simp_all add: hex_string_def)

lemma hex_digit_range:
  assumes "d < 16"
  shows "48 \<le> byte_of (hex_digit d)" "byte_of (hex_digit d) < 103" "printable (hex_digit d)"
  using assms by (simp_all add: byte_of_hex_digit printable_def)

lemma hex_string_printable: "\<forall>b \<in> set bs. b < 256 \<Longrightarrow> c \<in> set (hex_string bs) \<Longrightarrow> printable c \<and> 48 \<le> byte_of c \<and> byte_of c < 103"
  by (force simp: hex_string_def intro: hex_digit_range)

lemma hex_string_inj: "\<forall>b \<in> set bs. b < 256 \<Longrightarrow> \<forall>b \<in> set cs. b < 256 \<Longrightarrow> hex_string bs = hex_string cs \<longleftrightarrow> bs = cs"
  by (metis hex_parse_encode option.inject)

section \<open>Base64\<close>

text \<open>\<open>base64.StdEncoding\<close>: padded groups of four characters. Decoding skips line ends and does not
  insist on zero trailing bits.\<close>

definition b64_char :: "nat \<Rightarrow> char" where
  "b64_char n = char_of (if n < 26 then n + 65 else if n < 52 then n + 71 else if n < 62 then n - 4 else if n = 62 then 43 else (47 :: nat))"

definition b64_val :: "char \<Rightarrow> nat option" where
  "b64_val c = (let n = byte_of c in
     if 65 \<le> n \<and> n \<le> 90 then Some (n - 65)
     else if 97 \<le> n \<and> n \<le> 122 then Some (n - 71)
     else if 48 \<le> n \<and> n \<le> 57 then Some (n + 4)
     else if n = 43 then Some 62 else if n = 47 then Some 63 else None)"

fun b64_encode :: "nat list \<Rightarrow> string" where
  "b64_encode [] = []"
| "b64_encode [a] = [b64_char (a div 4), b64_char (a mod 4 * 16), CHR ''='', CHR ''='']"
| "b64_encode [a, b] = [b64_char (a div 4), b64_char (a mod 4 * 16 + b div 16), b64_char (b mod 16 * 4), CHR ''='']"
| "b64_encode (a # b # c # bs) =
     b64_char (a div 4) # b64_char (a mod 4 * 16 + b div 16) # b64_char (b mod 16 * 4 + c div 64) # b64_char (c mod 64) # b64_encode bs"

fun b64_groups :: "string \<Rightarrow> nat list option" where
  "b64_groups [] = Some []"
| "b64_groups (a # b # c # d # s) =
     (case (b64_val a, b64_val b) of
        (Some x, Some y) \<Rightarrow>
          (case b64_val c of
             Some z \<Rightarrow>
               (case b64_val d of
                  Some w \<Rightarrow> map_option (\<lambda>bs. (x * 4 + y div 16) # (y mod 16 * 16 + z div 4) # (z mod 4 * 64 + w) # bs) (b64_groups s)
                | None \<Rightarrow> if d = CHR ''='' \<and> s = [] then Some [x * 4 + y div 16, y mod 16 * 16 + z div 4] else None)
           | None \<Rightarrow> if c = CHR ''='' \<and> d = CHR ''='' \<and> s = [] then Some [x * 4 + y div 16] else None)
      | _ \<Rightarrow> None)"
| "b64_groups _ = None"

definition b64_decode :: "string \<Rightarrow> nat list option" where
  "b64_decode s = b64_groups (filter (\<lambda>c. byte_of c \<noteq> 10 \<and> byte_of c \<noteq> 13) s)"

lemma b64_char_props:
  assumes "n < 64"
  shows "b64_val (b64_char n) = Some n" "byte_of (b64_char n) \<noteq> 10" "byte_of (b64_char n) \<noteq> 13" "printable (b64_char n)"
proof -
  have b: "byte_of (b64_char n) = (if n < 26 then n + 65 else if n < 52 then n + 71 else if n < 62 then n - 4 else if n = 62 then 43 else 47)"
    unfolding b64_char_def using assms by (intro byte_of_char_of) auto
  show "b64_val (b64_char n) = Some n" "byte_of (b64_char n) \<noteq> 10" "byte_of (b64_char n) \<noteq> 13" "printable (b64_char n)"
    unfolding b64_val_def printable_def b using assms by (auto simp: Let_def)
qed

lemma b64_pad: "b64_val (CHR ''='') = None" "byte_of (CHR ''='') = 61" "printable (CHR ''='')"
  by code_simp+

text \<open>The four digits of three bytes, and back.\<close>

lemma digit_split: "(s :: nat) < k \<Longrightarrow> (r * k + s) div k = r" "s < k \<Longrightarrow> (r * k + s) mod k = s"
  by simp_all

lemma b64_bounds:
  fixes a b c :: nat
  assumes "a < 256" "b < 256"
  shows "a div 4 < 64" "a mod 4 * 16 < 64" "a mod 4 * 16 + b div 16 < 64" "a mod 16 * 4 < 64" "a mod 16 * 4 + b div 64 < 64" "a mod 64 < 64"
proof -
  have "a mod 4 < 4" "a mod 16 < 16" "b div 16 < 16" "b div 64 < 4" "a div 4 < 64" using assms by (simp_all add: less_mult_imp_div_less)
  then show "a div 4 < 64" "a mod 4 * 16 < 64" "a mod 4 * 16 + b div 16 < 64" "a mod 16 * 4 < 64" "a mod 16 * 4 + b div 64 < 64" "a mod 64 < 64"
    by (linarith | simp)+
qed

lemma b64_regroup:
  fixes a b c :: nat
  assumes "b < 256" "c < 256"
  shows "(a div 4) * 4 + (a mod 4 * 16) div 16 = a" "(a div 4) * 4 + (a mod 4 * 16 + b div 16) div 16 = a"
    "(a mod 4 * 16 + b div 16) mod 16 * 16 + (b mod 16 * 4) div 4 = b"
    "(a mod 4 * 16 + b div 16) mod 16 * 16 + (b mod 16 * 4 + c div 64) div 4 = b"
    "(b mod 16 * 4 + c div 64) mod 4 * 64 + c mod 64 = c"
proof -
  have "b div 16 < 16" "c div 64 < 4" using assms by (simp_all add: less_mult_imp_div_less)
  note D = digit_split [OF this(1), of "a mod 4"] digit_split [OF this(2), of "b mod 16"]
  show "(a div 4) * 4 + (a mod 4 * 16) div 16 = a" "(a div 4) * 4 + (a mod 4 * 16 + b div 16) div 16 = a"
    "(a mod 4 * 16 + b div 16) mod 16 * 16 + (b mod 16 * 4) div 4 = b"
    "(a mod 4 * 16 + b div 16) mod 16 * 16 + (b mod 16 * 4 + c div 64) div 4 = b"
    "(b mod 16 * 4 + c div 64) mod 4 * 64 + c mod 64 = c"
    unfolding D by simp_all
qed

lemma b64_encode_chars: "\<forall>b \<in> set bs. b < 256 \<Longrightarrow> c \<in> set (b64_encode bs) \<Longrightarrow> byte_of c \<noteq> 10 \<and> byte_of c \<noteq> 13 \<and> printable c"
  by (induction bs rule: b64_encode.induct) (auto simp: b64_pad b64_char_props b64_bounds)

lemma b64_digits:
  fixes a b :: nat
  assumes "a < 256" "b < 256"
  shows "b64_val (b64_char (a div 4)) = Some (a div 4)" "b64_val (b64_char (a mod 4 * 16)) = Some (a mod 4 * 16)"
    "b64_val (b64_char (a mod 4 * 16 + b div 16)) = Some (a mod 4 * 16 + b div 16)"
    "b64_val (b64_char (a mod 16 * 4)) = Some (a mod 16 * 4)"
    "b64_val (b64_char (a mod 16 * 4 + b div 64)) = Some (a mod 16 * 4 + b div 64)"
    "b64_val (b64_char (a mod 64)) = Some (a mod 64)"
  by (rule b64_char_props(1), rule b64_bounds [OF assms])+

lemma b64_groups_encode: "\<forall>b \<in> set bs. b < 256 \<Longrightarrow> b64_groups (b64_encode bs) = Some bs"
proof (induction bs rule: b64_encode.induct)
  case 1
  then show ?case by simp
next
  case (2 a)
  then have "a < 256" by simp
  from b64_digits [OF this this] show ?case
    using b64_regroup(1) [of 0 0 a] by (simp only: b64_encode.simps b64_groups.simps prod.case option.case b64_pad simp_thms if_True)
next
  case (3 a b)
  then have ab: "a < 256" "b < 256" by simp_all
  show ?case
    by (simp only: b64_encode.simps b64_groups.simps prod.case option.case b64_pad simp_thms if_True
        b64_digits [OF ab] b64_digits [OF ab(2) ab(2)] b64_regroup [OF ab(2) ab(2)])
next
  case (4 a b c bs)
  then have abc: "a < 256" "b < 256" "c < 256" and r: "b64_groups (b64_encode bs) = Some bs" by simp_all
  show ?case
    by (simp only: b64_encode.simps b64_groups.simps prod.case option.case option.map r
        b64_digits [OF abc(1,2)] b64_digits [OF abc(2,3)] b64_digits [OF abc(3,3)] b64_regroup [OF abc(2,3)])
qed

lemma b64_decode_encode: "\<forall>b \<in> set bs. b < 256 \<Longrightarrow> b64_decode (b64_encode bs) = Some bs"
proof -
  assume b: "\<forall>b \<in> set bs. b < 256"
  have "filter (\<lambda>c. byte_of c \<noteq> 10 \<and> byte_of c \<noteq> 13) (b64_encode bs) = b64_encode bs"
    using b64_encode_chars [OF b] by (simp add: filter_id_conv)
  then show ?thesis using b64_groups_encode [OF b] by (simp add: b64_decode_def)
qed

text \<open>Decoded bytes are bytes.\<close>

lemma b64_val_less: "b64_val c = Some n \<Longrightarrow> n < 64"
  by (auto simp: b64_val_def Let_def split: if_splits)

lemma b64_bytes:
  assumes "x < 64" "y < 64" "z < 64" "w < (64 :: nat)"
  shows "x * 4 + y div 16 < 256" "y mod 16 * 16 + z div 4 < 256" "z mod 4 * 64 + w < 256"
proof -
  have "y div 16 < 4" "y mod 16 < 16" "z div 4 < 16" "z mod 4 < 4" using assms by (simp_all add: less_mult_imp_div_less)
  then show "x * 4 + y div 16 < 256" "y mod 16 * 16 + z div 4 < 256" "z mod 4 * 64 + w < 256" using assms(1,4) by linarith+
qed

lemma b64_groups_bytes: "b64_groups s = Some bs \<Longrightarrow> \<forall>b \<in> set bs. b < 256"
proof (induction s arbitrary: bs rule: b64_groups.induct)
  case (2 a b c d s)
  obtain x y where xy: "b64_val a = Some x" "b64_val b = Some y"
    using 2(2) by (cases "b64_val a"; cases "b64_val b") simp_all
  note x = b64_val_less [OF xy(1)] and y = b64_val_less [OF xy(2)]
  show ?case
  proof (cases "b64_val c")
    case None
    then have "bs = [x * 4 + y div 16]" using 2(2) xy by (simp split: if_splits)
    then show ?thesis using b64_bytes(1) [OF x y y y] by simp
  next
    case (Some z)
    note z = b64_val_less [OF this]
    show ?thesis
    proof (cases "b64_val d")
      case None
      then have "bs = [x * 4 + y div 16, y mod 16 * 16 + z div 4]" using 2(2) xy Some by (simp split: if_splits)
      then show ?thesis using b64_bytes(1,2) [OF x y z z] by simp
    next
      case w: (Some w)
      then obtain t where t: "b64_groups s = Some t" "bs = (x * 4 + y div 16) # (y mod 16 * 16 + z div 4) # (z mod 4 * 64 + w) # t"
        using 2(2) xy Some by (cases "b64_groups s") simp_all
      have "\<forall>b \<in> set t. b < 256" using 2(1) xy Some w t(1) by blast
      then show ?thesis using b64_bytes [OF x y z b64_val_less [OF w]] by (simp add: t(2))
    qed
  qed
qed auto

lemma b64_decode_bytes: "b64_decode s = Some bs \<Longrightarrow> \<forall>b \<in> set bs. b < 256"
  by (auto simp: b64_decode_def dest: b64_groups_bytes)

end
