(* ===== verification/Pick.thy ===== *)
theory Pick
  imports Go_Strings
begin

text \<open>
  \<open>internal/client/pick\<close>: choosing a relay from the client's own measurements. \<open>sort.Slice\<close>
  with a comparison on round trip and identifier is the sort by that pair; measurements it ranks
  equal are equal, since they carry no error.
\<close>

section \<open>Measurements and the choice\<close>

record 'e measurement =
  ms_RelayID :: string
  ms_RTT :: nanos
  ms_Err :: "'e option"

definition measured_ok :: "'e measurement \<Rightarrow> bool" where
  "measured_ok m \<longleftrightarrow> ms_Err m = None \<and> ms_RTT m > 0"

record 'e choice =
  Primary :: string
  Fallback :: string
  Ranked :: "'e measurement list"

definition rank :: "'e measurement \<Rightarrow> nanos \<times> string" where
  "rank m = (ms_RTT m, ms_RelayID m)"

text \<open>\<open>ErrNoneAnswered\<close> is \<open>None\<close>.\<close>

definition best :: "'e measurement list \<Rightarrow> 'e choice option" where
  "best ms =
     (case sort_key rank (filter measured_ok ms) of
        [] \<Rightarrow> None
      | m # rest \<Rightarrow>
          Some \<lparr>Primary = ms_RelayID m, Fallback = (case rest of [] \<Rightarrow> [] | n # _ \<Rightarrow> ms_RelayID n), Ranked = m # rest\<rparr>)"

definition worth_switching :: "nanos \<Rightarrow> nanos \<Rightarrow> nanos \<Rightarrow> bool" where
  "worth_switching current alternative margin \<longleftrightarrow> current \<le> 0 \<or> current - alternative \<ge> margin"

definition DefaultSwitchMargin :: nanos where
  "DefaultSwitchMargin = 10 * millisecond"

section \<open>The choice is the fastest answer\<close>

lemma rank_inj: "measured_ok m \<Longrightarrow> measured_ok n \<Longrightarrow> rank m = rank n \<Longrightarrow> m = n"
  by (cases m; cases n) (simp add: measured_ok_def rank_def)

lemma sort_rank_unique:
  assumes "mset xs = mset ys" "\<forall>m \<in> set xs. measured_ok m"
  shows "sort_key rank xs = sort_key rank ys"
proof (rule properties_for_sort_key)
  show "mset (sort_key rank ys) = mset xs" using assms(1) by simp
  show "sorted (map rank (sort_key rank ys))" by simp
  fix k assume "k \<in> set (sort_key rank ys)"
  have eqs: "set xs = set ys" using assms(1) by (rule mset_eq_setD)
  have all_k: "set (filter (\<lambda>x. rank k = rank x) zs) \<subseteq> {k}" if "set zs = set ys" for zs
    using that \<open>k \<in> set (sort_key rank ys)\<close> assms(2) eqs by (auto intro!: rank_inj)
  have "replicate_list = replicate (length replicate_list) k" if "set replicate_list \<subseteq> {k}" for replicate_list :: "'a measurement list"
    using that by (induction replicate_list) auto
  then have r: "filter (\<lambda>x. rank k = rank x) zs = replicate (length (filter (\<lambda>x. rank k = rank x) zs)) k"
    if "set zs = set ys" for zs using all_k [OF that] by blast
  have "length (filter (\<lambda>x. rank k = rank x) (sort_key rank ys)) = length (filter (\<lambda>x. rank k = rank x) xs)"
    using assms(1) by (metis mset_filter mset_sort size_mset)
  then show "filter (\<lambda>x. rank k = rank x) (sort_key rank ys) = filter (\<lambda>x. rank k = rank x) xs"
    using r [of "sort_key rank ys"] r [of xs] eqs by simp
qed

lemma best_Some:
  assumes "best ms = Some c"
  shows "sort_key rank (filter measured_ok ms) = Ranked c" "Ranked c \<noteq> []" "Primary c = ms_RelayID (hd (Ranked c))"
    "set (Ranked c) = {m \<in> set ms. measured_ok m}" "sorted (map rank (Ranked c))"
proof -
  show a: "sort_key rank (filter measured_ok ms) = Ranked c" and "Ranked c \<noteq> []" "Primary c = ms_RelayID (hd (Ranked c))"
    using assms by (auto simp: best_def split: list.splits)
  show "set (Ranked c) = {m \<in> set ms. measured_ok m}" "sorted (map rank (Ranked c))"
    unfolding a [symmetric] by auto
qed

lemma best_None: "best ms = None \<longleftrightarrow> (\<forall>m \<in> set ms. \<not> measured_ok m)"
proof -
  have "best ms = None \<longleftrightarrow> sort_key rank (filter measured_ok ms) = []"
    by (auto simp: best_def split: list.splits)
  also have "\<dots> \<longleftrightarrow> filter measured_ok ms = []"
    by (metis mset_sort mset_zero_iff)
  finally show ?thesis by (simp add: filter_empty_conv)
qed

text \<open>A relay is chosen exactly when one answered; it answered and none is faster, ties going to
  the smaller identifier. The ranking lists exactly the relays that answered, fastest first, the
  fallback is the second, and the order in which measurements came in does not matter.\<close>

theorem best_is_fastest:
  "(best ms = None \<longleftrightarrow> (\<forall>m \<in> set ms. \<not> measured_ok m)) \<and>
   (\<forall>c. best ms = Some c \<longrightarrow>
      (\<exists>m \<in> set ms. measured_ok m \<and> ms_RelayID m = Primary c \<and> (\<forall>n \<in> set ms. measured_ok n \<longrightarrow> rank m \<le> rank n)) \<and>
      set (Ranked c) = {m \<in> set ms. measured_ok m} \<and> sorted (map rank (Ranked c)) \<and>
      Fallback c = (if length (Ranked c) > 1 then ms_RelayID (Ranked c ! 1) else [])) \<and>
   (\<forall>ms'. mset ms' = mset ms \<longrightarrow> best ms' = best ms)"
proof (intro conjI allI impI)
  show "best ms = None \<longleftrightarrow> (\<forall>m \<in> set ms. \<not> measured_ok m)" by (rule best_None)
next
  fix c assume c: "best ms = Some c"
  note B = best_Some [OF c]
  show "\<exists>m \<in> set ms. measured_ok m \<and> ms_RelayID m = Primary c \<and> (\<forall>n \<in> set ms. measured_ok n \<longrightarrow> rank m \<le> rank n)"
  proof (rule bexI [of _ "hd (Ranked c)"])
    have h: "hd (Ranked c) \<in> set (Ranked c)" using B(2) by simp
    then show "hd (Ranked c) \<in> set ms" using B(4) by auto
    have "rank (hd (Ranked c)) \<le> rank n" if "n \<in> set (Ranked c)" for n
      using B(2,5) that by (cases "Ranked c") auto
    then show "measured_ok (hd (Ranked c)) \<and> ms_RelayID (hd (Ranked c)) = Primary c \<and>
        (\<forall>n \<in> set ms. measured_ok n \<longrightarrow> rank (hd (Ranked c)) \<le> rank n)"
      using h B(3,4) by auto
  qed
  show "set (Ranked c) = {m \<in> set ms. measured_ok m}" "sorted (map rank (Ranked c))" by (fact B)+
  show "Fallback c = (if length (Ranked c) > 1 then ms_RelayID (Ranked c ! 1) else [])"
    using c by (auto simp: best_def split: list.splits)
next
  fix ms' assume "mset ms' = mset ms"
  then have "sort_key rank (filter measured_ok ms') = sort_key rank (filter measured_ok ms)"
    by (intro sort_rank_unique) simp_all
  then show "best ms' = best ms" by (simp add: best_def)
qed

lemma best_is_fastest_witness:
  "best [\<lparr>ms_RelayID = ''r-b'', ms_RTT = 30, ms_Err = None\<rparr>, \<lparr>ms_RelayID = ''r-c'', ms_RTT = 9, ms_Err = Some ()\<rparr>] \<noteq> None"
  using conjunct1 [OF best_is_fastest [of "[\<lparr>ms_RelayID = ''r-b'', ms_RTT = 30, ms_Err = None\<rparr>, \<lparr>ms_RelayID = ''r-c'', ms_RTT = 9, ms_Err = Some ()\<rparr>]"]]
  by (simp add: measured_ok_def)

end
