(* ===== verification/Wintun.thy ===== *)
theory Wintun
  imports Codec Pick
begin

text \<open>
  \<open>internal/client/wintun\<close>: the peers of the tunnel and the measurement of relays. wireguard-go is a
  parameter: its configuration text (\<open>IpcSet\<close>, \<open>IpcGet\<close>), the lookup of a peer, the first handshake
  message, and with it the clock and \<open>time.Sleep\<close>.
\<close>

section \<open>Keys and handshake stamps\<close>

datatype wire_key_error = KeyNotBase64 | KeyLength nat

definition base64_to_hex :: "string \<Rightarrow> wire_key_error + string" where
  "base64_to_hex key =
     (case b64_decode (trim_space key) of
        None \<Rightarrow> Inl KeyNotBase64
      | Some raw \<Rightarrow> if length raw \<noteq> 32 then Inl (KeyLength (length raw)) else Inr (hex_string raw))"

text \<open>\<open>strings.EqualFold\<close> against a string of hexadecimal digits, to which no other rune folds.\<close>

definition equal_fold_hex :: "string \<Rightarrow> string \<Rightarrow> bool" where
  "equal_fold_hex v h \<longleftrightarrow> map ascii_lower v = map ascii_lower h"

definition stamp_line :: "string \<Rightarrow> bool \<times> string \<times> string \<Rightarrow> string \<Rightarrow> bool \<times> string \<times> string" where
  "stamp_line want st line =
     (case st of (in_peer, sec, nsec) \<Rightarrow>
        (case cut (CHR ''='') (trim_space line) of
           None \<Rightarrow> st
         | Some (k, v) \<Rightarrow>
             if k = ''public_key'' then (equal_fold_hex v want, sec, nsec)
             else if k = ''last_handshake_time_sec'' then (in_peer, if in_peer then v else sec, nsec)
             else if k = ''last_handshake_time_nsec'' then (in_peer, sec, if in_peer then v else nsec)
             else st))"

definition handshake_stamp :: "string \<Rightarrow> string \<Rightarrow> string" where
  "handshake_stamp dump public_key =
     (case base64_to_hex public_key of
        Inl _ \<Rightarrow> []
      | Inr want \<Rightarrow>
          (case foldl (stamp_line want) (False, [], []) (split_on (CHR 0x0A) dump) of (_, sec, nsec) \<Rightarrow>
             if sec = [] \<or> (sec = ''0'' \<and> (nsec = ''0'' \<or> nsec = [])) then [] else sec @ ''.'' @ nsec))"

definition parse_stamp :: "string \<Rightarrow> nanos option" where
  "parse_stamp stamp =
     (case cut (CHR ''.'') stamp of
        None \<Rightarrow> None
      | Some (sec, nsec) \<Rightarrow>
          (case parse_int64 sec of
             None \<Rightarrow> None
           | Some s \<Rightarrow>
               if s \<le> 0 then None
               else Some (s * second + (case parse_int64 nsec of None \<Rightarrow> 0 | Some n \<Rightarrow> n))))"

section \<open>The tunnel\<close>

record relay =
  relay_ID :: string
  relay_Endpoint :: string
  relay_PublicKey :: string
  relay_InnerIP :: prefix
  relay_MTU :: int

record 's wgdev =
  ipc_set :: "string \<Rightarrow> 's \<Rightarrow> 's \<times> bool"
  ipc_get :: "'s \<Rightarrow> string option"
  has_peer :: "string \<Rightarrow> 's \<Rightarrow> bool"
  initiate :: "string \<Rightarrow> 's \<Rightarrow> 's"
  now :: "'s \<Rightarrow> nanos"
  sleep :: "nanos \<Rightarrow> 's \<Rightarrow> 's"

datatype tunnel_error = RelayKey string wire_key_error | ConfigurePeers | SelectRelay string

definition nl :: string where "nl = [CHR 0x0A]"

fun peers_config :: "(relay \<Rightarrow> string) \<Rightarrow> relay list \<Rightarrow> tunnel_error + string" where
  "peers_config rest [] = Inr []"
| "peers_config rest (r # rs) =
     (case base64_to_hex (relay_PublicKey r) of
        Inl e \<Rightarrow> Inl (RelayKey (relay_ID r) e)
      | Inr key \<Rightarrow>
          (case peers_config rest rs of
             Inl e \<Rightarrow> Inl e
           | Inr cfg \<Rightarrow> Inr (''public_key='' @ key @ nl @ rest r @ cfg)))"

definition set_peers :: "'s wgdev \<Rightarrow> relay list \<Rightarrow> 's \<Rightarrow> 's \<times> tunnel_error option" where
  "set_peers dev relays k =
     (case peers_config (\<lambda>r. ''endpoint='' @ relay_Endpoint r @ nl) relays of
        Inl e \<Rightarrow> (k, Some e)
      | Inr cfg \<Rightarrow>
          (case ipc_set dev (''replace_peers=true'' @ nl @ cfg) k of
             (k', True) \<Rightarrow> (k', None)
           | (k', False) \<Rightarrow> (k', Some ConfigurePeers)))"

definition active_config :: "prefix list \<Rightarrow> string \<Rightarrow> relay \<Rightarrow> string" where
  "active_config allowed active r =
     ''update_only=true'' @ nl @ ''replace_allowed_ips=true'' @ nl @
     (if relay_ID r \<noteq> active then ''persistent_keepalive_interval=0'' @ nl
      else concat (map (\<lambda>p. ''allowed_ip='' @ pfx_string p @ nl) allowed) @ ''persistent_keepalive_interval=25'' @ nl)"

definition set_active :: "'s wgdev \<Rightarrow> relay list \<Rightarrow> prefix list \<Rightarrow> string \<Rightarrow> 's \<Rightarrow> 's \<times> tunnel_error option" where
  "set_active dev relays allowed active k =
     (case peers_config (active_config allowed active) relays of
        Inl e \<Rightarrow> (k, Some e)
      | Inr cfg \<Rightarrow>
          (case ipc_set dev cfg k of
             (k', True) \<Rightarrow> (k', None)
           | (k', False) \<Rightarrow> (k', Some (SelectRelay active))))"

section \<open>Measuring\<close>

datatype measure_error = PeerKey wire_key_error | NotAPeer | NoHandshake

definition find_peer :: "'s wgdev \<Rightarrow> string \<Rightarrow> 's \<Rightarrow> measure_error + string" where
  "find_peer dev public_key k =
     (case base64_to_hex public_key of
        Inl e \<Rightarrow> Inl (PeerKey e)
      | Inr key \<Rightarrow> if has_peer dev key k then Inr key else Inl NotAPeer)"

type_synonym 's measuring = "'s \<times> measure_error measurement list \<times> (string \<times> nanos) list"

definition start_relay :: "'s wgdev \<Rightarrow> 's measuring \<Rightarrow> relay \<Rightarrow> 's measuring" where
  "start_relay dev st r =
     (case st of (k, out, pending) \<Rightarrow>
        (case find_peer dev (relay_PublicKey r) k of
           Inl e \<Rightarrow> (k, out @ [\<lparr>ms_RelayID = relay_ID r, ms_RTT = 0, ms_Err = Some e\<rparr>], pending)
         | Inr key \<Rightarrow>
             (initiate dev key k, out,
              (relay_PublicKey r, now dev k) # filter (\<lambda>p. fst p \<noteq> relay_PublicKey r) pending)))"

definition check_answer :: "(string \<Rightarrow> string) \<Rightarrow> string \<Rightarrow> nanos \<Rightarrow> measure_error measurement list \<times> (string \<times> nanos) list \<Rightarrow>
    relay \<Rightarrow> measure_error measurement list \<times> (string \<times> nanos) list" where
  "check_answer baseline dump t st r =
     (case st of (out, pending) \<Rightarrow>
        (case map_of pending (relay_PublicKey r) of
           None \<Rightarrow> st
         | Some start \<Rightarrow>
             let stamp = handshake_stamp dump (relay_PublicKey r) in
             if stamp \<noteq> [] \<and> stamp \<noteq> baseline (relay_PublicKey r) then
               (out @ [\<lparr>ms_RelayID = relay_ID r, ms_RTT = t - start, ms_Err = None\<rparr>],
                filter (\<lambda>p. fst p \<noteq> relay_PublicKey r) pending)
             else st))"

fun measure_loop :: "'s wgdev \<Rightarrow> relay list \<Rightarrow> (string \<Rightarrow> string) \<Rightarrow> nanos \<Rightarrow> nat \<Rightarrow> 's measuring \<Rightarrow> 's measuring" where
  "measure_loop dev relays baseline deadline 0 st = st"
| "measure_loop dev relays baseline deadline (Suc n) st =
     (case st of (k, out, pending) \<Rightarrow> if now dev k < deadline \<and> pending \<noteq> [] then
        let k1 = sleep dev (50 * millisecond) k in
        (case ipc_get dev k1 of
           None \<Rightarrow> (k1, out, pending)
         | Some dump \<Rightarrow>
             measure_loop dev relays baseline deadline n (k1, foldl (check_answer baseline dump (now dev k1)) (out, pending) relays))
      else (k, out, pending))"

text \<open>Each turn of the loop sleeps for 50 ms.\<close>

definition measure_fuel :: "nanos \<Rightarrow> nat" where
  "measure_fuel wait = nat (wait div (50 * millisecond)) + 1"

definition handshake_baseline :: "'s wgdev \<Rightarrow> relay list \<Rightarrow> 's \<Rightarrow> string \<Rightarrow> string" where
  "handshake_baseline dev relays k public_key =
     (case ipc_get dev k of
        None \<Rightarrow> []
      | Some dump \<Rightarrow> if public_key \<in> relay_PublicKey ` set relays then handshake_stamp dump public_key else [])"

definition measure_relays :: "'s wgdev \<Rightarrow> relay list \<Rightarrow> nanos \<Rightarrow> 's \<Rightarrow> 's \<times> measure_error measurement list" where
  "measure_relays dev relays wait k =
     (let baseline = handshake_baseline dev relays k;
          (k1, out1, pending1) = foldl (start_relay dev) (k, [], []) relays;
          (k2, out2, pending2) = measure_loop dev relays baseline (now dev k1 + wait) (measure_fuel wait) (k1, out1, pending1)
      in (k2, out2 @ map (\<lambda>r. \<lparr>ms_RelayID = relay_ID r, ms_RTT = 0, ms_Err = Some NoHandshake\<rparr>)
            (filter (\<lambda>r. relay_PublicKey r \<in> fst ` set pending2) relays)))"

definition last_handshake :: "'s wgdev \<Rightarrow> string \<Rightarrow> 's \<Rightarrow> nanos option" where
  "last_handshake dev public_key k =
     (case ipc_get dev k of None \<Rightarrow> None | Some dump \<Rightarrow> parse_stamp (handshake_stamp dump public_key))"

end
