(* ===== verification/Adapter.thy ===== *)
theory Adapter
  imports Routes Wintun
begin

text \<open>
  The tunnel adapter: \<open>winnet.ConfigureAdapter\<close> and \<open>wintun.Open\<close>, over the calls of \<open>winipcfg\<close>
  and of wireguard-go, which are parameters.
\<close>

section \<open>Address and MTU\<close>

record ip_interface =
  NLMTU :: "32 word"
  UseAutomaticMetric :: bool
  Metric :: nat

record ('l, 's) adapter_calls =
  set_addresses :: "'l \<Rightarrow> prefix list \<Rightarrow> 's \<Rightarrow> 's \<times> bool"
  read_interface :: "'l \<Rightarrow> 's \<Rightarrow> ip_interface option"
  set_interface :: "'l \<Rightarrow> ip_interface \<Rightarrow> 's \<Rightarrow> 's \<times> bool"

datatype adapter_error = SetAddressFailed | ReadInterfaceFailed | SetInterfaceFailed

definition configure_adapter :: "('l, 's) adapter_calls \<Rightarrow> 'l \<Rightarrow> prefix \<Rightarrow> 32 word \<Rightarrow> 's \<Rightarrow> 's \<times> adapter_error option" where
  "configure_adapter ad l inner mtu k =
     (case set_addresses ad l [inner] k of
        (k1, False) \<Rightarrow> (k1, Some SetAddressFailed)
      | (k1, True) \<Rightarrow>
          (case read_interface ad l k1 of
             None \<Rightarrow> (k1, Some ReadInterfaceFailed)
           | Some iface \<Rightarrow>
               (case set_interface ad l (iface\<lparr>NLMTU := mtu, UseAutomaticMetric := False, Metric := 1\<rparr>) k1 of
                  (k2, True) \<Rightarrow> (k2, None)
                | (k2, False) \<Rightarrow> (k2, Some SetInterfaceFailed))))"

section \<open>Opening the tunnel\<close>

definition AdapterName :: string where "AdapterName = ''GameNoLag''"

datatype 'l created = CreateFailed | OtherImplementation | Created 'l

record ('l, 's) wireguard =
  wg_create :: "string \<Rightarrow> int \<Rightarrow> 's \<Rightarrow> 's \<times> 'l created"
  wg_discard :: "'s \<Rightarrow> 's"
  wg_dev :: "'l \<Rightarrow> 's wgdev"
  wg_up :: "'l \<Rightarrow> 's \<Rightarrow> 's \<times> bool"
  wg_close :: "'l \<Rightarrow> 's \<Rightarrow> 's"

datatype open_error = NoAdapter | UnexpectedTUN | PrivateKeyRefused | NotUp

definition open_tunnel :: "('l, 's) wireguard \<Rightarrow> string \<Rightarrow> int \<Rightarrow> 's \<Rightarrow> 's \<times> (open_error + 'l)" where
  "open_tunnel wg private_hex mtu k =
     (case wg_create wg AdapterName mtu k of
        (k1, CreateFailed) \<Rightarrow> (k1, Inl NoAdapter)
      | (k1, OtherImplementation) \<Rightarrow> (wg_discard wg k1, Inl UnexpectedTUN)
      | (k1, Created l) \<Rightarrow>
          (case ipc_set (wg_dev wg l) (''private_key='' @ private_hex @ nl) k1 of
             (k2, False) \<Rightarrow> (wg_close wg l k2, Inl PrivateKeyRefused)
           | (k2, True) \<Rightarrow>
               (case wg_up wg l k2 of
                  (k3, False) \<Rightarrow> (wg_close wg l k3, Inl NotUp)
                | (k3, True) \<Rightarrow> (k3, Inr l))))"

end
