(* ===== verification/Gamewatch.thy ===== *)
theory Gamewatch
  imports Go_Strings
begin

text \<open>
  \<open>internal/client/gamewatch\<close>: which game is running, from the names of the running processes.
  \<open>strings.ToLower\<close> maps ASCII bytes; for a string with other bytes it uses the case tables of
  Unicode, which are the parameter \<open>tables\<close>.
\<close>

section \<open>Names\<close>

definition to_lower :: "(string \<Rightarrow> string) \<Rightarrow> string \<Rightarrow> string" where
  "to_lower tables s = (if \<forall>c \<in> set s. byte_of c < 128 then map ascii_lower s else tables s)"

definition normalise_name :: "(string \<Rightarrow> string) \<Rightarrow> string \<Rightarrow> string" where
  "normalise_name tables name = trim_suffix (to_lower tables (trim_space name)) ''.exe''"

section \<open>The watcher\<close>

record game =
  game_ID :: string
  ProcessNames :: "string list"

record game_state =
  GameID :: string
  Process :: string

definition no_game :: game_state where
  "no_game = \<lparr>GameID = [], Process = []\<rparr>"

definition running :: "game_state \<Rightarrow> bool" where
  "running s \<longleftrightarrow> GameID s \<noteq> []"

record watcher =
  games :: "game list"
  cur :: game_state

definition new_watcher :: "game list \<Rightarrow> watcher" where
  "new_watcher gs = \<lparr>games = gs, cur = no_game\<rparr>"

definition match_game :: "(string \<Rightarrow> string) \<Rightarrow> game list \<Rightarrow> string list \<Rightarrow> game_state" where
  "match_game tables gs names =
     (case filter (\<lambda>(g, n). normalise_name tables n \<in> set (map (normalise_name tables) names))
             (concat (map (\<lambda>g. map (\<lambda>n. (g, n)) (ProcessNames g)) gs)) of
        [] \<Rightarrow> no_game
      | (g, n) # _ \<Rightarrow> \<lparr>GameID = game_ID g, Process = n\<rparr>)"

definition poll_watch :: "(string \<Rightarrow> string) \<Rightarrow> string list \<Rightarrow> watcher \<Rightarrow> watcher \<times> game_state \<times> bool" where
  "poll_watch tables names w =
     (let next = match_game tables (games w) names in (w\<lparr>cur := next\<rparr>, next, next \<noteq> cur w))"

section \<open>What a poll finds\<close>

lemma match_game_NoneD:
  assumes "match_game tables gs names = no_game" "\<forall>g \<in> set gs. game_ID g \<noteq> []"
    and "g \<in> set gs" "n \<in> set (ProcessNames g)"
  shows "normalise_name tables n \<notin> normalise_name tables ` set names"
proof
  assume n: "normalise_name tables n \<in> normalise_name tables ` set names"
  define l where "l = filter (\<lambda>(g, n). normalise_name tables n \<in> set (map (normalise_name tables) names))
    (concat (map (\<lambda>g. map (\<lambda>n. (g, n)) (ProcessNames g)) gs))"
  have "(g, n) \<in> set l" using assms(3,4) n by (auto simp: l_def)
  then obtain h m r where hm: "l = (h, m) # r" by (cases l) auto
  then have "(h, m) \<in> set l" by simp
  then have "h \<in> set gs" unfolding l_def by auto
  moreover have "match_game tables gs names = \<lparr>GameID = game_ID h, Process = m\<rparr>"
    unfolding match_game_def l_def [symmetric] hm by simp
  ultimately show False using assms(1,2) by (auto simp: no_game_def)
qed

lemma match_game_SomeD:
  assumes "match_game tables gs names = s" "s \<noteq> no_game"
  obtains i g where "i < length gs" "gs ! i = g" "GameID s = game_ID g" "Process s \<in> set (ProcessNames g)"
    "normalise_name tables (Process s) \<in> normalise_name tables ` set names"
    "\<forall>j < i. \<forall>n \<in> set (ProcessNames (gs ! j)). normalise_name tables n \<notin> normalise_name tables ` set names"
proof -
  define P where "P = (\<lambda>(g :: game, n). normalise_name tables n \<in> set (map (normalise_name tables) names))"
  define all where "all = (\<lambda>gs :: game list. concat (map (\<lambda>g. map (\<lambda>n. (g, n)) (ProcessNames g)) gs))"
  have m: "match_game tables gs names = (case filter P (all gs) of [] \<Rightarrow> no_game | (g, n) # _ \<Rightarrow> \<lparr>GameID = game_ID g, Process = n\<rparr>)" for gs
    by (simp add: match_game_def P_def all_def)
  have "\<exists>i < length gs. GameID s = game_ID (gs ! i) \<and> Process s \<in> set (ProcessNames (gs ! i)) \<and>
      normalise_name tables (Process s) \<in> normalise_name tables ` set names \<and>
      (\<forall>j < i. \<forall>n \<in> set (ProcessNames (gs ! j)). normalise_name tables n \<notin> normalise_name tables ` set names)"
    using assms
  proof (induction gs)
    case Nil
    then show ?case by (simp add: m all_def)
  next
    case (Cons g gs)
    show ?case
    proof (cases "filter P (map (Pair g) (ProcessNames g))")
      case Nil
      then have none: "\<forall>n \<in> set (ProcessNames g). normalise_name tables n \<notin> normalise_name tables ` set names"
        by (auto simp: filter_empty_conv P_def)
      have "match_game tables gs names = s" using Cons.prems(1) Nil by (simp add: m all_def)
      then obtain i where "i < length gs" "GameID s = game_ID (gs ! i)" "Process s \<in> set (ProcessNames (gs ! i))"
        "normalise_name tables (Process s) \<in> normalise_name tables ` set names"
        "\<forall>j < i. \<forall>n \<in> set (ProcessNames (gs ! j)). normalise_name tables n \<notin> normalise_name tables ` set names"
        using Cons.IH Cons.prems(2) by blast
      then show ?thesis using none
        by (intro exI [of _ "Suc i"]) (auto simp: less_Suc_eq_0_disj nth_Cons split: nat.splits)
    next
      case (Cons x xs)
      then have x: "x \<in> set (map (Pair g) (ProcessNames g))" "P x" by (metis filter_eq_ConsD in_set_conv_decomp)+
      obtain h n where hn: "x = (h, n)" by fastforce
      have "s = \<lparr>GameID = game_ID h, Process = n\<rparr>"
        using Cons.prems(1) Cons hn by (simp add: m all_def)
      then show ?thesis using x hn by (intro exI [of _ 0]) (auto simp: P_def)
    qed
  qed
  then show ?thesis using that by blast
qed

text \<open>A poll reports the first game of the list that has a process among the running ones, names
  compared without case and without \<open>.exe\<close>, and no game when none has; it reports a change exactly
  when the game or its process is another than at the previous poll.\<close>

theorem poll_finds_first_game:
  assumes "\<forall>g \<in> set (games w). game_ID g \<noteq> []" "poll_watch tables names w = (w', s, changed)"
  shows "w' = w\<lparr>cur := s\<rparr> \<and> (changed \<longleftrightarrow> s \<noteq> cur w) \<and>
    (running s \<longleftrightarrow> (\<exists>g \<in> set (games w). \<exists>n \<in> set (ProcessNames g). normalise_name tables n \<in> normalise_name tables ` set names)) \<and>
    (running s \<longrightarrow> (\<exists>i < length (games w). GameID s = game_ID (games w ! i) \<and> Process s \<in> set (ProcessNames (games w ! i)) \<and>
       normalise_name tables (Process s) \<in> normalise_name tables ` set names \<and>
       (\<forall>j < i. \<forall>n \<in> set (ProcessNames (games w ! j)). normalise_name tables n \<notin> normalise_name tables ` set names)))"
proof -
  have s: "match_game tables (games w) names = s" "w' = w\<lparr>cur := s\<rparr>" "changed \<longleftrightarrow> s \<noteq> cur w"
    using assms(2) by (auto simp: poll_watch_def Let_def)
  show ?thesis
  proof (cases "s = no_game")
    case True
    then show ?thesis using s match_game_NoneD [of tables "games w" names] assms(1)
      by (auto simp: running_def no_game_def)
  next
    case False
    obtain i where i: "i < length (games w)" "GameID s = game_ID (games w ! i)" "Process s \<in> set (ProcessNames (games w ! i))"
      "normalise_name tables (Process s) \<in> normalise_name tables ` set names"
      "\<forall>j < i. \<forall>n \<in> set (ProcessNames (games w ! j)). normalise_name tables n \<notin> normalise_name tables ` set names"
      by (rule match_game_SomeD [OF s(1) False]) blast
    have "running s" using i(1,2) assms(1) by (simp add: running_def)
    then show ?thesis using s i nth_mem [OF i(1)] by blast
  qed
qed

text \<open>The list used when the configuration names no games.\<close>

definition builtinGames :: "game list" where
  "builtinGames =
     [\<lparr>game_ID = ''pubg'', ProcessNames = [''TslGame.exe'']\<rparr>,
      \<lparr>game_ID = ''valorant'', ProcessNames = [''VALORANT-Win64-Shipping.exe'']\<rparr>,
      \<lparr>game_ID = ''lol'', ProcessNames = [''League of Legends.exe'']\<rparr>,
      \<lparr>game_ID = ''csgo'', ProcessNames = [''cs2.exe'']\<rparr>,
      \<lparr>game_ID = ''dota2'', ProcessNames = [''dota2.exe'']\<rparr>]"

lemma builtin_names:
  "map (\<lambda>g. map (normalise_name id) (ProcessNames g)) builtinGames =
     [[''tslgame''], [''valorant-win64-shipping''], [''league of legends''], [''cs2''], [''dota2'']]"
  by code_simp

lemma poll_finds_first_game_witness:
  "\<exists>w' s. poll_watch id [''explorer.exe'', ''CS2.EXE '', ''dota2''] (new_watcher builtinGames) = (w', s, True) \<and>
     GameID s = ''csgo'' \<and> running s"
proof -
  have n: "map (normalise_name id) [''explorer.exe'', ''CS2.EXE '', ''dota2''] = [''explorer'', ''cs2'', ''dota2'']" by code_simp
  have run: "poll_watch id [''explorer.exe'', ''CS2.EXE '', ''dota2''] (new_watcher builtinGames) =
      (\<lparr>games = builtinGames, cur = \<lparr>GameID = ''csgo'', Process = ''cs2.exe''\<rparr>\<rparr>, \<lparr>GameID = ''csgo'', Process = ''cs2.exe''\<rparr>, True)"
    using builtin_names unfolding poll_watch_def new_watcher_def match_game_def n
    by (simp add: builtinGames_def no_game_def Let_def)
  have ids: "\<forall>g \<in> set (games (new_watcher builtinGames)). game_ID g \<noteq> []" by (simp add: new_watcher_def builtinGames_def)
  have "GameID \<lparr>GameID = ''csgo'', Process = ''cs2.exe''\<rparr> \<noteq> ([] :: string)" by simp
  then show ?thesis using poll_finds_first_game [OF ids run] run by (simp add: running_def)
qed

end
