(* ===== verification/Device.thy ===== *)
theory Device
  imports Codec
begin

text \<open>
  \<open>internal/client/device\<close>: the identity of the machine and the configuration of the service. The
  scalar multiplication of Curve25519 (\<open>x25519\<close>), the random source, the file system around the two
  files and the JSON decoder are parameters.
\<close>

unbundle bit_operations_syntax

section \<open>The identity\<close>

record key =
  PrivateHex :: string
  PublicBase64 :: string

datatype key_error = NoRandom | NoPublicKeyDerived | NotHex | WrongLength nat

definition byte_list :: "8 word list \<Rightarrow> nat list" where
  "byte_list ws = map unat ws"

text \<open>WireGuard's clamping of the 32 random bytes.\<close>

definition clamp :: "8 word list \<Rightarrow> 8 word list" where
  "clamp priv = (let p = priv[0 := priv ! 0 AND 248] in p[31 := (p ! 31 AND 127) OR 64])"

definition new_key :: "(8 word list \<Rightarrow> 8 word list option) \<Rightarrow> 8 word list option \<Rightarrow> key_error + key" where
  "new_key x25519 rand =
     (case rand of
        None \<Rightarrow> Inl NoRandom
      | Some raw \<Rightarrow>
          let priv = clamp raw in
          (case x25519 priv of
             None \<Rightarrow> Inl NoPublicKeyDerived
           | Some pub \<Rightarrow> Inr \<lparr>PrivateHex = hex_string (byte_list priv), PublicBase64 = b64_encode (byte_list pub)\<rparr>))"

definition key_from_private_hex :: "(8 word list \<Rightarrow> 8 word list option) \<Rightarrow> string \<Rightarrow> key_error + key" where
  "key_from_private_hex x25519 s =
     (case hex_parse s of
        None \<Rightarrow> Inl NotHex
      | Some priv \<Rightarrow>
          if length priv \<noteq> 32 then Inl (WrongLength (length priv))
          else case x25519 (map of_nat priv) of
             None \<Rightarrow> Inl NoPublicKeyDerived
           | Some pub \<Rightarrow> Inr \<lparr>PrivateHex = s, PublicBase64 = b64_encode (byte_list pub)\<rparr>)"

text \<open>A file as \<open>os.ReadFile\<close> sees it.\<close>

datatype key_file = Missing | Unreadable | Contents string

datatype load_error = NotUsable key_error | ReadFailed | Generating key_error | CreatingDir | WriteFailed

text \<open>\<open>mkdir\<close>: the directory is there or could be made; \<open>write\<close>: what the file holds after a write, and
  whether the write succeeded.\<close>

definition load_or_create_key ::
    "(8 word list \<Rightarrow> 8 word list option) \<Rightarrow> 8 word list option \<Rightarrow> bool \<Rightarrow> (string \<Rightarrow> key_file \<times> bool) \<Rightarrow> key_file \<Rightarrow>
     key_file \<times> (load_error + key)" where
  "load_or_create_key x25519 rand mkdir write f =
     (case f of
        Contents raw \<Rightarrow>
          (f, case key_from_private_hex x25519 (trim_space raw) of Inl e \<Rightarrow> Inl (NotUsable e) | Inr k \<Rightarrow> Inr k)
      | Unreadable \<Rightarrow> (f, Inl ReadFailed)
      | Missing \<Rightarrow>
          (case new_key x25519 rand of
             Inl e \<Rightarrow> (f, Inl (Generating e))
           | Inr k \<Rightarrow>
               if \<not> mkdir then (f, Inl CreatingDir)
               else let (f', ok) = write (PrivateHex k @ [CHR 0x0A]) in
                 (f', if ok then Inr k else Inl WriteFailed)))"

section \<open>The configuration\<close>

record game_config =
  gc_ID :: string
  gc_ProcessNames :: "string list"

record device_config =
  dc_ControlURL :: string
  dc_ContributorKey :: string
  dc_Games :: "game_config list"

datatype config_error = ConfigUnreadable | ConfigInvalid | ConfigIncomplete

text \<open>\<open>decode\<close> is the JSON decoder that refuses unknown fields.\<close>

definition load_config :: "(string \<Rightarrow> device_config option) \<Rightarrow> string option \<Rightarrow> config_error + device_config" where
  "load_config decode f =
     (case f of
        None \<Rightarrow> Inl ConfigUnreadable
      | Some raw \<Rightarrow>
          (case decode (trim_prefix raw (bytes [0xEF, 0xBB, 0xBF])) of
             None \<Rightarrow> Inl ConfigInvalid
           | Some c \<Rightarrow> if dc_ControlURL c = [] \<or> dc_ContributorKey c = [] then Inl ConfigIncomplete else Inr c))"

section \<open>The identity is kept\<close>

lemma byte_list_props [simp]: "\<forall>b \<in> set (byte_list ws). b < 256" "map of_nat (byte_list ws) = ws" "length (byte_list ws) = length ws"
proof -
  have "unat (w :: 8 word) < 256" for w using unsigned_less [of w, where 'a = nat] by simp
  then show "\<forall>b \<in> set (byte_list ws). b < 256" by (auto simp: byte_list_def)
qed (simp_all add: byte_list_def comp_def)

lemma hex_line_trimmed: "length ws > 0 \<Longrightarrow> trim_space (hex_string (byte_list ws) @ [CHR 0x0A]) = hex_string (byte_list ws)"
proof -
  assume "length ws > 0"
  then have ne: "hex_string (byte_list ws) \<noteq> []" using length_hex_string [of "byte_list ws"] by (metis byte_list_props(3) length_0_conv mult_is_0 neq0_conv zero_neq_numeral)
  then show ?thesis using hex_string_printable [OF byte_list_props(1)] hd_in_set [OF ne] last_in_set [OF ne]
    by (intro trim_space_newline) blast+
qed

lemma length_clamp [simp]: "length (clamp priv) = length priv"
  by (simp add: clamp_def Let_def)

lemma new_key_reloads:
  assumes "new_key x25519 (Some raw) = Inr k" "length raw = 32"
  shows "key_from_private_hex x25519 (trim_space (PrivateHex k @ [CHR 0x0A])) = Inr k"
proof -
  obtain pub where pub: "x25519 (clamp raw) = Some pub"
    "k = \<lparr>PrivateHex = hex_string (byte_list (clamp raw)), PublicBase64 = b64_encode (byte_list pub)\<rparr>"
    using assms(1) by (auto simp: new_key_def Let_def split: option.splits)
  have "trim_space (PrivateHex k @ [CHR 0x0A]) = hex_string (byte_list (clamp raw))"
    using assms(2) by (simp add: pub(2) hex_line_trimmed)
  then show ?thesis using assms(2) pub by (simp add: key_from_private_hex_def hex_parse_encode)
qed


text \<open>The byte of a clamped key that X25519 requires: a multiple of eight, below \<open>2 ^ 255\<close> and at
  least \<open>2 ^ 254\<close>.\<close>

lemma clamp_bits:
  assumes "length raw = 32"
  shows "clamp raw ! 0 AND 7 = 0" "clamp raw ! 31 AND 192 = 64"
proof -
  have "((a :: 8 word) AND 248) AND 7 = 0" "((b :: 8 word) AND 127 OR 64) AND 192 = 64" for a b
    by (simp_all add: and.assoc bit.conj_disj_distrib2)
  then show "clamp raw ! 0 AND 7 = 0" "clamp raw ! 31 AND 192 = 64"
    using assms by (simp_all add: clamp_def Let_def)
qed

text \<open>C30. The machine keeps its identity: whatever the first start returned, every later start returns the
  same key without touching the file, whatever the random source gives by then; a file that is
  there is never overwritten, also when it is unusable; and a generated key is clamped.\<close>

theorem identity_is_kept:
  assumes "load_or_create_key x25519 rand mkdir write f = (f', r)"
    and "\<forall>s f'. write s = (f', True) \<longrightarrow> f' = Contents s" "\<forall>raw. rand = Some raw \<longrightarrow> length raw = 32"
  shows "(f \<noteq> Missing \<longrightarrow> f' = f) \<and>
    (\<forall>k. r = Inr k \<longrightarrow> load_or_create_key x25519 rand' mkdir' write' f' = (f', Inr k)) \<and>
    (f = Missing \<longrightarrow> (\<forall>k. r = Inr k \<longrightarrow> (\<exists>priv pub. hex_parse (PrivateHex k) = Some (byte_list priv) \<and> length priv = 32 \<and>
       priv ! 0 AND 7 = 0 \<and> priv ! 31 AND 192 = 64 \<and> x25519 priv = Some pub \<and> b64_decode (PublicBase64 k) = Some (byte_list pub))))"
proof (cases f)
  case (Contents raw)
  then show ?thesis using assms(1) by (auto simp: load_or_create_key_def split: sum.splits)
next
  case Unreadable
  then show ?thesis using assms(1) by (auto simp: load_or_create_key_def)
next
  case Missing
  show ?thesis
  proof (cases r)
    case (Inl e)
    then show ?thesis using Missing by simp
  next
    case (Inr k)
    obtain raw where k: "rand = Some raw" "new_key x25519 (Some raw) = Inr k"
      "write (PrivateHex k @ [CHR 0x0A]) = (f', True)"
      using assms(1) Missing Inr
      by (cases rand) (auto simp: load_or_create_key_def new_key_def split: sum.splits if_splits prod.splits option.splits)
    then have raw: "length raw = 32" and f': "f' = Contents (PrivateHex k @ [CHR 0x0A])" using assms(2,3) by auto
    have again: "load_or_create_key x25519 rand' mkdir' write' f' = (f', Inr k)"
      using new_key_reloads [OF k(2) raw] by (simp add: f' load_or_create_key_def)
    obtain pub where "x25519 (clamp raw) = Some pub"
      "k = \<lparr>PrivateHex = hex_string (byte_list (clamp raw)), PublicBase64 = b64_encode (byte_list pub)\<rparr>"
      using k(2) by (auto simp: new_key_def Let_def split: option.splits)
    then have "hex_parse (PrivateHex k) = Some (byte_list (clamp raw)) \<and> length (clamp raw) = 32 \<and>
       clamp raw ! 0 AND 7 = 0 \<and> clamp raw ! 31 AND 192 = 64 \<and> x25519 (clamp raw) = Some pub \<and> b64_decode (PublicBase64 k) = Some (byte_list pub)"
      using raw clamp_bits [OF raw] by (simp add: hex_parse_encode b64_decode_encode)
    then show ?thesis using Missing Inr again by auto
  qed
qed

lemma identity_is_kept_witness:
  "\<exists>k. load_or_create_key Some (Some (replicate 32 255)) True (\<lambda>s. (Contents s, True)) Missing = (Contents (PrivateHex k @ [CHR 0x0A]), Inr k) \<and>
     load_or_create_key Some (Some (replicate 32 7)) False (\<lambda>s. (Missing, False)) (Contents (PrivateHex k @ [CHR 0x0A])) =
       (Contents (PrivateHex k @ [CHR 0x0A]), Inr k)"
proof -
  define k where "k = \<lparr>PrivateHex = hex_string (byte_list (clamp (replicate 32 255))), PublicBase64 = b64_encode (byte_list (clamp (replicate 32 255)))\<rparr>"
  have first: "load_or_create_key Some (Some (replicate 32 255)) True (\<lambda>s. (Contents s, True)) Missing = (Contents (PrivateHex k @ [CHR 0x0A]), Inr k)"
    by (simp add: load_or_create_key_def new_key_def k_def Let_def)
  have "(\<forall>s f'. (Contents s, True) = (f', True) \<longrightarrow> f' = Contents s)" "\<forall>raw. Some (replicate 32 (255 :: 8 word)) = Some raw \<longrightarrow> length raw = 32"
    by simp_all
  from identity_is_kept [OF first this, where rand' = "Some (replicate 32 7)" and mkdir' = False and write' = "\<lambda>s. (Missing, False)"]
  show ?thesis using first by blast
qed

end
