(* ===== verification/Ipc.thy ===== *)
theory Ipc
  imports Go_Strings
begin

text \<open>
  \<open>internal/client/ipc\<close> and \<open>internal/client/winpipe\<close>: the verbs, the parsing of one request, the
  answer, and one connection of the named pipe on either side. The JSON codec is a parameter:
  \<open>decode\<close> reads an object whose only field is the verb. \<open>'e\<close> stands for the text of an error.
\<close>

section \<open>Requests\<close>

type_synonym verb = string

definition VerbConnect :: verb where "VerbConnect = ''connect''"
definition VerbDisconnect :: verb where "VerbDisconnect = ''disconnect''"
definition VerbStatus :: verb where "VerbStatus = ''status''"
definition VerbReloadProfile :: verb where "VerbReloadProfile = ''reload-profile''"

definition verbs :: "verb set" where
  "verbs = {VerbConnect, VerbDisconnect, VerbStatus, VerbReloadProfile}"

definition MaxLineBytes :: nat where "MaxLineBytes = 4096"

datatype request_error = RequestTooLong | Malformed | UnknownVerb verb

definition parse_request :: "(string \<Rightarrow> verb option) \<Rightarrow> string \<Rightarrow> request_error + verb" where
  "parse_request decode line =
     (if length line > MaxLineBytes then Inl RequestTooLong
      else case decode line of
        None \<Rightarrow> Inl Malformed
      | Some v \<Rightarrow>
          if v = VerbConnect \<or> v = VerbDisconnect \<or> v = VerbStatus \<or> v = VerbReloadProfile then Inr v
          else Inl (UnknownVerb v))"

record 'e ipc_response =
  rs_OK :: bool
  rs_Error :: "'e option"
  rs_State :: string
  rs_RelayID :: string
  rs_GameRunning :: string
  rs_ActiveRoutes :: nat
  rs_TunnelRTTms :: real
  rs_LossPct :: real

definition no_status :: "'e ipc_response" where
  "no_status = \<lparr>rs_OK = False, rs_Error = None, rs_State = [], rs_RelayID = [], rs_GameRunning = [],
     rs_ActiveRoutes = 0, rs_TunnelRTTms = 0, rs_LossPct = 0\<rparr>"

definition refuse :: "'e \<Rightarrow> 'e ipc_response" where
  "refuse e = no_status\<lparr>rs_OK := False, rs_Error := Some e\<rparr>"

section \<open>A connection\<close>

text \<open>What \<open>bufio.Scanner\<close> with a buffer of \<open>MaxLineBytes\<close> reads first from the bytes a client sends
  before it stops: a line needs room for its end, too.\<close>

definition scan_first :: "string \<Rightarrow> string option" where
  "scan_first sent =
     (case cut (CHR 0x0A) sent of
        Some (line, _) \<Rightarrow> if length line < MaxLineBytes then Some (drop_cr line) else None
      | None \<Rightarrow> if sent \<noteq> [] \<and> length sent < MaxLineBytes then Some (drop_cr sent) else None)"

text \<open>The server's side: \<open>h\<close> is the handler with the state of the service, the result the answer
  written, if one is.\<close>

definition pipe_handle ::
    "(string \<Rightarrow> verb option) \<Rightarrow> (request_error \<Rightarrow> 'e) \<Rightarrow> (verb \<Rightarrow> 's \<Rightarrow> 's \<times> 'e ipc_response) \<Rightarrow> string \<Rightarrow> 's \<Rightarrow> 's \<times> 'e ipc_response option" where
  "pipe_handle decode text h sent s =
     (case scan_first sent of
        None \<Rightarrow> (s, None)
      | Some line \<Rightarrow>
          (case parse_request decode line of
             Inl e \<Rightarrow> (s, Some (refuse (text e)))
           | Inr v \<Rightarrow> let (s', r) = h v s in (s', Some r)))"

text \<open>The client's side: \<open>dial\<close> opens the pipe and exchanges one line, \<open>encode\<close> and \<open>decode_response\<close>
  are the codec.\<close>

datatype ask_error = NoService | SendFailed | AnswerTooLong | ClosedWithoutAnswer | AnswerMalformed

datatype 's pipe_end = NotReached | Reached "string \<Rightarrow> 's \<times> string option"

definition ask ::
    "(verb \<Rightarrow> string) \<Rightarrow> (string \<Rightarrow> 'e ipc_response option) \<Rightarrow> ('s \<Rightarrow> 's pipe_end) \<Rightarrow> verb \<Rightarrow> 's \<Rightarrow>
     's \<times> (ask_error + 'e ipc_response)" where
  "ask encode decode_response dial v s =
     (case dial s of
        NotReached \<Rightarrow> (s, Inl NoService)
      | Reached exchange \<Rightarrow>
          (case exchange (encode v @ [CHR 0x0A]) of
             (s', None) \<Rightarrow> (s', Inl SendFailed)
           | (s', Some answer) \<Rightarrow>
               (s', case scan_first answer of
                      None \<Rightarrow> Inl (if answer = [] then ClosedWithoutAnswer else AnswerTooLong)
                    | Some line \<Rightarrow> (case decode_response line of None \<Rightarrow> Inl AnswerMalformed | Some r \<Rightarrow> Inr r))))"

section \<open>The boundary\<close>

lemma scan_first_short: "scan_first sent = Some line \<Longrightarrow> length line < MaxLineBytes"
  by (auto simp: scan_first_def drop_cr_def split: option.splits if_splits)

lemma parse_request_Inr: "parse_request decode line = Inr v \<longleftrightarrow> length line \<le> MaxLineBytes \<and> decode line = Some v \<and> v \<in> verbs"
  by (auto simp: parse_request_def verbs_def split: option.splits)

text \<open>Whatever bytes a process sends, the service runs at most one of the four verbs, on a line
  of bounded length that decoded to exactly that verb; for anything else its state is untouched.\<close>

theorem pipe_admits_four_verbs:
  assumes "pipe_handle decode text h sent s = (s', answer)"
  shows "(\<exists>v \<in> verbs. \<exists>line r. scan_first sent = Some line \<and> length line < MaxLineBytes \<and> decode line = Some v \<and>
       h v s = (s', r) \<and> answer = Some r) \<or>
    s' = s \<and> (answer = None \<or> (\<exists>e. answer = Some (refuse (text e))))"
proof (cases "scan_first sent")
  case None
  then show ?thesis using assms by (simp add: pipe_handle_def)
next
  case (Some line)
  show ?thesis
  proof (cases "parse_request decode line")
    case (Inl e)
    then show ?thesis using assms Some by (auto simp: pipe_handle_def)
  next
    case (Inr v)
    then have "v \<in> verbs" "decode line = Some v" by (simp_all add: parse_request_Inr)
    then show ?thesis using assms Some Inr scan_first_short [OF Some] by (auto simp: pipe_handle_def split: prod.splits)
  qed
qed

text \<open>A decoder for one spelling of a request, and a service that counts its calls.\<close>

definition sample_decode :: "string \<Rightarrow> verb option" where
  "sample_decode line =
     (if has_prefix line (''{'' @ [CHR 0x22] @ ''verb'' @ [CHR 0x22] @ '':'' @ [CHR 0x22]) \<and> has_suffix line ([CHR 0x22] @ ''}'')
      then Some (take (length line - 11) (drop 9 line)) else None)"

definition sample_line :: "verb \<Rightarrow> string" where
  "sample_line v = ''{'' @ [CHR 0x22] @ ''verb'' @ [CHR 0x22] @ '':'' @ [CHR 0x22] @ v @ [CHR 0x22] @ ''}'' @ [CHR 0x0A]"

lemma pipe_admits_four_verbs_witness:
  "(\<exists>v \<in> verbs. \<exists>r. no_status = (r :: request_error ipc_response) \<and> sample_decode (butlast (sample_line ''status'')) = Some v) \<and>
   pipe_handle sample_decode id (\<lambda>v n. (Suc n, no_status)) (sample_line ''format-disk'') 0 =
     (0, Some (refuse (UnknownVerb ''format-disk'')))"
proof -
  have ok: "pipe_handle sample_decode id (\<lambda>v n. (Suc n, no_status)) (sample_line ''status'') 0 = (Suc 0, Some no_status)"
    by code_simp
  have "sample_decode (butlast (sample_line ''status'')) = Some ''status''" by code_simp
  moreover have "scan_first (sample_line ''status'') = Some (butlast (sample_line ''status''))" by code_simp
  moreover have "pipe_handle sample_decode id (\<lambda>v n. (Suc n, no_status)) (sample_line ''format-disk'') 0 =
     (0, Some (refuse (UnknownVerb ''format-disk'')))" by code_simp
  ultimately show ?thesis using pipe_admits_four_verbs [OF ok] by auto
qed

end
