(* ===== verification/Cloud.thy ===== *)
theory Cloud
  imports Api
begin

text \<open>
  \<open>internal/client/cloud\<close>: the client's calls to the control plane. The HTTP transport, the parser of
  URLs and the JSON decoders are parameters; a body of type \<open>'b\<close> is what was read of the reply.
\<close>

section \<open>Requests and replies\<close>

record cloud_client =
  BaseURL :: string
  cl_ContributorKey :: string
  cl_DevicePublicKey :: string

record cloud_request =
  cr_URL :: string
  cr_Bearer :: "string option"
  cr_DeviceKey :: "string option"
  cr_Body :: "activate_request option"

datatype 'b http_result = NoAnswer | BodyLost | Answer nat 'b

record 'b decoders =
  dec_activate :: "'b \<Rightarrow> string option"
  dec_session :: "'b \<Rightarrow> session_response option"
  dec_profile :: "'b \<Rightarrow> profile_response option"
  dec_slots :: "'b \<Rightarrow> (device_summary list \<times> string) option"
  dec_error :: "'b \<Rightarrow> (string \<times> string) option"

datatype cloud_error =
    NotAURL | NotHttps | BadRequestURL | Unreachable | ReplyUnreadable | ReplyMalformed
  | SlotsFull "device_summary list" string | NotActivated | Refused string string | UnexpectedStatus nat

text \<open>\<open>url.Parse\<close> as the scheme and the host name.\<close>

type_synonym url_parser = "string \<Rightarrow> (string \<times> string) option"

text \<open>\<open>net.ParseIP\<close> reads no zones; \<open>IsLoopback\<close> looks through an address mapped from IPv4.\<close>

definition loopback_host :: "string \<Rightarrow> bool" where
  "loopback_host h \<longleftrightarrow> h = ''localhost'' \<or>
     (case parse_addr h of
        None \<Rightarrow> False
      | Some a \<Rightarrow> addr_zone a = [] \<and> (case unmap a of V4 w \<Rightarrow> v4_loopback w | V6 w _ \<Rightarrow> w = 1 | NoAddr \<Rightarrow> False))"

definition check_url :: "url_parser \<Rightarrow> string \<Rightarrow> cloud_error option" where
  "check_url parse raw =
     (case parse raw of
        None \<Rightarrow> Some NotAURL
      | Some (scheme, host) \<Rightarrow>
          if scheme = ''https'' then None
          else if scheme = ''http'' \<and> loopback_host host then None
          else Some NotHttps)"

definition error_reply :: "'b decoders \<Rightarrow> nat \<Rightarrow> 'b \<Rightarrow> cloud_error" where
  "error_reply d status b =
     (case dec_error d b of
        Some (e, hint) \<Rightarrow> if e \<noteq> [] then Refused e hint else UnexpectedStatus status
      | None \<Rightarrow> UnexpectedStatus status)"

definition read_reply :: "'b decoders \<Rightarrow> ('b \<Rightarrow> 'a option) \<Rightarrow> nat \<Rightarrow> 'b \<Rightarrow> cloud_error + 'a" where
  "read_reply d decode_out status b =
     (if status = 200 then (case decode_out b of None \<Rightarrow> Inl ReplyMalformed | Some x \<Rightarrow> Inr x)
      else if status = 409 then
        (case dec_slots d b of
           Some (devices, hint) \<Rightarrow> if devices \<noteq> [] then Inl (SlotsFull devices hint) else Inl (error_reply d status b)
         | None \<Rightarrow> Inl (error_reply d status b))
      else if status = 403 then Inl NotActivated
      else Inl (error_reply d status b))"

definition cloud_do ::
    "url_parser \<Rightarrow> 'b decoders \<Rightarrow> (cloud_request \<Rightarrow> 's \<Rightarrow> 's \<times> 'b http_result) \<Rightarrow> cloud_client \<Rightarrow>
     string \<Rightarrow> activate_request option \<Rightarrow> ('b \<Rightarrow> 'a option) \<Rightarrow> bool \<Rightarrow> 's \<Rightarrow> 's \<times> (cloud_error + 'a)" where
  "cloud_do parse d transport c path body decode_out auth k =
     (case check_url parse (BaseURL c) of
        Some e \<Rightarrow> (k, Inl e)
      | None \<Rightarrow>
          let url = trim_suffix (BaseURL c) ''/'' @ path in
          if parse url = None then (k, Inl BadRequestURL)
          else
            (case transport
                \<lparr>cr_URL = url, cr_Bearer = (if auth then Some (cl_ContributorKey c) else None),
                 cr_DeviceKey = (if auth then Some (cl_DevicePublicKey c) else None), cr_Body = body\<rparr> k of
               (k', NoAnswer) \<Rightarrow> (k', Inl Unreachable)
             | (k', BodyLost) \<Rightarrow> (k', Inl ReplyUnreadable)
             | (k', Answer status b) \<Rightarrow> (k', read_reply d decode_out status b)))"

definition cloud_activate where
  "cloud_activate parse d transport c fingerprint k =
     cloud_do parse d transport c ''/v1/activate''
       (Some \<lparr>aq_contributor_key = cl_ContributorKey c, aq_device_public_key = cl_DevicePublicKey c, aq_fingerprint = fingerprint\<rparr>)
       (dec_activate d) False k"

definition cloud_session where
  "cloud_session parse d transport c k = cloud_do parse d transport c ''/v1/session'' None (dec_session d) True k"

definition cloud_profile where
  "cloud_profile parse d transport c k = cloud_do parse d transport c ''/v1/profile'' None (dec_profile d) False k"

section \<open>What travels\<close>

text \<open>A transport that keeps a list of what it was handed.\<close>

definition listening :: "(cloud_request \<Rightarrow> 's \<Rightarrow> 's \<times> 'b http_result) \<Rightarrow> cloud_request \<Rightarrow> 's \<times> cloud_request list \<Rightarrow>
    ('s \<times> cloud_request list) \<times> 'b http_result" where
  "listening transport r st = (let (k, a) = transport r (fst st) in ((k, snd st @ [r]), a))"

lemma cloud_do_sends:
  assumes "cloud_do parse d (listening transport) c path body decode_out auth (k, sent) = ((k', sent'), r)"
  shows "sent' = sent \<and> k' = k \<or>
    check_url parse (BaseURL c) = None \<and>
    sent' = sent @ [\<lparr>cr_URL = trim_suffix (BaseURL c) ''/'' @ path, cr_Bearer = (if auth then Some (cl_ContributorKey c) else None),
      cr_DeviceKey = (if auth then Some (cl_DevicePublicKey c) else None), cr_Body = body\<rparr>]"
  using assms by (auto simp: cloud_do_def listening_def Let_def split: option.splits if_splits prod.splits http_result.splits)

text \<open>C31. The contributor key never travels in clear: whatever the configuration says, nothing is sent
  unless the base URL is https, or http to this machine itself; and fetching the profile sends no
  credentials at all.\<close>

theorem key_never_in_clear:
  assumes "cloud_session parse d (listening transport) c (k, []) = ((k1, asked), r1)"
    and "cloud_activate parse d (listening transport) c fingerprint (k, []) = ((k2, claimed), r2)"
    and "cloud_profile parse d (listening transport) c (k, []) = ((k3, fetched), r3)"
  shows "(asked \<noteq> [] \<or> claimed \<noteq> [] \<longrightarrow> (\<exists>scheme host. parse (BaseURL c) = Some (scheme, host) \<and>
      (scheme = ''https'' \<or> scheme = ''http'' \<and> loopback_host host))) \<and>
    (\<forall>q \<in> set fetched. cr_Bearer q = None \<and> cr_DeviceKey q = None \<and> cr_Body q = None)"
proof -
  have https: "\<exists>scheme host. parse (BaseURL c) = Some (scheme, host) \<and> (scheme = ''https'' \<or> scheme = ''http'' \<and> loopback_host host)"
    if "check_url parse (BaseURL c) = None"
    using that by (cases "parse (BaseURL c)") (auto simp: check_url_def split: prod.splits if_splits)
  have "asked = [] \<or> check_url parse (BaseURL c) = None"
    using cloud_do_sends [OF assms(1) [unfolded cloud_session_def]] by (elim disjE conjE) simp_all
  moreover have "claimed = [] \<or> check_url parse (BaseURL c) = None"
    using cloud_do_sends [OF assms(2) [unfolded cloud_activate_def]] by (elim disjE conjE) simp_all
  moreover have "\<forall>q \<in> set fetched. cr_Bearer q = None \<and> cr_DeviceKey q = None \<and> cr_Body q = None"
    using cloud_do_sends [OF assms(3) [unfolded cloud_profile_def]] by (elim disjE conjE) simp_all
  ultimately show ?thesis using https by blast
qed

definition sample_client :: cloud_client where
  "sample_client = \<lparr>BaseURL = ''http://127.0.0.1:8080/'', cl_ContributorKey = ''gnl-key'', cl_DevicePublicKey = ''pub''\<rparr>"

definition sample_decoders :: "string decoders" where
  "sample_decoders = \<lparr>dec_activate = Some, dec_session = (\<lambda>b. Some \<lparr>Relays = [], ProfileVersion = 1\<rparr>),
     dec_profile = (\<lambda>b. Some \<lparr>pr_version = 1, pr_cidrs = [b]\<rparr>), dec_slots = (\<lambda>b. None), dec_error = (\<lambda>b. None)\<rparr>"

lemma key_never_in_clear_witness:
  "(\<exists>q. snd (fst (cloud_session (\<lambda>u. Some (''http'', ''127.0.0.1'')) sample_decoders (listening (\<lambda>q k. (k, Answer 200 ''x''))) sample_client (0 :: nat, []))) = [q] \<and>
      cr_Bearer q = Some ''gnl-key'') \<and> loopback_host ''127.0.0.1'' \<and>
   map cr_Bearer (snd (fst (cloud_profile (\<lambda>u. Some (''http'', ''127.0.0.1'')) sample_decoders (listening (\<lambda>q k. (k, Answer 200 ''x''))) sample_client (0 :: nat, [])))) = [None]"
proof -
  let ?t = "listening (\<lambda>q k. (k, Answer 200 ''x''))" and ?p = "\<lambda>u. Some (''http'', ''127.0.0.1'')"
  have lo: "loopback_host ''127.0.0.1''" by code_simp
  have q: "snd (fst (cloud_session ?p sample_decoders ?t sample_client (0 :: nat, []))) =
      [\<lparr>cr_URL = trim_suffix (BaseURL sample_client) ''/'' @ ''/v1/session'', cr_Bearer = Some ''gnl-key'', cr_DeviceKey = Some ''pub'', cr_Body = None\<rparr>]"
    using lo by (simp add: cloud_session_def cloud_do_def check_url_def listening_def sample_client_def Let_def)
  obtain k1 s1 r1 where 1: "cloud_session ?p sample_decoders ?t sample_client (0 :: nat, []) = ((k1, s1), r1)" by (metis prod.exhaust)
  obtain k2 s2 r2 where 2: "cloud_activate ?p sample_decoders ?t sample_client ''pc'' (0 :: nat, []) = ((k2, s2), r2)" by (metis prod.exhaust)
  obtain k3 s3 r3 where 3: "cloud_profile ?p sample_decoders ?t sample_client (0 :: nat, []) = ((k3, s3), r3)" by (metis prod.exhaust)
  have one: "length s3 = 1"
    using 3 lo by (simp add: cloud_profile_def cloud_do_def check_url_def listening_def sample_client_def Let_def) (metis One_nat_def length_Cons list.size(3))
  show ?thesis using key_never_in_clear [OF 1 2 3] q lo one by (auto simp: 3 length_Suc_conv)
qed

end
