(* ===== verification/Engine.thy ===== *)
theory Engine
  imports Adapter Gamewatch Device Ipc Cloud
begin

text \<open>
  \<open>cmd/gnl-service/engine_windows.go\<close>: the privileged service. Its state is the record \<open>engine\<close>; the
  machine around it (routing table, adapter, wireguard-go, resolver, process list, HTTP) is a
  record of calls on a state \<open>'s\<close>. Every function takes and returns both, as the code does under its
  mutex. A method call on a nil pointer, which panics in Go, is the error \<open>NilPointer\<close>.
\<close>

section \<open>State\<close>

datatype engine_error =
    CloudFailed cloud_error | RouteTableUnreadable | NoDefaultRoute | NoRelaysOffered | NoUsableRelay nat
  | OpenFailed open_error | TunnelFailed tunnel_error | AdapterFailed adapter_error | RoutesFailed route_error
  | NoneAnswered | NotOnOffer string | NoUsableRanges int | BadRequest request_error | NilPointer

record 'l engine =
  en_client :: cloud_client
  en_private :: string
  en_watch :: watcher
  en_tun :: "'l option"
  en_applier :: "'l applier option"
  en_installed :: table
  en_relays :: "relay list"
  en_pins :: "string \<rightharpoonup> string"
  en_active :: string
  en_activeRTT :: nanos
  en_cidrs :: "string list"
  en_allowed :: "prefix list"
  en_lastErr :: "engine_error option"
  en_lastMeasure :: nanos

record ('l, 's, 'b) machine =
  mc_os :: "('l, 's) winipcfg"
  mc_adapter :: "('l, 's) adapter_calls"
  mc_forward :: "'s \<Rightarrow> 'l forward_row list option"
  mc_wg :: "('l, 's) wireguard"
  mc_processes :: "'s \<Rightarrow> string list option"
  mc_lower :: "string \<Rightarrow> string"
  mc_resolve :: "'s \<Rightarrow> string \<Rightarrow> addr list option"
  mc_http :: "cloud_request \<Rightarrow> 's \<Rightarrow> 's \<times> 'b http_result"
  mc_dec :: "'b decoders"
  mc_url :: url_parser
  mc_hostname :: "'s \<Rightarrow> string"

text \<open>An operation that may fail, on the engine and the machine.\<close>

type_synonym ('l, 's) op = "'l engine \<times> 's \<Rightarrow> ('l engine \<times> 's) \<times> engine_error option"

definition measureWindow :: nanos where "measureWindow = 6 * second"
definition staleAfter :: nanos where "staleAfter = 150 * second"
definition remeasureEvery :: nanos where "remeasureEvery = 300 * second"
definition retryEvery :: nanos where "retryEvery = 30 * second"
definition defaultMTU :: int where "defaultMTU = 1420"

text \<open>\<open>time.Time{}\<close>, the start of the year 1.\<close>

definition zero_time :: nanos where "zero_time = -62135596800 * second"

definition new_engine :: "device_config \<Rightarrow> key \<Rightarrow> 'l engine" where
  "new_engine cfg k =
     \<lparr>en_client = \<lparr>BaseURL = dc_ControlURL cfg, cl_ContributorKey = dc_ContributorKey cfg, cl_DevicePublicKey = PublicBase64 k\<rparr>,
      en_private = PrivateHex k,
      en_watch = new_watcher (if dc_Games cfg \<noteq> [] then map (\<lambda>g. \<lparr>game_ID = gc_ID g, ProcessNames = gc_ProcessNames g\<rparr>) (dc_Games cfg)
        else builtinGames),
      en_tun = None, en_applier = None, en_installed = disconnected, en_relays = [], en_pins = Map.empty, en_active = [],
      en_activeRTT = 0, en_cidrs = [], en_allowed = [], en_lastErr = None, en_lastMeasure = zero_time\<rparr>"

section \<open>Helpers\<close>

definition relay_by_id :: "relay list \<Rightarrow> string \<Rightarrow> relay option" where
  "relay_by_id rs rid = find (\<lambda>r. relay_ID r = rid) rs"

definition rtt_of :: "'e choice \<Rightarrow> string \<Rightarrow> nanos" where
  "rtt_of c rid = (case find (\<lambda>m. ms_RelayID m = rid) (Ranked c) of None \<Rightarrow> 0 | Some m \<Rightarrow> ms_RTT m)"

definition merge_unique :: "string list \<Rightarrow> string list \<Rightarrow> string list" where
  "merge_unique a b = keep_first {} (a @ b)"

definition union_table :: "table \<Rightarrow> table \<Rightarrow> table" where
  "union_table a b =
     \<lparr>RelayPin = (if RelayPin a = [] then RelayPin b else RelayPin a),
      Lobby = merge_unique (Lobby a) (Lobby b), Game = merge_unique (Game a) (Game b)\<rparr>"

text \<open>The clock as the tunnel's code reads it.\<close>

definition clock :: "('l, 's, 'b) machine \<Rightarrow> 'l \<Rightarrow> 's \<Rightarrow> nanos" where
  "clock m l k = now (wg_dev (mc_wg m) l) k"

section \<open>Profile, session, offers\<close>

definition usable_ranges :: "string list \<Rightarrow> prefix list" where
  "usable_ranges cs = map masked (filter (\<lambda>p. is4 (pfx_addr p)) (List.map_filter parse_prefix cs))"

definition fetch_profile :: "('l, 's, 'b) machine \<Rightarrow> ('l, 's) op" where
  "fetch_profile m st =
     (case st of (e, k) \<Rightarrow>
        (case cloud_profile (mc_url m) (mc_dec m) (mc_http m) (en_client e) k of
           (k', Inl err) \<Rightarrow> ((e, k'), if en_cidrs e \<noteq> [] then None else Some (CloudFailed err))
         | (k', Inr prof) \<Rightarrow>
             let kept = usable_ranges (pr_cidrs prof) in
             if kept = [] then ((e, k'), Some (NoUsableRanges (pr_version prof)))
             else ((e\<lparr>en_cidrs := map pfx_string kept, en_allowed := kept\<rparr>, k'), None)))"

definition engine_session :: "('l, 's, 'b) machine \<Rightarrow> cloud_client \<Rightarrow> 's \<Rightarrow> 's \<times> (engine_error + session_response)" where
  "engine_session m c k =
     (let (k1, r1) = cloud_session (mc_url m) (mc_dec m) (mc_http m) c k;
          (k2, r2) =
            (if r1 = Inl NotActivated then
               (case cloud_activate (mc_url m) (mc_dec m) (mc_http m) c (mc_hostname m k1) k1 of
                  (k2, Inl err) \<Rightarrow> (k2, Inl err)
                | (k2, Inr _) \<Rightarrow> cloud_session (mc_url m) (mc_dec m) (mc_http m) c k2)
             else (k1, r1))
      in (k2, case r2 of
                Inl err \<Rightarrow> Inl (CloudFailed err)
              | Inr sess \<Rightarrow> if Relays sess = [] then Inl NoRelaysOffered else Inr sess))"

definition offer_step ::
    "(string \<Rightarrow> addr list option) \<Rightarrow> int \<times> relay list \<times> (string \<rightharpoonup> string) \<Rightarrow> relay_offer \<Rightarrow> int \<times> relay list \<times> (string \<rightharpoonup> string)" where
  "offer_step lookup st x =
     (case st of (mtu, rs, pins) \<Rightarrow>
        (case resolve_endpoint lookup (ro_endpoint x) of
           Inl _ \<Rightarrow> st
         | Inr (ap, pin) \<Rightarrow>
             (case parse_prefix (ro_inner_ip x) of
                None \<Rightarrow> st
              | Some inner \<Rightarrow>
                  let m = (if ro_mtu x \<le> 0 then defaultMTU else ro_mtu x) in
                  (if mtu = 0 \<or> m < mtu then m else mtu,
                   rs @ [\<lparr>relay_ID = ro_relay_id x, relay_Endpoint = addr_port_string ap, relay_PublicKey = ro_public_key x,
                          relay_InnerIP = inner, relay_MTU = m\<rparr>],
                   pins(ro_relay_id x \<mapsto> pin)))))"

definition offers :: "(string \<Rightarrow> addr list option) \<Rightarrow> relay_offer list \<Rightarrow> engine_error + relay list \<times> (string \<rightharpoonup> string) \<times> int" where
  "offers lookup xs =
     (case foldl (offer_step lookup) (0, [], Map.empty) xs of (mtu, rs, pins) \<Rightarrow>
        if rs = [] then Inl (NoUsableRelay (length xs)) else Inr (rs, pins, mtu))"

section \<open>Routes and the active relay\<close>

definition wanted :: "'l engine \<Rightarrow> table" where
  "wanted e =
     (if en_tun e \<noteq> None \<and> en_active e \<noteq> [] then
        want_table (case en_pins e (en_active e) of None \<Rightarrow> [] | Some pin \<Rightarrow> pin) []
          (if running (cur (en_watch e)) then en_cidrs e else [])
      else disconnected)"

definition apply_routes :: "('l, 's, 'b) machine \<Rightarrow> ('l, 's) op" where
  "apply_routes m st =
     (case st of (e, k) \<Rightarrow>
        let want = wanted e; change = plan (en_installed e) want in
        if empty_change change then ((e, k), None)
        else case en_applier e of
          None \<Rightarrow> ((e, k), Some NilPointer)
        | Some a \<Rightarrow>
            (case apply_plan (mc_os m) a change k of
               (k', Some err) \<Rightarrow> ((e\<lparr>en_installed := union_table (en_installed e) want\<rparr>, k'), Some (RoutesFailed err))
             | (k', None) \<Rightarrow> ((e\<lparr>en_installed := want\<rparr>, k'), None)))"

definition activate :: "('l, 's, 'b) machine \<Rightarrow> string \<Rightarrow> nanos \<Rightarrow> ('l, 's) op" where
  "activate m relay_id rtt st =
     (case st of (e, k) \<Rightarrow>
        (case relay_by_id (en_relays e) relay_id of
           None \<Rightarrow> ((e, k), Some (NotOnOffer relay_id))
         | Some r \<Rightarrow>
             (case en_tun e of
                None \<Rightarrow> ((e, k), Some NilPointer)
              | Some l \<Rightarrow>
                  let mtu = (if relay_MTU r \<le> 0 then defaultMTU else relay_MTU r) in
                  (case configure_adapter (mc_adapter m) l (relay_InnerIP r) (of_int mtu) k of
                     (k1, Some err) \<Rightarrow> ((e, k1), Some (AdapterFailed err))
                   | (k1, None) \<Rightarrow>
                       (case set_active (wg_dev (mc_wg m) l) (en_relays e) (en_allowed e) relay_id k1 of
                          (k2, Some err) \<Rightarrow> ((e, k2), Some (TunnelFailed err))
                        | (k2, None) \<Rightarrow> apply_routes m (e\<lparr>en_active := relay_id, en_activeRTT := rtt\<rparr>, k2))))))"

definition measure_fleet :: "('l, 's, 'b) machine \<Rightarrow> 'l \<Rightarrow> 'l engine \<times> 's \<Rightarrow> ('l engine \<times> 's) \<times> measure_error choice option" where
  "measure_fleet m l st =
     (case st of (e, k) \<Rightarrow>
        let e1 = e\<lparr>en_lastMeasure := clock m l k\<rparr>;
            (k1, ms) = measure_relays (wg_dev (mc_wg m) l) (en_relays e) measureWindow k
        in ((e1, k1), best ms))"

text \<open>The part of \<open>connect\<close> after its adapter is there.\<close>

definition bring_up ::
    "('l, 's, 'b) machine \<Rightarrow> 'l \<Rightarrow> 'l \<Rightarrow> addr \<Rightarrow> relay list \<Rightarrow> (string \<rightharpoonup> string) \<Rightarrow> 'l engine \<Rightarrow> 's \<Rightarrow>
     ('l engine \<times> 's) \<times> engine_error option" where
  "bring_up m l phys gateway rs pins e k =
     (let e1 = e\<lparr>en_tun := Some l, en_applier := Some \<lparr>Tunnel = l, Physical = phys, PhysicalGateway = gateway\<rparr>,
        en_relays := rs, en_pins := pins\<rparr> in
      (case set_peers (wg_dev (mc_wg m) l) rs k of
         (k1, Some err) \<Rightarrow> ((e1, k1), Some (TunnelFailed err))
       | (k1, None) \<Rightarrow>
           (case measure_fleet m l (e1, k1) of
              (st2, None) \<Rightarrow> (st2, Some NoneAnswered)
            | (st2, Some c) \<Rightarrow> activate m (Primary c) (rtt_of c (Primary c)) st2)))"

definition connect :: "('l, 's, 'b) machine \<Rightarrow> ('l, 's) op" where
  "connect m st =
     (if en_tun (fst st) \<noteq> None then (st, None)
      else case fetch_profile m st of
        (st1, Some err) \<Rightarrow> (st1, Some err)
      | ((e, k1), None) \<Rightarrow>
          (case engine_session m (en_client e) k1 of
             (k2, Inl err) \<Rightarrow> ((e, k2), Some err)
           | (k2, Inr sess) \<Rightarrow>
               (case mc_forward m k2 of
                  None \<Rightarrow> ((e, k2), Some RouteTableUnreadable)
                | Some rows \<Rightarrow>
                    (case default_route rows of
                       None \<Rightarrow> ((e, k2), Some NoDefaultRoute)
                     | Some (phys, gateway) \<Rightarrow>
                         (case offers (mc_resolve m k2) (Relays sess) of
                            Inl err \<Rightarrow> ((e, k2), Some err)
                          | Inr (rs, pins, mtu) \<Rightarrow>
                              (case open_tunnel (mc_wg m) (en_private e) mtu k2 of
                                 (k3, Inl err) \<Rightarrow> ((e, k3), Some (OpenFailed err))
                               | (k3, Inr l) \<Rightarrow> bring_up m l phys gateway rs pins e k3))))))"

section \<open>Watching\<close>

text \<open>Standing down: no relay is in use and the routes come out; a failure is only logged.\<close>

definition stand_down :: "('l, 's, 'b) machine \<Rightarrow> 'l engine \<times> 's \<Rightarrow> 'l engine \<times> 's" where
  "stand_down m st = (case st of (e, k) \<Rightarrow> fst (apply_routes m (e\<lparr>en_active := [], en_activeRTT := 0\<rparr>, k)))"

definition remeasure :: "('l, 's, 'b) machine \<Rightarrow> 'l \<Rightarrow> bool \<Rightarrow> 'l engine \<times> 's \<Rightarrow> 'l engine \<times> 's" where
  "remeasure m l force st =
     (case measure_fleet m l st of
        ((e, k), None) \<Rightarrow>
          if en_active e = [] then (e, k) else stand_down m (e\<lparr>en_lastErr := Some NoneAnswered\<rparr>, k)
      | ((e, k), Some c) \<Rightarrow>
          let rtt = rtt_of c (Primary c) in
          if Primary c = en_active e then (e\<lparr>en_activeRTT := rtt, en_lastErr := None\<rparr>, k)
          else if \<not> worth_switching (if force then 0 else en_activeRTT e) rtt DefaultSwitchMargin then (e, k)
          else
            (case activate m (Primary c) rtt (e, k) of
               ((e1, k1), Some err) \<Rightarrow> stand_down m (e1\<lparr>en_lastErr := Some err\<rparr>, k1)
             | ((e1, k1), None) \<Rightarrow> (e1\<lparr>en_lastErr := None\<rparr>, k1)))"

definition check_relay :: "('l, 's, 'b) machine \<Rightarrow> 'l \<Rightarrow> 'l engine \<times> 's \<Rightarrow> 'l engine \<times> 's" where
  "check_relay m l st =
     (case st of (e, k) \<Rightarrow>
        let t = clock m l k in
        if en_active e = [] then (if t - en_lastMeasure e > retryEvery then remeasure m l True st else st)
        else case relay_by_id (en_relays e) (en_active e) of
          None \<Rightarrow> st
        | Some r \<Rightarrow>
            if (case last_handshake (wg_dev (mc_wg m) l) (relay_PublicKey r) k of
                  None \<Rightarrow> True | Some seen \<Rightarrow> t - seen > staleAfter) then remeasure m l True st
            else if \<not> running (cur (en_watch e)) \<and> t - en_lastMeasure e > remeasureEvery then remeasure m l False st
            else st)"

definition poll_engine :: "('l, 's, 'b) machine \<Rightarrow> 'l engine \<times> 's \<Rightarrow> 'l engine \<times> 's" where
  "poll_engine m st =
     (case st of (e, k) \<Rightarrow>
        (case mc_processes m k of
           None \<Rightarrow> st
         | Some names \<Rightarrow>
             let (w, _, changed) = poll_watch (mc_lower m) names (en_watch e); e1 = e\<lparr>en_watch := w\<rparr> in
             (case en_tun e1 of
                None \<Rightarrow> (e1, k)
              | Some l \<Rightarrow>
                  if \<not> changed then check_relay m l (e1, k)
                  else
                    (case apply_routes m (e1, k) of
                       ((e2, k2), Some err) \<Rightarrow> (e2\<lparr>en_lastErr := Some err\<rparr>, k2)
                     | ((e2, k2), None) \<Rightarrow> (e2\<lparr>en_lastErr := None\<rparr>, k2)))))"

section \<open>Verbs\<close>

definition teardown :: "('l, 's, 'b) machine \<Rightarrow> 'l engine \<times> 's \<Rightarrow> 'l engine \<times> 's" where
  "teardown m st =
     (case st of (e, k) \<Rightarrow>
        let k1 = (case en_applier e of None \<Rightarrow> k | Some a \<Rightarrow> fst (apply_plan (mc_os m) a (plan (en_installed e) disconnected) k));
            k2 = (case en_tun e of None \<Rightarrow> k1 | Some l \<Rightarrow> wg_close (mc_wg m) l k1)
        in (e\<lparr>en_tun := None, en_applier := None, en_installed := disconnected, en_lastErr := None, en_relays := [],
             en_pins := Map.empty, en_active := [], en_activeRTT := 0\<rparr>, k2))"

definition reload_profile :: "('l, 's, 'b) machine \<Rightarrow> ('l, 's) op" where
  "reload_profile m st =
     (case fetch_profile m st of
        (st1, Some err) \<Rightarrow> (st1, Some err)
      | ((e, k), None) \<Rightarrow>
          (case en_tun e of
             None \<Rightarrow> ((e, k), None)
           | Some l \<Rightarrow>
               if en_active e = [] then ((e, k), None)
               else
                 (case set_active (wg_dev (mc_wg m) l) (en_relays e) (en_allowed e) (en_active e) k of
                    (k1, Some err) \<Rightarrow> ((e, k1), Some (TunnelFailed err))
                  | (k1, None) \<Rightarrow> apply_routes m (e, k1))))"

definition status :: "'l engine \<Rightarrow> engine_error ipc_response" where
  "status e =
     \<lparr>rs_OK = (en_lastErr e = None), rs_Error = en_lastErr e,
      rs_State = (if en_tun e \<noteq> None then ''connected'' else ''disconnected''),
      rs_RelayID = en_active e, rs_GameRunning = GameID (cur (en_watch e)),
      rs_ActiveRoutes = length (Lobby (en_installed e)) + length (Game (en_installed e)) +
        (if RelayPin (en_installed e) \<noteq> [] then 1 else 0),
      rs_TunnelRTTms = of_int (en_activeRTT e div 1000) / 1000, rs_LossPct = 0\<rparr>"

definition handle_verb :: "('l, 's, 'b) machine \<Rightarrow> verb \<Rightarrow> 'l engine \<times> 's \<Rightarrow> ('l engine \<times> 's) \<times> engine_error ipc_response" where
  "handle_verb m v st =
     (if v = VerbConnect then
        (case connect m st of
           ((e, k), Some err) \<Rightarrow> (teardown m (e\<lparr>en_lastErr := Some err\<rparr>, k), no_status\<lparr>rs_Error := Some err\<rparr>)
         | ((e, k), None) \<Rightarrow> ((e\<lparr>en_lastErr := None\<rparr>, k), status (e\<lparr>en_lastErr := None\<rparr>)))
      else if v = VerbDisconnect then (teardown m st, no_status\<lparr>rs_OK := True, rs_State := ''disconnected''\<rparr>)
      else if v = VerbStatus then (st, status (fst st))
      else if v = VerbReloadProfile then
        (case reload_profile m st of
           (st1, Some err) \<Rightarrow> (st1, no_status\<lparr>rs_Error := Some err\<rparr>)
         | (st1, None) \<Rightarrow> (st1, status (fst st1)))
      else (st, refuse (BadRequest (UnknownVerb v))))"

section \<open>The service\<close>

text \<open>\<open>run\<close>: connections to the pipe and ticks in whatever order they get the mutex, and at the end a
  teardown.\<close>

datatype event = Tick | Pipe string

fun on_event :: "(string \<Rightarrow> verb option) \<Rightarrow> ('l, 's, 'b) machine \<Rightarrow> event \<Rightarrow> 'l engine \<times> 's \<Rightarrow> 'l engine \<times> 's" where
  "on_event decode m Tick st = poll_engine m st"
| "on_event decode m (Pipe sent) st = fst (pipe_handle decode BadRequest (handle_verb m) sent st)"

definition run_service :: "(string \<Rightarrow> verb option) \<Rightarrow> ('l, 's, 'b) machine \<Rightarrow> event list \<Rightarrow> 'l engine \<times> 's \<Rightarrow> 'l engine \<times> 's" where
  "run_service decode m evs st = teardown m (foldl (\<lambda>st ev. on_event decode m ev st) st evs)"

end
