(* ===== verification/Engine_Inv.thy ===== *)
theory Engine_Inv
  imports Engine
begin

text \<open>
  What the machine around the service promises, the states the service can reach, and the invariant
  that holds in all of them whatever fails: no prefix is routed into the tunnel that the service does not have
  on record.
\<close>

section \<open>The machine\<close>

text \<open>\<open>routes\<close> is the part of the kernel's table written through the route calls. Only those calls
  change it, an adapter is created without routes and is not one the machine already reaches the
  internet through, and closing it takes its routes with it.\<close>

definition machine_documented :: "('l, 's, 'b) machine \<Rightarrow> ('s \<Rightarrow> ('l \<times> prefix \<times> addr) set) \<Rightarrow> bool" where
  "machine_documented m routes \<longleftrightarrow>
     winipcfg_documented (mc_os m) routes \<and>
     (\<forall>q k. routes (fst (mc_http m q k)) = routes k) \<and>
     (\<forall>l ps k. routes (fst (set_addresses (mc_adapter m) l ps k)) = routes k) \<and>
     (\<forall>l i k. routes (fst (set_interface (mc_adapter m) l i k)) = routes k) \<and>
     (\<forall>l cfg k. routes (fst (ipc_set (wg_dev (mc_wg m) l) cfg k)) = routes k) \<and>
     (\<forall>l key k. routes (initiate (wg_dev (mc_wg m) l) key k) = routes k) \<and>
     (\<forall>l d k. routes (sleep (wg_dev (mc_wg m) l) d k) = routes k) \<and>
     (\<forall>l k. routes (fst (wg_up (mc_wg m) l k)) = routes k) \<and>
     (\<forall>k. routes (wg_discard (mc_wg m) k) = routes k) \<and>
     (\<forall>l k. routes (wg_close (mc_wg m) l k) = {r \<in> routes k. fst r \<noteq> l}) \<and>
     (\<forall>n mtu k. routes (fst (wg_create (mc_wg m) n mtu k)) = routes k \<and>
        (\<forall>l. snd (wg_create (mc_wg m) n mtu k) = Created l \<longrightarrow> l \<notin> fst ` routes k \<and>
           (\<forall>rows. mc_forward m k = Some rows \<longrightarrow> l \<notin> fr_luid ` set rows)))"

lemma machineD:
  assumes "machine_documented m routes"
  shows machine_os: "winipcfg_documented (mc_os m) routes"
    and machine_keeps: "routes (fst (mc_http m q k)) = routes k"
      "routes (fst (set_addresses (mc_adapter m) l ps k)) = routes k"
      "routes (fst (set_interface (mc_adapter m) l i k)) = routes k"
      "routes (fst (ipc_set (wg_dev (mc_wg m) l) cfg k)) = routes k"
      "routes (initiate (wg_dev (mc_wg m) l) key k) = routes k"
      "routes (sleep (wg_dev (mc_wg m) l) d k) = routes k"
      "routes (fst (wg_up (mc_wg m) l k)) = routes k"
      "routes (wg_discard (mc_wg m) k) = routes k"
      "routes (fst (wg_create (mc_wg m) n mtu k)) = routes k"
    and machine_close: "routes (wg_close (mc_wg m) l k) = {r \<in> routes k. fst r \<noteq> l}"
    and machine_create: "snd (wg_create (mc_wg m) n mtu k) = Created l \<Longrightarrow> l \<notin> fst ` routes k"
      "snd (wg_create (mc_wg m) n mtu k) = Created l \<Longrightarrow> mc_forward m k = Some rows \<Longrightarrow> l \<notin> fr_luid ` set rows"
proof -
  note D = assms [unfolded machine_documented_def]
  show "winipcfg_documented (mc_os m) routes" "routes (fst (mc_http m q k)) = routes k"
      "routes (fst (set_addresses (mc_adapter m) l ps k)) = routes k"
      "routes (fst (set_interface (mc_adapter m) l i k)) = routes k"
      "routes (fst (ipc_set (wg_dev (mc_wg m) l) cfg k)) = routes k"
      "routes (initiate (wg_dev (mc_wg m) l) key k) = routes k"
      "routes (sleep (wg_dev (mc_wg m) l) d k) = routes k"
      "routes (fst (wg_up (mc_wg m) l k)) = routes k"
      "routes (wg_discard (mc_wg m) k) = routes k"
      "routes (fst (wg_create (mc_wg m) n mtu k)) = routes k"
      "routes (wg_close (mc_wg m) l k) = {r \<in> routes k. fst r \<noteq> l}"
    using D by simp_all
  have C: "\<forall>l. snd (wg_create (mc_wg m) n mtu k) = Created l \<longrightarrow> l \<notin> fst ` routes k \<and>
           (\<forall>rows. mc_forward m k = Some rows \<longrightarrow> l \<notin> fr_luid ` set rows)"
    using D by (elim conjE) (erule allE, erule allE, erule allE, erule conjunct2)
  show "snd (wg_create (mc_wg m) n mtu k) = Created l \<Longrightarrow> l \<notin> fst ` routes k"
    "snd (wg_create (mc_wg m) n mtu k) = Created l \<Longrightarrow> mc_forward m k = Some rows \<Longrightarrow> l \<notin> fr_luid ` set rows"
    using C by simp_all
qed

section \<open>Calls that leave the table alone\<close>

lemma cloud_keeps:
  "machine_documented m routes \<Longrightarrow> routes (fst (cloud_do u d (mc_http m) c path body out auth k)) = routes k"
proof -
  assume "machine_documented m routes"
  then have "routes k' = routes k" if "mc_http m q k = (k', r)" for q k' r using machine_keeps(1) [of m routes q k] that by simp
  then show ?thesis by (auto simp: cloud_do_def Let_def split: option.split prod.split http_result.split)
qed

lemma session_keeps:
  assumes "machine_documented m routes"
  shows "routes (fst (engine_session m c k)) = routes k"
proof -
  obtain k1 r1 where 1: "cloud_session (mc_url m) (mc_dec m) (mc_http m) c k = (k1, r1)" by fastforce
  obtain k2 r2 where 2: "cloud_activate (mc_url m) (mc_dec m) (mc_http m) c (mc_hostname m k1) k1 = (k2, r2)" by fastforce
  obtain k3 r3 where 3: "cloud_session (mc_url m) (mc_dec m) (mc_http m) c k2 = (k3, r3)" by fastforce
  have k: "routes k1 = routes k" "routes k2 = routes k1" "routes k3 = routes k2"
    using cloud_keeps [OF assms] 1 2 3 unfolding cloud_session_def cloud_activate_def by (metis fst_conv)+
  then show ?thesis by (simp add: engine_session_def 1 2 3 split: sum.split)
qed

lemma fetch_profile_cases:
  assumes "machine_documented m routes" "fetch_profile m (e, k) = ((e', k'), r)"
  shows "routes k' = routes k"
    and "e' = e \<or> (\<exists>cs. e' = e\<lparr>en_cidrs := map pfx_string (usable_ranges cs), en_allowed := usable_ranges cs\<rparr>)"
proof -
  obtain k1 r1 where 1: "cloud_profile (mc_url m) (mc_dec m) (mc_http m) (en_client e) k = (k1, r1)" by fastforce
  then have "routes k1 = routes k" using cloud_keeps [OF assms(1)] unfolding cloud_profile_def by (metis fst_conv)
  then show "routes k' = routes k"
    "e' = e \<or> (\<exists>cs. e' = e\<lparr>en_cidrs := map pfx_string (usable_ranges cs), en_allowed := usable_ranges cs\<rparr>)"
    using assms(2) by (auto simp: fetch_profile_def 1 Let_def split: sum.splits if_splits)
qed

lemma set_peers_keeps: "machine_documented m routes \<Longrightarrow> routes (fst (set_peers (wg_dev (mc_wg m) l) rs k)) = routes k"
proof -
  assume "machine_documented m routes"
  then have "routes k' = routes k" if "ipc_set (wg_dev (mc_wg m) l) cfg k = (k', r)" for cfg k' r
    using machine_keeps(4) [of m routes l cfg k] that by simp
  then show ?thesis by (auto simp: set_peers_def split: sum.split prod.split bool.split)
qed

lemma set_active_keeps: "machine_documented m routes \<Longrightarrow> routes (fst (set_active (wg_dev (mc_wg m) l) rs al act k)) = routes k"
proof -
  assume "machine_documented m routes"
  then have "routes k' = routes k" if "ipc_set (wg_dev (mc_wg m) l) cfg k = (k', r)" for cfg k' r
    using machine_keeps(4) [of m routes l cfg k] that by simp
  then show ?thesis by (auto simp: set_active_def split: sum.split prod.split bool.split)
qed

lemma configure_keeps: "machine_documented m routes \<Longrightarrow> routes (fst (configure_adapter (mc_adapter m) l p mtu k)) = routes k"
proof -
  assume "machine_documented m routes"
  then have "routes k' = routes k" if "set_addresses (mc_adapter m) l ps k = (k', r)" for ps k k' r
    using machine_keeps(2) [of m routes l ps k] that by simp
  moreover have "routes k' = routes k" if "set_interface (mc_adapter m) l i k = (k', r)" for i k k' r
    using machine_keeps(3) [of m routes l i k] that \<open>machine_documented m routes\<close> by simp
  ultimately show ?thesis by (auto simp: configure_adapter_def split: option.split prod.split bool.split)
qed

lemma start_keeps: "machine_documented m routes \<Longrightarrow> routes (fst (foldl (start_relay (wg_dev (mc_wg m) l)) st rs)) = routes (fst st)"
proof (induction rs arbitrary: st)
  case (Cons r rs)
  have "routes (fst (start_relay (wg_dev (mc_wg m) l) st r)) = routes (fst st)"
    by (cases st) (simp add: start_relay_def machine_keeps(5) [OF Cons.prems] split: sum.split)
  then show ?case using Cons by simp
qed simp

lemma measure_loop_keeps:
  "machine_documented m routes \<Longrightarrow> routes (fst (measure_loop (wg_dev (mc_wg m) l) rs b dl n st)) = routes (fst st)"
proof (induction n arbitrary: st)
  case 0
  then show ?case by simp
next
  case (Suc n)
  obtain k out pending where st: "st = (k, out, pending)" by (metis prod.exhaust)
  show ?case using Suc.IH [OF Suc.prems] by (simp add: st Let_def machine_keeps(6) [OF Suc.prems] split: option.split)
qed

lemma measure_keeps:
  assumes "machine_documented m routes"
  shows "routes (fst (measure_relays (wg_dev (mc_wg m) l) rs w k)) = routes k"
proof -
  let ?dev = "wg_dev (mc_wg m) l" and ?b = "handshake_baseline (wg_dev (mc_wg m) l) rs k"
  obtain k1 o1 p1 where 1: "foldl (start_relay ?dev) (k, [], []) rs = (k1, o1, p1)" by (metis prod.exhaust)
  obtain k2 o2 p2 where 2: "measure_loop ?dev rs ?b (now ?dev k1 + w) (measure_fuel w) (k1, o1, p1) = (k2, o2, p2)" by (metis prod.exhaust)
  have "routes k1 = routes k" using start_keeps [OF assms, of l "(k, [], [])" rs] by (simp add: 1)
  moreover have "routes k2 = routes k1"
    using measure_loop_keeps [OF assms, of l rs ?b "now ?dev k1 + w" "measure_fuel w" "(k1, o1, p1)"] by (simp add: 2)
  ultimately show ?thesis by (simp add: measure_relays_def 1 2)
qed

lemma fleet_cases:
  assumes "machine_documented m routes" "measure_fleet m l (e, k) = ((e', k'), c)"
  shows "routes k' = routes k" "\<exists>t. e' = e\<lparr>en_lastMeasure := t\<rparr>"
proof -
  obtain k1 ms where 1: "measure_relays (wg_dev (mc_wg m) l) (en_relays e) measureWindow k = (k1, ms)" by fastforce
  then have "routes k1 = routes k" using measure_keeps [OF assms(1)] by (metis fst_conv)
  then show "routes k' = routes k" "\<exists>t. e' = e\<lparr>en_lastMeasure := t\<rparr>"
    using assms(2) by (auto simp: measure_fleet_def 1 Let_def)
qed

lemma open_tunnel_cases:
  assumes "machine_documented m routes" "open_tunnel (mc_wg m) pk mtu k = (k', r)"
  shows "r = Inr l \<Longrightarrow> routes k' = routes k" "r = Inr l \<Longrightarrow> l \<notin> fst ` routes k"
    "r = Inr l \<Longrightarrow> mc_forward m k = Some rows \<Longrightarrow> l \<notin> fr_luid ` set rows"
proof -
  assume r: "r = Inr l"
  obtain k1 where 1: "wg_create (mc_wg m) AdapterName mtu k = (k1, Created l)"
    using assms(2) r by (auto simp: open_tunnel_def split: prod.splits created.splits bool.splits)
  obtain k2 where 2: "ipc_set (wg_dev (mc_wg m) l) (''private_key='' @ pk @ nl) k1 = (k2, True)"
    using assms(2) r 1 by (auto simp: open_tunnel_def split: prod.splits bool.splits)
  have 3: "wg_up (mc_wg m) l k2 = (k', True)"
    using assms(2) r 1 2 by (auto simp: open_tunnel_def split: prod.splits bool.splits)
  show "routes k' = routes k"
    using machine_keeps(4,7,9) [OF assms(1)] 1 2 3 by (metis fst_conv)
  show "l \<notin> fst ` routes k" using machine_create(1) [OF assms(1), of AdapterName mtu k l] 1 by simp
  show "mc_forward m k = Some rows \<Longrightarrow> l \<notin> fr_luid ` set rows"
    using machine_create(2) [OF assms(1), of AdapterName mtu k l] 1 by simp
qed

lemma open_tunnel_rows:
  assumes doc: "machine_documented m routes" and run: "open_tunnel (mc_wg m) pk mtu k = (k', r)"
  shows "routes k' \<subseteq> routes k"
proof -
  obtain k1 r1 where 1: "wg_create (mc_wg m) AdapterName mtu k = (k1, r1)" by fastforce
  then have k1: "routes k1 = routes k" using machine_keeps(9) [OF doc] by (metis fst_conv)
  show ?thesis
  proof (cases r1)
    case (Created l)
    obtain k2 r2 where 2: "ipc_set (wg_dev (mc_wg m) l) (''private_key='' @ pk @ nl) k1 = (k2, r2)" by fastforce
    obtain k3 r3 where 3: "wg_up (mc_wg m) l k2 = (k3, r3)" by fastforce
    have k: "routes k2 = routes k" "routes k3 = routes k" using machine_keeps(4,7) [OF doc] k1 2 3 by (metis fst_conv)+
    have c: "routes (wg_close (mc_wg m) l x) \<subseteq> routes x" for x by (simp add: machine_close [OF doc])
    have "k' \<in> {wg_close (mc_wg m) l k2, wg_close (mc_wg m) l k3, k3}"
      using run 1 2 3 Created by (cases r2; cases r3) (simp_all add: open_tunnel_def)
    then show ?thesis using c [of k2] c [of k3] k by (elim insertE) simp_all
  qed (use run 1 k1 machine_keeps(8) [OF doc] in \<open>auto simp: open_tunnel_def\<close>)
qed

section \<open>What a plan does to the captured prefixes, failures included\<close>

lemma steps_cases:
  "steps f xs st = (st', e) \<Longrightarrow> steps f (xs @ ys) st = (if e = None then steps f ys st' else (st', e))"
  by (cases e) (simp_all add: steps_append)

lemma pin_steps_tunnelled:
  assumes "winipcfg_documented os routes" "Tunnel a \<noteq> Physical a"
    and "steps (run_step (recorded os) a) (if p \<noteq> [] then [x] else []) st = (st', e)" "x = StepAddPin p \<or> x = StepDelPin p"
  shows "tunnelled a (routes (fst st')) = tunnelled a (routes (fst st))"
proof (cases "p = []")
  case True
  then show ?thesis using assms(3) by simp
next
  case False
  then have "steps (run_step (recorded os) a) [x] st = (st', e)" using assms(3) by simp
  then have "run_step (recorded os) a x st = (st', e)" by (auto split: prod.splits option.splits)
  then have "add_pin (recorded os) a p st = (st', e) \<or> del_pin (recorded os) a p st = (st', e)" using assms(4) by auto
  then show ?thesis
    using through_last [OF conjunct1 [OF add_pin_step [OF assms(1,2), of p st st' e]]]
      through_last [OF conjunct1 [OF del_pin_step [OF assms(1,2), of p st st' e]]] by blast
qed

lemma apply_plan_tunnelled:
  assumes doc: "winipcfg_documented os routes" and lu: "Tunnel a \<noteq> Physical a" and run: "apply_plan os a c k = (k', e)"
  shows "tunnelled a (routes k') \<subseteq> tunnelled a (routes k) \<union> nets (set (added c))"
    and "e = None \<Longrightarrow> tunnelled a (routes k') =
      (tunnelled a (routes k) \<union> nets (set (added c))) - nets (set (deleted c))"
proof -
  let ?f = "run_step (recorded os) a"
  obtain st1 e1 where s1: "steps ?f (if AddPin c \<noteq> [] then [StepAddPin (AddPin c)] else []) (k, []) = (st1, e1)" by fastforce
  obtain st2 e2 where s2: "steps ?f (map StepAdd (added c)) st1 = (st2, e2)" by fastforce
  obtain st3 e3 where s3: "steps ?f (map StepDel (deleted c)) st2 = (st3, e3)" by fastforce
  obtain st4 e4 where s4: "steps ?f (if RemovePin c \<noteq> [] then [StepDelPin (RemovePin c)] else []) st3 = (st4, e4)" by fastforce
  have whole: "apply_plan (recorded os) a c (k, []) = (if e1 \<noteq> None then (st1, e1) else if e2 \<noteq> None then (st2, e2)
      else if e3 \<noteq> None then (st3, e3) else (st4, e4))"
    unfolding apply_plan_def change_steps_def steps_cases [OF s1] steps_cases [OF s2] steps_cases [OF s3] s4
    by (cases e1; cases e2; cases e3) simp_all
  obtain st' f where st': "apply_plan (recorded os) a c (k, []) = (st', f)" by fastforce
  have k': "fst st' = k'" "f = e" using recorded_apply [OF st'] run by simp_all
  have t1: "tunnelled a (routes (fst st1)) = tunnelled a (routes k)" using pin_steps_tunnelled [OF doc lu s1] by simp
  have A: "tunnelled a (routes (fst st2)) \<subseteq> tunnelled a (routes k) \<union> nets (set (added c))"
    "e2 = None \<Longrightarrow> tunnelled a (routes (fst st2)) = tunnelled a (routes k) \<union> nets (set (added c))"
    using through_last [OF conjunct1 [OF add_steps [OF doc lu s2]]] conjunct2 [OF add_steps [OF doc lu s2]] t1 by simp_all
  have D: "tunnelled a (routes (fst st3)) \<subseteq> tunnelled a (routes (fst st2))"
    "e3 = None \<Longrightarrow> tunnelled a (routes (fst st3)) = tunnelled a (routes (fst st2)) - nets (set (deleted c))"
    using through_last [OF conjunct1 [OF del_steps [OF doc lu s3]]] conjunct2 [OF del_steps [OF doc lu s3]] by simp_all
  have t4: "tunnelled a (routes (fst st4)) = tunnelled a (routes (fst st3))" using pin_steps_tunnelled [OF doc lu s4] by simp
  show "tunnelled a (routes k') \<subseteq> tunnelled a (routes k) \<union> nets (set (added c))"
    using whole st' k' t1 A(1) D(1) t4 by (auto split: if_splits)
  show "tunnelled a (routes k') = (tunnelled a (routes k) \<union> nets (set (added c))) - nets (set (deleted c))" if "e = None"
    using whole st' k' that A(2) D(2) t4 by (auto split: if_splits)
qed

section \<open>The invariant\<close>

text \<open>An IPv4 prefix as it is printed.\<close>

definition canonical :: "string \<Rightarrow> bool" where
  "canonical c \<longleftrightarrow> (\<exists>w b. b \<le> 32 \<and> c = pfx_string (Prefix (V4 w) b))"

lemma canonical_parse: "canonical c \<Longrightarrow> \<exists>p. parse_prefix c = Some p \<and> pfx_string p = c"
  using parse_prefix_string unfolding canonical_def by blast

lemma canonical_distinct: "\<forall>c \<in> A. canonical c \<Longrightarrow> distinct_nets A"
  unfolding distinct_nets_def using canonical_parse by (metis option.inject)

lemma usable_canonical: "p \<in> set (usable_ranges cs) \<Longrightarrow> canonical (pfx_string p)"
proof -
  assume "p \<in> set (usable_ranges cs)"
  then obtain c q where q: "parse_prefix c = Some q" "is4 (pfx_addr q)" "p = masked q"
    by (auto simp: usable_ranges_def List.map_filter_def)
  then obtain w b where "q = Prefix (V4 w) b" by (cases q) (auto simp: is4_iff)
  then have "b \<le> 32" "\<exists>v. p = Prefix (V4 v) b" using parse_prefix_bits q(1,3) by auto
  then show ?thesis unfolding canonical_def by blast
qed

definition engine_inv :: "('s \<Rightarrow> ('l \<times> prefix \<times> addr) set) \<Rightarrow> 'l engine \<times> 's \<Rightarrow> bool" where
  "engine_inv routes st \<longleftrightarrow> (case st of (e, k) \<Rightarrow>
     en_tun e = map_option Tunnel (en_applier e) \<and>
     (en_tun e = None \<longrightarrow> en_installed e = disconnected \<and> en_active e = [] \<and> en_relays e = [] \<and> en_pins e = Map.empty) \<and>
     (\<forall>c \<in> set (en_cidrs e) \<union> set (Game (en_installed e)). canonical c) \<and> Lobby (en_installed e) = [] \<and>
     (RelayPin (en_installed e) = [] \<or> canonical (RelayPin (en_installed e))) \<and>
     (\<forall>x pin. en_pins e x = Some pin \<longrightarrow> canonical pin) \<and> dom (en_pins e) = relay_ID ` set (en_relays e) \<and>
     (en_active e = [] \<or> en_active e \<in> relay_ID ` set (en_relays e)) \<and>
     (\<forall>a. en_applier e = Some a \<longrightarrow> Tunnel a \<noteq> Physical a \<and> tunnelled a (routes k) \<subseteq> nets (set (Game (en_installed e)))) \<and>
     en_lastErr e \<noteq> Some NilPointer)"

lemma inv_world: "engine_inv routes (e, k) \<Longrightarrow> routes k' = routes k \<Longrightarrow> engine_inv routes (e, k')"
  by (simp add: engine_inv_def)

lemma inv_irrelevant:
  "engine_inv routes (e, k) \<Longrightarrow> x \<noteq> Some NilPointer \<Longrightarrow> engine_inv routes (e\<lparr>en_lastErr := x\<rparr>, k)"
  "engine_inv routes (e, k) \<Longrightarrow> engine_inv routes (e\<lparr>en_lastMeasure := t\<rparr>, k)"
  "engine_inv routes (e, k) \<Longrightarrow> engine_inv routes (e\<lparr>en_activeRTT := r\<rparr>, k)"
  "engine_inv routes (e, k) \<Longrightarrow> engine_inv routes (e\<lparr>en_watch := w\<rparr>, k)"
  "engine_inv routes (e, k) \<Longrightarrow> engine_inv routes (e\<lparr>en_active := []\<rparr>, k)"
  by (simp_all add: engine_inv_def)

lemma inv_ranges:
  "engine_inv routes (e, k) \<Longrightarrow> engine_inv routes (e\<lparr>en_cidrs := map pfx_string (usable_ranges cs), en_allowed := usable_ranges cs\<rparr>, k)"
  using usable_canonical by (auto simp: engine_inv_def)

lemma inv_init: "engine_inv routes (new_engine cfg key, k)"
  by (simp add: engine_inv_def new_engine_def disconnected_def)

section \<open>Every operation keeps it\<close>

lemma wanted_lines: "Lobby (wanted e) = []" "set (Game (wanted e)) \<subseteq> set (en_cidrs e)"
  by (auto simp: wanted_def want_table_def disconnected_def)

lemma wanted_pin: "RelayPin (wanted e) = [] \<or> (\<exists>x. en_pins e x = Some (RelayPin (wanted e)))"
  by (auto simp: wanted_def want_table_def disconnected_def split: option.splits)

lemma change_lines:
  assumes "Lobby t = []" "Lobby w = []"
  shows "set (added (plan t w)) = set (Game w) - set (Game t)" "set (deleted (plan t w)) = set (Game t) - set (Game w)"
  using assms by (auto simp: added_def deleted_def plan_def split_def Let_def route_diff_def)

lemma nets_Diff_subset: "nets A \<subseteq> nets B \<union> nets (A - B)"
  by (auto simp: nets_def)

lemma apply_routes_frame:
  "apply_routes m (e, k) = ((e', k'), r) \<Longrightarrow> e' = e\<lparr>en_installed := en_installed e'\<rparr>"
  by (auto simp: apply_routes_def Let_def split: if_splits option.splits prod.splits)

lemma apply_routes_inv:
  assumes doc: "machine_documented m routes" and inv: "engine_inv routes (e, k)"
    and run: "apply_routes m (e, k) = ((e', k'), r)"
  shows "engine_inv routes (e', k') \<and> r \<noteq> Some NilPointer"
proof (cases "empty_change (plan (en_installed e) (wanted e))")
  case True
  then show ?thesis using run inv by (simp add: apply_routes_def)
next
  case False
  let ?t = "en_installed e" and ?w = "wanted e"
  have L: "Lobby ?t = []" and tun: "en_tun e = map_option Tunnel (en_applier e)" using inv by (simp_all add: engine_inv_def)
  have wd: "en_tun e = None \<Longrightarrow> ?w = disconnected \<and> ?t = disconnected" using inv by (simp add: engine_inv_def wanted_def)
  obtain a where a: "en_applier e = Some a"
    using False wd tun by (cases "en_applier e") (auto simp: plan_def empty_change_def route_diff_def disconnected_def)
  have lu: "Tunnel a \<noteq> Physical a" and sub: "tunnelled a (routes k) \<subseteq> nets (set (Game ?t))"
    using inv a by (simp_all add: engine_inv_def)
  obtain k1 f where p: "apply_plan (mc_os m) a (plan ?t ?w) k = (k1, f)" by fastforce
  note T = apply_plan_tunnelled [OF machine_os [OF doc] lu p]
  note C = change_lines [OF L wanted_lines(1), of e]
  have can: "\<forall>c \<in> set (Game ?t) \<union> set (Game ?w). canonical c" "RelayPin ?t = [] \<or> canonical (RelayPin ?t)"
    "RelayPin ?w = [] \<or> canonical (RelayPin ?w)"
    using inv wanted_lines(2) [of e] wanted_pin [of e] by (auto simp: engine_inv_def)
  show ?thesis
  proof (cases f)
    case None
    then have r: "e' = e\<lparr>en_installed := ?w\<rparr>" "k' = k1" "r = None"
      using run False a p by (auto simp: apply_routes_def Let_def)
    have "nets (set (Game ?w) - set (Game ?t)) \<subseteq> nets (set (Game ?w))" by (rule nets_mono) blast
    then have "tunnelled a (routes k1) \<subseteq> nets (set (Game ?w))"
      using T(2) [OF None] sub nets_Diff_subset [of "set (Game ?t)" "set (Game ?w)"] unfolding C by blast
    then show ?thesis using inv a r can wanted_lines(1) [of e] wd by (auto simp: engine_inv_def)
  next
    case (Some err)
    then have r: "e' = e\<lparr>en_installed := union_table ?t ?w\<rparr>" "k' = k1" "r = Some (RoutesFailed err)"
      using run False a p by (auto simp: apply_routes_def Let_def)
    have g: "set (Game (union_table ?t ?w)) = set (Game ?t) \<union> set (Game ?w)" "Lobby (union_table ?t ?w) = []"
      "RelayPin (union_table ?t ?w) \<in> {RelayPin ?t, RelayPin ?w}"
      using L wanted_lines(1) [of e] by (auto simp: union_table_def merge_unique_def)
    have "nets (set (Game ?w) - set (Game ?t)) \<subseteq> nets (set (Game ?w))" by (rule nets_mono) blast
    then have "tunnelled a (routes k1) \<subseteq> nets (set (Game (union_table ?t ?w)))"
      using T(1) sub unfolding C g by (simp del: nets_simps(3)) blast
    moreover have "en_tun e \<noteq> None" using a tun by simp
    ultimately show ?thesis using inv a r can g by (auto simp: engine_inv_def)
  qed
qed

lemma activate_inv:
  assumes doc: "machine_documented m routes" and inv: "engine_inv routes (e, k)" and tun: "en_tun e \<noteq> None"
    and run: "activate m x rtt (e, k) = ((e', k'), r)"
  shows "engine_inv routes (e', k') \<and> r \<noteq> Some NilPointer \<and> en_tun e' = en_tun e"
proof (cases "relay_by_id (en_relays e) x")
  case None
  then show ?thesis using run inv by (auto simp: activate_def)
next
  case (Some rl)
  obtain l where l: "en_tun e = Some l" using tun by blast
  obtain k1 f1 where c: "configure_adapter (mc_adapter m) l (relay_InnerIP rl) (of_int (if relay_MTU rl \<le> 0 then defaultMTU else relay_MTU rl)) k = (k1, f1)"
    by fastforce
  obtain k2 f2 where s: "set_active (wg_dev (mc_wg m) l) (en_relays e) (en_allowed e) x k1 = (k2, f2)" by fastforce
  have k: "routes k1 = routes k" "routes k2 = routes k"
    using configure_keeps [OF doc] set_active_keeps [OF doc] c s by (metis fst_conv)+
  have x: "x \<in> relay_ID ` set (en_relays e)" using find_SomeD [OF Some [unfolded relay_by_id_def]] by auto
  have inv2: "engine_inv routes (e\<lparr>en_active := x, en_activeRTT := rtt\<rparr>, k2)"
    using inv k x l by (auto simp: engine_inv_def)
  have frame: "en_tun e' = en_tun e" if "apply_routes m (e\<lparr>en_active := x, en_activeRTT := rtt\<rparr>, k2) = ((e', k'), r)"
    using arg_cong [OF apply_routes_frame [OF that], of en_tun] by simp
  show ?thesis
    using run Some l c s inv_world [OF inv k(1)] inv_world [OF inv k(2)] apply_routes_inv [OF doc inv2] frame
    by (auto simp: activate_def Let_def split: option.splits)
qed

lemma stand_down_inv:
  assumes "machine_documented m routes" "engine_inv routes (e, k)"
  shows "engine_inv routes (stand_down m (e, k))"
proof -
  obtain e' k' r where a: "apply_routes m (e\<lparr>en_active := [], en_activeRTT := 0\<rparr>, k) = ((e', k'), r)" by (metis prod.exhaust)
  have "engine_inv routes (e\<lparr>en_active := [], en_activeRTT := 0\<rparr>, k)" using assms(2) by (simp add: engine_inv_def)
  from apply_routes_inv [OF assms(1) this a] show ?thesis by (simp add: stand_down_def a)
qed

lemma remeasure_inv:
  assumes doc: "machine_documented m routes" and inv: "engine_inv routes (e, k)" and tun: "en_tun e = Some l"
  shows "engine_inv routes (remeasure m l force (e, k))"
proof -
  obtain e1 k1 c where f: "measure_fleet m l (e, k) = ((e1, k1), c)" by (metis prod.exhaust)
  obtain t where e1: "e1 = e\<lparr>en_lastMeasure := t\<rparr>" using fleet_cases(2) [OF doc f] by blast
  have inv1: "engine_inv routes (e1, k1)"
    unfolding e1 by (rule inv_irrelevant(2)) (rule inv_world [OF inv fleet_cases(1) [OF doc f]])
  show ?thesis
  proof (cases c)
    case None
    then show ?thesis using inv1 stand_down_inv [OF doc inv_irrelevant(1) [OF inv1, of "Some NoneAnswered"]]
      by (simp add: remeasure_def f)
  next
    case (Some ch)
    obtain e2 k2 r where act: "activate m (Primary ch) (rtt_of ch (Primary ch)) (e1, k1) = ((e2, k2), r)" by (metis prod.exhaust)
    have inv2: "engine_inv routes (e2, k2)" "r \<noteq> Some NilPointer" using activate_inv [OF doc inv1 _ act] tun by (simp_all add: e1)
    show ?thesis
      using Some inv1 inv_irrelevant(1) [OF inv2(1), of None] stand_down_inv [OF doc inv_irrelevant(1) [OF inv2(1), of r]] inv2(2)
        inv_irrelevant(1) [OF inv_irrelevant(3) [OF inv1], of None]
      by (cases r) (simp_all add: remeasure_def f act Let_def)
  qed
qed

lemma offers_shape:
  assumes "offers lookup xs = Inr (rs, pins, mtu)"
  shows "dom pins = relay_ID ` set rs" "\<forall>x pin. pins x = Some pin \<longrightarrow> canonical pin"
proof -
  have step: "dom (snd (snd (foldl (offer_step lookup) st xs))) = relay_ID ` set (fst (snd (foldl (offer_step lookup) st xs))) \<and>
      (\<forall>x pin. snd (snd (foldl (offer_step lookup) st xs)) x = Some pin \<longrightarrow> canonical pin)"
    if "dom (snd (snd st)) = relay_ID ` set (fst (snd st))" "\<forall>x pin. snd (snd st) x = Some pin \<longrightarrow> canonical pin" for st
    using that
  proof (induction xs arbitrary: st)
    case Nil
    then show ?case by simp
  next
    case (Cons x xs)
    obtain mtu rs pins where st: "st = (mtu, rs, pins)" by (metis prod.exhaust)
    have "canonical pin" if ep: "resolve_endpoint lookup ep = Inr (ap, pin)" for ep ap pin
    proof -
      obtain w where "pin = v4_string w @ ''/32''"
        using ep by (auto simp: resolve_endpoint_def split: option.splits prod.splits)
      moreover have "dec 32 = ''32''" by code_simp
      ultimately have "pin = pfx_string (Prefix (V4 w) 32)" by simp
      then show ?thesis unfolding canonical_def by blast
    qed
    then have "dom (snd (snd (offer_step lookup st x))) = relay_ID ` set (fst (snd (offer_step lookup st x)))"
      "\<forall>y pin. snd (snd (offer_step lookup st x)) y = Some pin \<longrightarrow> canonical pin"
      using Cons.prems by (auto simp: st offer_step_def Let_def split: sum.split option.split)
    then show ?case using Cons.IH by simp
  qed
  moreover have f: "foldl (offer_step lookup) (0, [], Map.empty) xs = (mtu, rs, pins)"
    using assms unfolding offers_def by (cases "foldl (offer_step lookup) (0, [], Map.empty) xs") (simp split: if_splits)
  ultimately show "dom pins = relay_ID ` set rs" "\<forall>x pin. pins x = Some pin \<longrightarrow> canonical pin"
    using f step [of "(0, [], Map.empty)"] by simp_all
qed

lemma inv_down: "engine_inv routes (e, k) \<Longrightarrow> en_tun e = None \<Longrightarrow> engine_inv routes (e, k')"
  by (auto simp: engine_inv_def)

lemma teardown_tun: "en_tun (fst (teardown m st)) = None"
  by (cases st) (simp add: teardown_def Let_def)

lemma teardown_inv:
  "engine_inv routes (e, k) \<Longrightarrow> engine_inv routes (teardown m (e, k))"
  by (simp add: teardown_def engine_inv_def disconnected_def Let_def)

text \<open>A connect is refused because a tunnel is up, fails before it has an adapter, or gets one and comes
  to activating a relay or fails before.\<close>

lemma bring_upE:
  assumes doc: "machine_documented m routes" and run: "bring_up m l phys gw rs pins e k = ((e', k'), r)"
  obtains e1 k1 where "routes k1 = routes k"
    "\<exists>t. e1 = e\<lparr>en_tun := Some l, en_applier := Some \<lparr>Tunnel = l, Physical = phys, PhysicalGateway = gw\<rparr>, en_relays := rs, en_pins := pins, en_lastMeasure := t\<rparr>"
    "(e', k') = (e1, k1) \<and> r \<noteq> None \<and> r \<noteq> Some NilPointer \<or> (\<exists>c :: measure_error choice. activate m (Primary c) (rtt_of c (Primary c)) (e1, k1) = ((e', k'), r))"
proof -
  define e1 where "e1 = e\<lparr>en_tun := Some l, en_applier := Some \<lparr>Tunnel = l, Physical = phys, PhysicalGateway = gw\<rparr>, en_relays := rs, en_pins := pins\<rparr>"
  obtain k1 r1 where sp: "set_peers (wg_dev (mc_wg m) l) rs k = (k1, r1)" by fastforce
  have k1: "routes k1 = routes k" using set_peers_keeps [OF doc, of l rs k] sp by simp
  obtain e2 k2 c where f: "measure_fleet m l (e1, k1) = ((e2, k2), c)" by (metis prod.exhaust)
  note F = fleet_cases [OF doc f]
  have B: "bring_up m l phys gw rs pins e k = (case r1 of Some err \<Rightarrow> ((e1, k1), Some (TunnelFailed err)) | None \<Rightarrow>
      (case c of None \<Rightarrow> ((e2, k2), Some NoneAnswered) | Some ch \<Rightarrow> activate m (Primary ch) (rtt_of ch (Primary ch)) (e2, k2)))"
    by (simp add: bring_up_def e1_def [symmetric] sp f split: option.split)
  show ?thesis
  proof (cases r1)
    case (Some err)
    have "\<exists>t. e1 = e\<lparr>en_tun := Some l, en_applier := Some \<lparr>Tunnel = l, Physical = phys, PhysicalGateway = gw\<rparr>, en_relays := rs, en_pins := pins, en_lastMeasure := t\<rparr>"
      by (rule exI [of _ "en_lastMeasure e"]) (simp add: e1_def)
    moreover have "(e', k') = (e1, k1) \<and> r \<noteq> None \<and> r \<noteq> Some NilPointer" using run Some B by auto
    ultimately show ?thesis by (intro that [OF k1] disjI1)
  next
    case None
    have "\<exists>t. e2 = e\<lparr>en_tun := Some l, en_applier := Some \<lparr>Tunnel = l, Physical = phys, PhysicalGateway = gw\<rparr>, en_relays := rs, en_pins := pins, en_lastMeasure := t\<rparr>"
      using F(2) by (simp add: e1_def)
    moreover have "(e', k') = (e2, k2) \<and> r \<noteq> None \<and> r \<noteq> Some NilPointer \<or>
        (\<exists>ch :: measure_error choice. activate m (Primary ch) (rtt_of ch (Primary ch)) (e2, k2) = ((e', k'), r))"
      using run None B by (cases c) auto
    moreover have "routes k2 = routes k" using k1 F(1) by simp
    ultimately show ?thesis by (intro that [of k2 e2])
  qed
qed

lemma default_route_rows:
  "default_route (rows :: 'l forward_row list) = Some (p, g) \<Longrightarrow> \<exists>r \<in> set rows. p = fr_luid r \<and> g = fr_next_hop r"
proof -
  define f where "f = (\<lambda>best r. if fr_prefix_length (r :: 'l forward_row) \<noteq> 0 then best
          else case best of None \<Rightarrow> Some r | Some b \<Rightarrow> if fr_metric r < fr_metric b then Some r else best)"
  have "foldl f b rows = Some r \<Longrightarrow> r \<in> set rows \<or> b = Some r" for b r and rows :: "'l forward_row list"
  proof (induction rows arbitrary: b)
    case (Cons x rows)
    have "f b x = b \<or> f b x = Some x" by (simp add: f_def split: option.split)
    then show ?case using Cons.IH [of b] Cons.IH [of "Some x"] Cons.prems by auto
  qed simp
  from this [of None] show "default_route rows = Some (p, g) \<Longrightarrow> \<exists>r \<in> set rows. p = fr_luid r \<and> g = fr_next_hop r"
    unfolding default_route_def f_def [symmetric] by auto
qed

lemma default_route_row: "default_route rows = Some (p, g) \<Longrightarrow> p \<in> fr_luid ` set rows"
  by (auto dest!: default_route_rows)

lemma offers_error: "offers lookup xs \<noteq> Inl NilPointer"
  by (simp add: offers_def split: prod.split)

lemma connectE:
  assumes doc: "machine_documented m routes" and inv: "engine_inv routes (e, k)"
    and run: "connect m (e, k) = ((e', k'), r)"
  obtains (connected) "en_tun e \<noteq> None" "(e', k') = (e, k)" "r = None"
    | (early) "engine_inv routes (e', k')" "r \<noteq> None" "en_tun e' = None" "r \<noteq> Some NilPointer" "en_watch e' = en_watch e" "routes k' \<subseteq> routes k" "en_tun e = None"
    | (opened) e1 k1 l phys gw where "engine_inv routes (e1, k1)" "en_tun e1 = Some l" "en_active e1 = []"
        "en_applier e1 = Some \<lparr>Tunnel = l, Physical = phys, PhysicalGateway = gw\<rparr>" "en_installed e1 = disconnected"
        "l \<notin> fst ` routes k1" "(e', k') = (e1, k1) \<and> r \<noteq> None \<and> r \<noteq> Some NilPointer \<or> (\<exists>c :: measure_error choice. activate m (Primary c) (rtt_of c (Primary c)) (e1, k1) = ((e', k'), r))"
        "en_watch e1 = en_watch e" "routes k1 \<subseteq> routes k" "en_tun e = None" "\<exists>k rows. mc_forward m k = Some rows \<and> default_route rows = Some (phys, gw)"
proof (cases "en_tun e")
  case (Some l)
  then show ?thesis using run connected by (simp add: connect_def)
next
  case down: None
  obtain e0 k1 r1 where fp: "fetch_profile m (e, k) = ((e0, k1), r1)" by (metis prod.exhaust)
  obtain k2 r2 where se: "engine_session m (en_client e0) k1 = (k2, r2)" by fastforce
  note F = fetch_profile_cases [OF doc fp]
  have rk: "routes k1 = routes k" "routes k2 = routes k"
    using F(1) session_keeps [OF doc, of "en_client e0" k1] se by simp_all
  have r1: "r1 \<noteq> Some NilPointer" and r2: "r2 \<noteq> Inl NilPointer"
    using fp se by (auto simp: fetch_profile_def engine_session_def Let_def split: prod.splits sum.splits if_splits)
  have i: "engine_inv routes (e, k')" for k' by (rule inv_down [OF inv down])
  have d: "en_installed e = disconnected" "en_active e = []" using inv down by (simp_all add: engine_inv_def)
  have e0i: "engine_inv routes (e0, k')" for k'
    using F(2) i [of k'] inv_ranges [OF i [of k']] by (elim disjE exE) simp_all
  have "en_tun e0 = None \<and> en_installed e0 = disconnected \<and> en_active e0 = [] \<and> en_watch e0 = en_watch e"
    using F(2) down d by (elim disjE exE) simp_all
  then have e0: "en_tun e0 = None" "en_installed e0 = disconnected" "en_active e0 = []" "en_watch e0 = en_watch e" by blast+
  have C: "connect m (e, k) = (case r1 of Some err \<Rightarrow> ((e0, k1), Some err) | None \<Rightarrow>
        (case r2 of Inl err \<Rightarrow> ((e0, k2), Some err) | Inr sess \<Rightarrow>
          (case mc_forward m k2 of None \<Rightarrow> ((e0, k2), Some RouteTableUnreadable) | Some rows \<Rightarrow>
            (case default_route rows of None \<Rightarrow> ((e0, k2), Some NoDefaultRoute) | Some (phys, gateway) \<Rightarrow>
              (case offers (mc_resolve m k2) (Relays sess) of Inl err \<Rightarrow> ((e0, k2), Some err) | Inr (rs, pins, mtu) \<Rightarrow>
                (case open_tunnel (mc_wg m) (en_private e0) mtu k2 of (k3, Inl err) \<Rightarrow> ((e0, k3), Some (OpenFailed err)) | (k3, Inr l) \<Rightarrow>
                  bring_up m l phys gateway rs pins e0 k3))))))"
    unfolding connect_def using down by (cases r1) (simp_all add: fp se)
  show ?thesis
  proof (cases "\<exists>sess rows phys gw rs pins mtu k3 l. r1 = None \<and> r2 = Inr sess \<and> mc_forward m k2 = Some rows \<and>
      default_route rows = Some (phys, gw) \<and> offers (mc_resolve m k2) (Relays sess) = Inr (rs, pins, mtu) \<and>
      open_tunnel (mc_wg m) (en_private e0) mtu k2 = (k3, Inr l)")
    case False
    have "r \<noteq> None \<and> r \<noteq> Some NilPointer \<and> e' = e0 \<and> routes k' \<subseteq> routes k"
    proof (cases r1)
      case (Some err)
      then show ?thesis using run r1 rk unfolding C by auto
    next
      case n1: None
      show ?thesis
      proof (cases r2)
        case (Inl err)
        then show ?thesis using run n1 r2 rk unfolding C by auto
      next
        case s: (Inr sess)
        obtain k3 r3 where op: "open_tunnel (mc_wg m) (en_private e0) (snd (snd (projr (offers (mc_resolve m k2) (Relays sess))))) k2 = (k3, r3)"
          by fastforce
        have rk3: "routes k3 \<subseteq> routes k" using open_tunnel_rows [OF doc op] rk by simp
        show ?thesis
        proof (cases "mc_forward m k2 = None \<or> default_route (the (mc_forward m k2)) = None \<or> isl (offers (mc_resolve m k2) (Relays sess))")
          case True
          then show ?thesis using run n1 s rk offers_error [of "mc_resolve m k2" "Relays sess"] unfolding C
            by (cases "mc_forward m k2"; cases "default_route (the (mc_forward m k2))"; cases "offers (mc_resolve m k2) (Relays sess)") auto
        next
          case F': False
          then obtain rows p o' where "mc_forward m k2 = Some rows" "default_route rows = Some p" "offers (mc_resolve m k2) (Relays sess) = Inr o'"
            by (cases "offers (mc_resolve m k2) (Relays sess)") auto
          then show ?thesis using run False n1 s op rk3 unfolding C
            by (cases p; cases o'; cases r3) auto
        qed
      qed
    qed
    then show ?thesis using early e0i e0(1,4) down by blast
  next
    case True
    then obtain sess rows phys gw rs pins mtu k3 l where T: "r1 = None" "r2 = Inr sess" "mc_forward m k2 = Some rows"
      "default_route rows = Some (phys, gw)" "offers (mc_resolve m k2) (Relays sess) = Inr (rs, pins, mtu)"
      and op: "open_tunnel (mc_wg m) (en_private e0) mtu k2 = (k3, Inr l)" by blast
    have bu: "bring_up m l phys gw rs pins e0 k3 = ((e', k'), r)" using run T op unfolding C by simp
    note O = open_tunnel_cases [OF doc op, of l]
    have "phys \<in> fr_luid ` set rows" by (rule default_route_row [OF T(4)])
    then have lu: "l \<noteq> phys" using O(3) [OF _ T(3)] by blast
    obtain e1 k4 t where B: "routes k4 = routes k3"
      "e1 = e0\<lparr>en_tun := Some l, en_applier := Some \<lparr>Tunnel = l, Physical = phys, PhysicalGateway = gw\<rparr>, en_relays := rs, en_pins := pins, en_lastMeasure := t\<rparr>"
      "(e', k') = (e1, k4) \<and> r \<noteq> None \<and> r \<noteq> Some NilPointer \<or> (\<exists>c :: measure_error choice. activate m (Primary c) (rtt_of c (Primary c)) (e1, k4) = ((e', k'), r))"
      by (rule bring_upE [OF doc bu]) blast
    have fresh: "l \<notin> fst ` routes k4" using O(1,2) B(1) by simp
    then have "tunnelled \<lparr>Tunnel = l, Physical = phys, PhysicalGateway = gw\<rparr> (routes k4) = {}"
      by (force simp: tunnelled_def)
    then have "engine_inv routes (e1, k4)"
      using e0i [of k4] e0(1,2,3) offers_shape [OF T(5)] lu by (simp add: B(2) engine_inv_def disconnected_def)
    moreover have "\<exists>k rows. mc_forward m k = Some rows \<and> default_route rows = Some (phys, gw)" using T(3,4) by blast
    ultimately show ?thesis using opened [of e1 k4 l phys gw] B e0 fresh O(1) rk down by simp
  qed
qed

lemma connect_inv:
  assumes doc: "machine_documented m routes" and inv: "engine_inv routes (e, k)" and run: "connect m (e, k) = ((e', k'), r)"
  shows "engine_inv routes (e', k') \<and> r \<noteq> Some NilPointer"
proof (rule connectE [OF doc inv run])
  assume "(e', k') = (e, k)" "r = None"
  then show ?thesis using inv by simp
next
  assume "engine_inv routes (e', k')" "r \<noteq> Some NilPointer"
  then show ?thesis by simp
next
  fix e3 k3 l
  assume i: "engine_inv routes (e3, k3)" and t: "en_tun e3 = Some l" and r: "(e', k') = (e3, k3) \<and> r \<noteq> None \<and> r \<noteq> Some NilPointer \<or>
    (\<exists>c :: measure_error choice. activate m (Primary c) (rtt_of c (Primary c)) (e3, k3) = ((e', k'), r))"
  have "engine_inv routes (e', k') \<and> r \<noteq> Some NilPointer" if "activate m x rtt (e3, k3) = ((e', k'), r)" for x rtt
    using activate_inv [OF doc i _ that] t by simp
  then show ?thesis using r i by blast
qed

lemma reload_inv:
  assumes doc: "machine_documented m routes" and inv: "engine_inv routes (e, k)" and run: "reload_profile m (e, k) = ((e', k'), r)"
  shows "engine_inv routes (e', k') \<and> r \<noteq> Some NilPointer"
proof -
  obtain e1 k1 r1 where f: "fetch_profile m (e, k) = ((e1, k1), r1)" by (metis prod.exhaust)
  note F = fetch_profile_cases [OF doc f]
  have inv0: "engine_inv routes (e, k1)" by (rule inv_world [OF inv F(1)])
  have inv1: "engine_inv routes (e1, k1)" using F(2) inv0 inv_ranges [OF inv0] by (elim disjE exE) simp_all
  have r1: "r1 \<noteq> Some NilPointer" using f by (auto simp: fetch_profile_def Let_def split: prod.splits sum.splits if_splits)
  show ?thesis
  proof (cases "r1 \<noteq> None \<or> en_tun e1 = None \<or> en_active e1 = []")
    case True
    then have "(e', k') = (e1, k1)" "r = r1" using run f by (auto simp: reload_profile_def split: option.splits)
    then show ?thesis using inv1 r1 by simp
  next
    case False
    then obtain l where l: "r1 = None" "en_tun e1 = Some l" "en_active e1 \<noteq> []" by (cases "en_tun e1") auto
    obtain k2 r2 where s: "set_active (wg_dev (mc_wg m) l) (en_relays e1) (en_allowed e1) (en_active e1) k1 = (k2, r2)" by fastforce
    have inv2: "engine_inv routes (e1, k2)"
      using inv_world [OF inv1, of k2] set_active_keeps [OF doc, of l "en_relays e1" "en_allowed e1" "en_active e1" k1] s by simp
    show ?thesis
    proof (cases r2)
      case None
      then have "apply_routes m (e1, k2) = ((e', k'), r)" using run f l s by (simp add: reload_profile_def)
      then show ?thesis by (rule apply_routes_inv [OF doc inv2])
    next
      case (Some err)
      then have "(e', k') = (e1, k2)" "r = Some (TunnelFailed err)" using run f l s by (simp_all add: reload_profile_def)
      then show ?thesis using inv2 by simp
    qed
  qed
qed

lemma handle_inv:
  assumes doc: "machine_documented m routes" and inv: "engine_inv routes (e, k)"
  shows "engine_inv routes (fst (handle_verb m v (e, k))) \<and> rs_Error (snd (handle_verb m v (e, k))) \<noteq> Some NilPointer"
proof -
  obtain e1 k1 r1 where c: "connect m (e, k) = ((e1, k1), r1)" by (metis prod.exhaust)
  obtain e2 k2 r2 where l: "reload_profile m (e, k) = ((e2, k2), r2)" by (metis prod.exhaust)
  note C = connect_inv [OF doc inv c] and L = reload_inv [OF doc inv l]
  have td: "engine_inv routes (teardown m (e, k))" "\<And>x. x \<noteq> Some NilPointer \<Longrightarrow> engine_inv routes (teardown m (e1\<lparr>en_lastErr := x\<rparr>, k1))"
    by (rule teardown_inv [OF inv], rule teardown_inv [OF inv_irrelevant(1) [OF conjunct1 [OF C]]])
  have ok: "engine_inv routes (e1\<lparr>en_lastErr := None\<rparr>, k1)" by (rule inv_irrelevant(1) [OF conjunct1 [OF C]]) simp
  have err: "en_lastErr e \<noteq> Some NilPointer" "en_lastErr e2 \<noteq> Some NilPointer"
    using inv L by (simp_all add: engine_inv_def)
  show ?thesis
    using c l C L td ok err inv unfolding handle_verb_def
    by (cases r1; cases r2) (auto simp: status_def no_status_def refuse_def)
qed

lemma poll_inv:
  assumes doc: "machine_documented m routes" and inv: "engine_inv routes (e, k)"
  shows "engine_inv routes (poll_engine m (e, k))"
proof (cases "mc_processes m k")
  case None
  then show ?thesis using inv by (simp add: poll_engine_def)
next
  case (Some names)
  obtain w s changed where w: "poll_watch (mc_lower m) names (en_watch e) = (w, s, changed)" by (metis prod.exhaust)
  define e1 where "e1 = e\<lparr>en_watch := w\<rparr>"
  have inv1: "engine_inv routes (e1, k)" unfolding e1_def by (rule inv_irrelevant(4) [OF inv])
  obtain e2 k2 r where a: "apply_routes m (e1, k) = ((e2, k2), r)" by (metis prod.exhaust)
  note A = apply_routes_inv [OF doc inv1 a]
  have chk: "engine_inv routes (check_relay m l (e1, k))" if "en_tun e1 = Some l" for l
    using remeasure_inv [OF doc inv1 that] inv1 by (simp add: check_relay_def Let_def split: option.split)
  show ?thesis
    using Some w inv1 a A chk inv_irrelevant(1) [of routes e2 k2 r] e1_def
    by (cases "en_tun e1"; cases r) (simp_all add: poll_engine_def Let_def)
qed

section \<open>Reachable states\<close>

text \<open>The service starts on the table \<open>R\<close> with nothing installed; events and changes of the world around it that leave
  its routes alone follow in any order.\<close>

inductive engine_reach :: "(string \<Rightarrow> verb option) \<Rightarrow> ('l, 's, 'b) machine \<Rightarrow> ('s \<Rightarrow> ('l \<times> prefix \<times> addr) set) \<Rightarrow>
    device_config \<Rightarrow> key \<Rightarrow> ('l \<times> prefix \<times> addr) set \<Rightarrow> 'l engine \<times> 's \<Rightarrow> bool"
  for decode m routes cfg key R where
  started: "routes k = R \<Longrightarrow> engine_reach decode m routes cfg key R (new_engine cfg key, k)"
| event: "engine_reach decode m routes cfg key R st \<Longrightarrow> engine_reach decode m routes cfg key R (on_event decode m ev st)"
| world: "engine_reach decode m routes cfg key R (e, k) \<Longrightarrow> routes k' = routes k \<Longrightarrow> engine_reach decode m routes cfg key R (e, k')"

lemma event_inv:
  assumes "machine_documented m routes" "engine_inv routes st"
  shows "engine_inv routes (on_event decode m ev st)"
proof (cases ev)
  case Tick
  then show ?thesis using poll_inv [OF assms(1)] assms(2) by (cases st) simp
next
  case (Pipe sent)
  obtain e k where st: "st = (e, k)" by fastforce
  have "engine_inv routes (fst (handle_verb m v st))" for v using handle_inv [OF assms(1)] assms(2) by (simp add: st)
  then show ?thesis using Pipe assms(2)
    by (cases "scan_first sent"; cases "parse_request decode (the (scan_first sent))") (simp_all add: pipe_handle_def split_def Let_def)
qed

lemma reach_inv:
  assumes "machine_documented m routes" "engine_reach decode m routes cfg key R st"
  shows "engine_inv routes st"
  using assms(2)
proof induction
  case (started k)
  show ?case by (rule inv_init)
next
  case (event st ev)
  then show ?case by (intro event_inv [OF assms(1)])
next
  case (world e k k')
  then show ?case by (intro inv_world [of routes e k k'])
qed

end
