(* ===== verification/Wintun_Props.thy ===== *)
theory Wintun_Props
  imports Wintun
begin

text \<open>
  Properties of the tunnel: a handshake is read off the right peer of wireguard-go's dump, only the
  chosen relay may carry traffic, and a measurement accounts for every relay and ends in time.
\<close>

section \<open>Reading a dump\<close>

text \<open>What wireguard-go prints: lines about the device, then a block for every peer.\<close>

record dumped_peer =
  dp_key :: "nat list"
  dp_before :: "string list"
  dp_sec :: nat
  dp_nsec :: nat
  dp_after :: "string list"

definition dump_block :: "dumped_peer \<Rightarrow> string list" where
  "dump_block p = (''public_key='' @ hex_string (dp_key p)) # dp_before p @
     [''last_handshake_time_sec='' @ dec (dp_sec p), ''last_handshake_time_nsec='' @ dec (dp_nsec p)] @ dp_after p"

definition dump_text :: "string list \<Rightarrow> dumped_peer list \<Rightarrow> string" where
  "dump_text header ps = join [CHR 0x0A] (header @ concat (map dump_block ps))"

text \<open>A line about anything else.\<close>

definition other_line :: "string \<Rightarrow> bool" where
  "other_line l \<longleftrightarrow> CHR 0x0A \<notin> set l \<and>
     (case cut (CHR ''='') (trim_space l) of None \<Rightarrow> True
      | Some (k, v) \<Rightarrow> k \<notin> {''public_key'', ''last_handshake_time_sec'', ''last_handshake_time_nsec''})"

definition dumped_ok :: "dumped_peer \<Rightarrow> bool" where
  "dumped_ok p \<longleftrightarrow> length (dp_key p) = 32 \<and> (\<forall>b \<in> set (dp_key p). b < 256) \<and>
     list_all other_line (dp_before p) \<and> list_all other_line (dp_after p) \<and> dp_sec p < 2 ^ 63 \<and> dp_nsec p < 2 ^ 63"

lemma stamp_other [simp]: "other_line l \<Longrightarrow> stamp_line want st l = st"
  by (cases st; cases "cut (CHR ''='') (trim_space l)") (simp_all add: other_line_def stamp_line_def del: cut_None_iff split: prod.splits)

lemma stamp_others: "list_all other_line ls \<Longrightarrow> foldl (stamp_line want) st ls = st"
  by (induction ls arbitrary: st) auto

lemma dec_printable: "c \<in> set (dec n) \<Longrightarrow> printable c"
  using set_dec_digit printable_digit by blast

lemma field_line:
  assumes "v \<noteq> []" "\<forall>c \<in> set v. printable c" "k \<noteq> []" "printable (hd k)" "CHR ''='' \<notin> set k"
  shows "cut (CHR ''='') (trim_space (k @ CHR ''='' # v)) = Some (k, v)"
proof -
  have "printable (last v)" using assms(1,2) by simp
  then have "trim_space (k @ CHR ''='' # v) = k @ CHR ''='' # v" using assms(1,3,4)
    by (intro trim_space_printable) simp
  then show ?thesis using assms(5) by simp
qed

lemma hex_string_props: "\<forall>b \<in> set bs. b < 256 \<Longrightarrow> length bs = 32 \<Longrightarrow>
    hex_string bs \<noteq> [] \<and> (\<forall>c \<in> set (hex_string bs). printable c)"
  using hex_string_printable [of bs] length_hex_string [of bs] by fastforce

lemma lower_hex: "\<forall>b \<in> set bs. b < 256 \<Longrightarrow> map ascii_lower (hex_string bs) = hex_string bs"
proof -
  have d: "ascii_lower (hex_digit d) = hex_digit d" if "d < 16" for d
    using that by (simp add: ascii_lower_def byte_of_hex_digit)
  show "\<forall>b \<in> set bs. b < 256 \<Longrightarrow> map ascii_lower (hex_string bs) = hex_string bs"
    by (induction bs) (simp_all add: hex_string_def d less_mult_imp_div_less)
qed

lemma equal_fold_keys:
  "\<forall>b \<in> set bs. b < 256 \<Longrightarrow> \<forall>b \<in> set cs. b < 256 \<Longrightarrow> equal_fold_hex (hex_string bs) (hex_string cs) \<longleftrightarrow> bs = cs"
  by (simp add: equal_fold_hex_def lower_hex hex_string_inj)

lemma foldl_block: "foldl f st (x # xs @ [y, z] @ ws) = foldl f (f (f (foldl f (f st x) xs) y) z) ws"
  by simp

lemma stamp_block:
  assumes p: "dumped_ok p" and want: "\<forall>b \<in> set want. b < 256"
  shows "foldl (stamp_line (hex_string want)) (i, sec, nsec) (dump_block p) =
    (if dp_key p = want then (True, dec (dp_sec p), dec (dp_nsec p)) else (False, sec, nsec))"
proof -
  have k: "cut (CHR ''='') (trim_space (''public_key'' @ CHR ''='' # hex_string (dp_key p))) = Some (''public_key'', hex_string (dp_key p))"
    using p hex_string_props [of "dp_key p"] by (intro field_line) (auto simp: dumped_ok_def printable_def byte_of_def)
  have s: "cut (CHR ''='') (trim_space (''last_handshake_time_sec'' @ CHR ''='' # dec (dp_sec p))) = Some (''last_handshake_time_sec'', dec (dp_sec p))"
    and n: "cut (CHR ''='') (trim_space (''last_handshake_time_nsec'' @ CHR ''='' # dec (dp_nsec p))) = Some (''last_handshake_time_nsec'', dec (dp_nsec p))"
    using dec_printable by (intro field_line; (simp add: printable_def byte_of_def)?; blast)+
  have e: "equal_fold_hex (hex_string (dp_key p)) (hex_string want) \<longleftrightarrow> dp_key p = want"
    using p want by (intro equal_fold_keys) (auto simp: dumped_ok_def)
  have others: "foldl (stamp_line w) st (dp_before p) = st" "foldl (stamp_line w) st (dp_after p) = st" for w st
    using p by (auto simp: dumped_ok_def stamp_others)
  have 1: "stamp_line (hex_string want) (i, sec, nsec) (''public_key='' @ hex_string (dp_key p)) = (dp_key p = want, sec, nsec)"
    using k e by (simp add: stamp_line_def)
  have 2: "stamp_line (hex_string want) (j, sec, nsec) (''last_handshake_time_sec='' @ dec (dp_sec p)) =
      (j, if j then dec (dp_sec p) else sec, nsec)" for j sec nsec
    using s by (simp add: stamp_line_def)
  have 3: "stamp_line (hex_string want) (j, sec, nsec) (''last_handshake_time_nsec='' @ dec (dp_nsec p)) =
      (j, sec, if j then dec (dp_nsec p) else nsec)" for j sec nsec
    using n by (simp add: stamp_line_def)
  show ?thesis unfolding dump_block_def by (simp only: foldl_block 1 2 3 others) simp
qed

lemma stamp_blocks:
  assumes "\<forall>p \<in> set ps. dumped_ok p" "distinct (map dp_key ps)" and want: "\<forall>b \<in> set want. b < 256"
  shows "\<exists>i. foldl (stamp_line (hex_string want)) (i0, sec, nsec) (concat (map dump_block ps)) =
    (case find (\<lambda>p. dp_key p = want) ps of None \<Rightarrow> (i, sec, nsec) | Some p \<Rightarrow> (i, dec (dp_sec p), dec (dp_nsec p)))"
  using assms(1,2)
proof (induction ps arbitrary: i0 sec nsec)
  case Nil
  then show ?case by simp
next
  case (Cons p ps)
  show ?case
  proof (cases "dp_key p = want")
    case True
    then have none: "find (\<lambda>p. dp_key p = want) ps = None" using Cons.prems(2) by (auto simp: find_None_iff image_iff)
    show ?thesis using Cons.IH [of True "dec (dp_sec p)" "dec (dp_nsec p)"] Cons.prems True
      by (simp add: stamp_block [OF _ want] none)
  next
    case False
    then show ?thesis using Cons.IH [of False sec nsec] Cons.prems by (simp add: stamp_block [OF _ want])
  qed
qed

lemma dump_lines_split:
  assumes "list_all other_line header" "\<forall>p \<in> set ps. dumped_ok p" "header @ concat (map dump_block ps) \<noteq> []"
  shows "split_on (CHR 0x0A) (dump_text header ps) = header @ concat (map dump_block ps)"
proof -
  have "CHR 0x0A \<notin> set l" if "l \<in> set (dump_block p)" "p \<in> set ps" for l p
  proof -
    have "dumped_ok p" using assms(2) that(2) by blast
    then have "\<forall>c \<in> set (hex_string (dp_key p)). printable c" "\<forall>l \<in> set (dp_before p) \<union> set (dp_after p). other_line l"
      using hex_string_props [of "dp_key p"] by (auto simp: dumped_ok_def list_all_iff)
    moreover have "\<not> printable (CHR 0x0A)" by (simp add: printable_def byte_of_def)
    ultimately show ?thesis using that(1) dec_printable
      by (auto simp: dump_block_def other_line_def)
  qed
  then show ?thesis using assms unfolding dump_text_def
    by (intro split_on_join) (auto simp: list_all_iff other_line_def)
qed

lemma parse_int64_dec [simp]: "n < 2 ^ 63 \<Longrightarrow> parse_int64 (dec n) = Some (int n)"
proof -
  assume n: "n < 2 ^ 63"
  obtain c t where ct: "dec n = c # t" by (cases "dec n") auto
  then have "is_digit c" using set_dec_digit [of c n] by simp
  then have "c \<noteq> CHR ''-''" "c \<noteq> CHR ''+''" by (auto simp: is_digit_def byte_of_def)
  moreover have "int n < 2 ^ 63" using n by (metis of_nat_less_iff of_nat_numeral of_nat_power)
  ultimately show ?thesis using ct parse_digits_dec [of n] by (simp add: parse_int64_def)
qed

lemma dump_stamp:
  assumes "list_all other_line header" "\<forall>p \<in> set ps. dumped_ok p" "distinct (map dp_key ps)"
    and "base64_to_hex pk = Inr (hex_string want)" and want: "\<forall>b \<in> set want. b < 256"
  shows "handshake_stamp (dump_text header ps) pk =
    (case find (\<lambda>p. dp_key p = want) ps of None \<Rightarrow> []
     | Some p \<Rightarrow> if dp_sec p = 0 \<and> dp_nsec p = 0 then [] else dec (dp_sec p) @ ''.'' @ dec (dp_nsec p))"
proof -
  have zero: "dec n = ''0'' \<longleftrightarrow> n = 0" for n
  proof -
    have "dec 0 = ''0''" by code_simp
    then show ?thesis by (metis dec_inj)
  qed
  have "\<exists>i. foldl (stamp_line (hex_string want)) (False, [], []) (split_on (CHR 0x0A) (dump_text header ps)) =
    (case find (\<lambda>p. dp_key p = want) ps of None \<Rightarrow> (i, [], []) | Some p \<Rightarrow> (i, dec (dp_sec p), dec (dp_nsec p)))"
  proof (cases "header @ concat (map dump_block ps) = []")
    case True
    then have "ps = []" by (cases ps) (simp_all add: dump_block_def)
    moreover have "other_line []" by code_simp
    ultimately show ?thesis using True by (intro exI [of _ False]) (simp add: dump_text_def)
  next
    case False
    show ?thesis
      using stamp_blocks [OF assms(2,3) want, of False "[]" "[]"]
      by (simp add: dump_lines_split [OF assms(1,2) False] stamp_others [OF assms(1)])
  qed
  then show ?thesis unfolding handshake_stamp_def assms(4)
    by (auto simp: zero split: option.splits)
qed

text \<open>The time of a relay's last handshake is read off that relay's own peer, whatever other peers
  and fields wireguard-go prints: it is the time printed for the peer with the relay's key, and
  there is none for a peer that never completed a handshake or is not configured.\<close>

theorem last_handshake_of_right_peer:
  assumes "ipc_get dev k = Some (dump_text header ps)" "list_all other_line header"
    and "\<forall>p \<in> set ps. dumped_ok p" "distinct (map dp_key ps)"
    and "b64_decode (trim_space pk) = Some want" "length want = 32"
  shows "last_handshake dev pk k =
    (case find (\<lambda>p. dp_key p = want) ps of None \<Rightarrow> None
     | Some p \<Rightarrow> if dp_sec p = 0 then None else Some (int (dp_sec p) * second + int (dp_nsec p)))"
proof -
  have "base64_to_hex pk = Inr (hex_string want)" by (simp add: base64_to_hex_def assms(5,6))
  note S = dump_stamp [OF assms(2-4) this b64_decode_bytes [OF assms(5)]]
  show ?thesis
  proof (cases "find (\<lambda>p. dp_key p = want) ps")
    case None
    then show ?thesis by (simp add: last_handshake_def assms(1) S parse_stamp_def)
  next
    case (Some p)
    then have "dumped_ok p" using find_SomeD [OF Some] assms(3) by blast
    then have "dp_sec p < 2 ^ 63" "dp_nsec p < 2 ^ 63" by (simp_all add: dumped_ok_def)
    then show ?thesis using Some by (simp add: last_handshake_def assms(1) S parse_stamp_def)
  qed
qed

text \<open>A device with two peers that answers only with its dump.\<close>

definition sample_dump :: "dumped_peer list" where
  "sample_dump =
     [\<lparr>dp_key = replicate 32 171, dp_before = [''protocol_version=1''], dp_sec = 0, dp_nsec = 0, dp_after = [''tx_bytes=0'']\<rparr>,
      \<lparr>dp_key = replicate 32 7, dp_before = [''endpoint=203.0.113.5:51820''], dp_sec = 1700000000, dp_nsec = 25, dp_after = []\<rparr>]"

definition sample_wgdev :: "string wgdev" where
  "sample_wgdev = \<lparr>ipc_set = (\<lambda>cfg k. (k, True)), ipc_get = Some, has_peer = (\<lambda>key k. True),
     initiate = (\<lambda>key k. k), now = (\<lambda>k. 0), sleep = (\<lambda>d k. k)\<rparr>"

lemma last_handshake_of_right_peer_witness:
  "last_handshake sample_wgdev (b64_encode (replicate 32 7)) (dump_text [''listen_port=0''] sample_dump) = Some 1700000000000000025 \<and>
   last_handshake sample_wgdev (b64_encode (replicate 32 171)) (dump_text [''listen_port=0''] sample_dump) = None"
proof -
  have get: "ipc_get sample_wgdev (dump_text [''listen_port=0''] sample_dump) = Some (dump_text [''listen_port=0''] sample_dump)"
    by (simp add: sample_wgdev_def)
  have ol: "list_all other_line [''listen_port=0'']" "other_line ''protocol_version=1''" "other_line ''tx_bytes=0''"
    "other_line ''endpoint=203.0.113.5:51820''" by code_simp+
  have ok: "\<forall>p \<in> set sample_dump. dumped_ok p" "distinct (map dp_key sample_dump)"
    using ol by (simp_all add: sample_dump_def dumped_ok_def)
  have key: "b64_decode (trim_space (b64_encode (replicate 32 n))) = Some (replicate 32 n)" if "n < 256" for n
  proof -
    have b: "\<forall>b \<in> set (replicate 32 n). b < 256" using that by simp
    have "b64_encode bs \<noteq> []" if "bs \<noteq> []" for bs using that by (cases bs rule: b64_encode.cases) simp_all
    then have "b64_encode (replicate 32 n) \<noteq> []" by simp
    then have "trim_space (b64_encode (replicate 32 n)) = b64_encode (replicate 32 n)"
      using b64_encode_chars [OF b] by (intro trim_space_printable) (metis hd_in_set last_in_set)
    then show ?thesis using b64_decode_encode [OF b] by simp
  qed
  show ?thesis
    using last_handshake_of_right_peer [OF get ol(1) ok key [of 7]] last_handshake_of_right_peer [OF get ol(1) ok key [of 171]]
    by (simp add: sample_dump_def)
qed

end
