(* ===== verification/Engine_Sample.thy ===== *)
theory Engine_Sample
  imports Engine_Inv Wintun_Props
begin

text \<open>
  A small machine to run the service on: one adapter with a gateway, a control plane that offers one
  relay, a relay that answers or does not. When it does not, a sleep takes longer than was asked for.
\<close>

record sim =
  sim_routes :: "(nat \<times> prefix \<times> addr) list"
  sim_clock :: nanos
  sim_stamp :: nat
  sim_live :: bool
  sim_processes :: "string list"

definition sim_os :: "(nat, sim) winipcfg" where
  "sim_os =
     \<lparr>delete_route = (\<lambda>l p h k. if (l, p, h) \<in> set (sim_routes k) then (k\<lparr>sim_routes := removeAll (l, p, h) (sim_routes k)\<rparr>, None)
        else (k, Some ERROR_NOT_FOUND)),
      add_route = (\<lambda>l p h k. (k\<lparr>sim_routes := (l, p, h) # sim_routes k\<rparr>, None))\<rparr>"

definition sim_adapter :: "(nat, sim) adapter_calls" where
  "sim_adapter = \<lparr>set_addresses = (\<lambda>l ps k. (k, True)),
     read_interface = (\<lambda>l k. Some \<lparr>NLMTU = 1500, UseAutomaticMetric = True, Metric = 0\<rparr>),
     set_interface = (\<lambda>l i k. (k, True))\<rparr>"

definition sim_peer :: "sim \<Rightarrow> dumped_peer" where
  "sim_peer k = \<lparr>dp_key = replicate 32 7, dp_before = [], dp_sec = sim_stamp k, dp_nsec = 0, dp_after = []\<rparr>"

definition sim_dev :: "sim wgdev" where
  "sim_dev = \<lparr>ipc_set = (\<lambda>cfg k. (k, True)), ipc_get = (\<lambda>k. Some (dump_text [] [sim_peer k])), has_peer = (\<lambda>key k. True),
     initiate = (\<lambda>key k. if sim_live k then k\<lparr>sim_stamp := nat (sim_clock k div second)\<rparr> else k),
     now = sim_clock, sleep = (\<lambda>d k. k\<lparr>sim_clock := sim_clock k + (if sim_live k then d else 10 * second)\<rparr>)\<rparr>"

definition sim_wg :: "(nat, sim) wireguard" where
  "sim_wg = \<lparr>wg_create = (\<lambda>n mtu k. (k, if 7 \<in> fst ` set (sim_routes k) then CreateFailed else Created 7)),
     wg_discard = (\<lambda>k. k), wg_dev = (\<lambda>l. sim_dev), wg_up = (\<lambda>l k. (k, True)),
     wg_close = (\<lambda>l k. k\<lparr>sim_routes := filter (\<lambda>r. fst r \<noteq> l) (sim_routes k)\<rparr>)\<rparr>"

definition sim_offer :: relay_offer where
  "sim_offer = \<lparr>ro_relay_id = ''hcm-1'', ro_endpoint = ''203.0.113.5:51820'', ro_public_key = b64_encode (replicate 32 7),
     ro_inner_ip = ''10.77.0.2/32'', ro_region = ''hcm'', ro_mtu = 1420\<rparr>"

definition sim_decoders :: "string decoders" where
  "sim_decoders = \<lparr>dec_activate = Some, dec_session = (\<lambda>b. Some \<lparr>Relays = [sim_offer], ProfileVersion = 1\<rparr>),
     dec_profile = (\<lambda>b. Some \<lparr>pr_version = 1, pr_cidrs = [''104.160.0.0/16'']\<rparr>), dec_slots = (\<lambda>b. None), dec_error = (\<lambda>b. None)\<rparr>"

definition sim_machine :: "(nat, sim, string) machine" where
  "sim_machine = \<lparr>mc_os = sim_os, mc_adapter = sim_adapter,
     mc_forward = (\<lambda>k. Some [\<lparr>fr_prefix_length = 0, fr_metric = 25, fr_luid = 3, fr_next_hop = V4 0xC0A80101\<rparr>]),
     mc_wg = sim_wg, mc_processes = (\<lambda>k. Some (sim_processes k)), mc_lower = id, mc_resolve = (\<lambda>k h. None),
     mc_http = (\<lambda>q k. (k, Answer 200 (cr_URL q))), mc_dec = sim_decoders, mc_url = (\<lambda>u. Some (''https'', ''api.nolag.example'')),
     mc_hostname = (\<lambda>k. ''pc'')\<rparr>"

definition sim_table :: "sim \<Rightarrow> (nat \<times> prefix \<times> addr) set" where
  "sim_table k = set (sim_routes k)"

lemma sim_documented: "machine_documented sim_machine sim_table"
  by (auto simp: machine_documented_def winipcfg_documented_def sim_machine_def sim_os_def sim_adapter_def sim_wg_def sim_dev_def sim_table_def)

definition sim_config :: device_config where
  "sim_config = \<lparr>dc_ControlURL = ''https://api.nolag.example'', dc_ContributorKey = ''gnl-key'', dc_Games = []\<rparr>"

definition sim_key :: key where
  "sim_key = \<lparr>PrivateHex = ''77'', PublicBase64 = ''device''\<rparr>"

definition sim_start :: sim where
  "sim_start = \<lparr>sim_routes = [], sim_clock = 1000 * second, sim_stamp = 0, sim_live = True, sim_processes = [''explorer.exe'']\<rparr>"

section \<open>What it answers\<close>

definition sim_relay :: relay where
  "sim_relay = \<lparr>relay_ID = ''hcm-1'', relay_Endpoint = ''203.0.113.5:51820'', relay_PublicKey = b64_encode (replicate 32 7),
     relay_InnerIP = Prefix (V4 0x0A4D0002) 32, relay_MTU = 1420\<rparr>"

lemma sim_cloud_profile: "cloud_profile (mc_url sim_machine) sim_decoders (mc_http sim_machine) c k = (k, Inr \<lparr>pr_version = 1, pr_cidrs = [''104.160.0.0/16'']\<rparr>)"
  by (simp add: cloud_profile_def cloud_do_def check_url_def read_reply_def sim_machine_def sim_decoders_def Let_def)

lemma sim_cloud_session: "cloud_session (mc_url sim_machine) sim_decoders (mc_http sim_machine) c k = (k, Inr \<lparr>Relays = [sim_offer], ProfileVersion = 1\<rparr>)"
  by (simp add: cloud_session_def cloud_do_def check_url_def read_reply_def sim_machine_def sim_decoders_def Let_def)

lemma sim_ranges: "usable_ranges [''104.160.0.0/16''] = [Prefix (V4 0x68A00000) 16]" "pfx_string (Prefix (V4 0x68A00000) 16) = ''104.160.0.0/16''"
  by code_simp+

lemma sim_endpoint: "resolve_endpoint f (ro_endpoint sim_offer) = Inr ((0xCB007105, 51820), ''203.0.113.5/32'')"
proof -
  have "split_host_port ''203.0.113.5:51820'' = Some (''203.0.113.5'', ''51820'')" "parse_addr ''203.0.113.5'' = Some (V4 0xCB007105)"
    "parse_port ''51820'' = Some 51820" "v4_string 0xCB007105 = ''203.0.113.5''" by code_simp+
  then show ?thesis by (simp add: resolve_endpoint_def sim_offer_def)
qed

lemma sim_offers: "offers f [sim_offer] = Inr ([sim_relay], [''hcm-1'' \<mapsto> ''203.0.113.5/32''], 1420)"
proof -
  have "parse_prefix ''10.77.0.2/32'' = Some (Prefix (V4 0x0A4D0002) 32)" "addr_port_string (0xCB007105, 51820) = ''203.0.113.5:51820''" by code_simp+
  with sim_endpoint show ?thesis by (simp add: offers_def offer_step_def sim_relay_def) (simp add: sim_offer_def)
qed

lemma sim_measured: "measure_relays sim_dev [sim_relay] measureWindow sim_start =
   (sim_start\<lparr>sim_clock := 1000 * second + 50 * millisecond, sim_stamp := 1000\<rparr>, [\<lparr>ms_RelayID = ''hcm-1'', ms_RTT = 50 * millisecond, ms_Err = None\<rparr>])"
  by code_simp

section \<open>A run\<close>

definition sim_applier :: "nat applier" where
  "sim_applier = \<lparr>Tunnel = 7, Physical = 3, PhysicalGateway = V4 0xC0A80101\<rparr>"

definition sim_engine :: "nat engine" where
  "sim_engine = (new_engine sim_config sim_key)\<lparr>en_tun := Some 7, en_applier := Some sim_applier,
     en_installed := \<lparr>RelayPin = ''203.0.113.5/32'', Lobby = [], Game = []\<rparr>, en_relays := [sim_relay],
     en_pins := [''hcm-1'' \<mapsto> ''203.0.113.5/32''], en_active := ''hcm-1'', en_activeRTT := 50 * millisecond,
     en_cidrs := [''104.160.0.0/16''], en_allowed := [Prefix (V4 0x68A00000) 16], en_lastMeasure := 1000 * second\<rparr>"

definition sim_pin_row :: "nat \<times> prefix \<times> addr" where
  "sim_pin_row = (3, Prefix (V4 0xCB007105) 32, V4 0xC0A80101)"

lemma sim_pin_added: "apply_plan sim_os sim_applier (plan disconnected \<lparr>RelayPin = ''203.0.113.5/32'', Lobby = [], Game = []\<rparr>)
    (sim_start\<lparr>sim_clock := c, sim_stamp := n\<rparr>) = (sim_start\<lparr>sim_clock := c, sim_stamp := n, sim_routes := [sim_pin_row]\<rparr>, None)"
proof -
  have "parse_prefix ''203.0.113.5/32'' = Some (Prefix (V4 0xCB007105) 32)" by code_simp
  then show ?thesis
    by (simp add: apply_plan_def change_steps_def plan_def route_diff_def disconnected_def added_def deleted_def add_pin_def sim_os_def
      sim_applier_def sim_start_def sim_pin_row_def)
qed

lemma sim_dev_accepts: "set_peers sim_dev [sim_relay] k = (k, None)" "set_active sim_dev [sim_relay] al act k = (k, None)"
proof -
  have "base64_to_hex (relay_PublicKey sim_relay) = Inr (hex_string (replicate 32 7))" by code_simp
  then show "set_peers sim_dev [sim_relay] k = (k, None)" "set_active sim_dev [sim_relay] al act k = (k, None)"
    by (simp_all add: set_peers_def set_active_def sim_dev_def)
qed

lemma sim_opened: "sim_routes k = [] \<Longrightarrow> open_tunnel sim_wg private mtu k = (k, Inr 7)"
  by (simp add: open_tunnel_def sim_wg_def sim_dev_def)

lemma sim_configured: "configure_adapter sim_adapter l p mtu k = (k, None)"
  by (simp add: configure_adapter_def sim_adapter_def)

lemma sim_machine_simps [simp]:
  "mc_os sim_machine = sim_os" "mc_adapter sim_machine = sim_adapter" "mc_wg sim_machine = sim_wg" "wg_dev sim_wg l = sim_dev"
  "mc_dec sim_machine = sim_decoders" "mc_processes sim_machine k = Some (sim_processes k)" "now sim_dev k = sim_clock k"
  "mc_forward sim_machine k = Some [\<lparr>fr_prefix_length = 0, fr_metric = 25, fr_luid = 3, fr_next_hop = V4 0xC0A80101\<rparr>]"
  by (simp_all add: sim_machine_def sim_wg_def sim_dev_def)

lemma sim_best: "0 < t \<Longrightarrow> best [\<lparr>ms_RelayID = r, ms_RTT = t, ms_Err = None\<rparr>] = Some \<lparr>Primary = r, Fallback = [], Ranked = [\<lparr>ms_RelayID = r, ms_RTT = t, ms_Err = None\<rparr>]\<rparr>"
  by (simp add: best_def measured_ok_def)

lemma sim_connect: "connect sim_machine (new_engine sim_config sim_key, sim_start) =
   ((sim_engine, sim_start\<lparr>sim_clock := 1000 * second + 50 * millisecond, sim_stamp := 1000, sim_routes := [sim_pin_row]\<rparr>), None)"
proof -
  let ?e = "(new_engine sim_config sim_key :: nat engine)\<lparr>en_cidrs := [''104.160.0.0/16''], en_allowed := [Prefix (V4 0x68A00000) 16]\<rparr>"
  have f: "fetch_profile sim_machine (new_engine sim_config sim_key, sim_start) = ((?e, sim_start), None)"
    using sim_ranges(2) by (simp add: fetch_profile_def sim_cloud_profile sim_ranges(1) del: pfx_string.simps)
  have s: "engine_session sim_machine c k = (k, Inr \<lparr>Relays = [sim_offer], ProfileVersion = 1\<rparr>)" for c k
    by (simp add: engine_session_def sim_cloud_session)
  have d: "default_route [\<lparr>fr_prefix_length = 0, fr_metric = 25, fr_luid = 3, fr_next_hop = V4 0xC0A80101\<rparr>] = Some (3, V4 0xC0A80101)"
    by (simp add: default_route_def)
  have m: "measure_fleet sim_machine 7 (e, sim_start) =
     ((e\<lparr>en_lastMeasure := 1000 * second\<rparr>, sim_start\<lparr>sim_clock := 1000 * second + 50 * millisecond, sim_stamp := 1000\<rparr>),
      Some \<lparr>Primary = ''hcm-1'', Fallback = [], Ranked = [\<lparr>ms_RelayID = ''hcm-1'', ms_RTT = 50 * millisecond, ms_Err = None\<rparr>]\<rparr>)"
    if "en_relays e = [sim_relay]" for e
    using that sim_measured sim_best [of "50 * millisecond" "''hcm-1''"] by (simp add: measure_fleet_def clock_def) (simp add: sim_start_def)
  have r: "relay_by_id [sim_relay] ''hcm-1'' = Some sim_relay" by (simp add: relay_by_id_def sim_relay_def)
  have w: "wanted (sim_engine\<lparr>en_installed := disconnected\<rparr>) = \<lparr>RelayPin = ''203.0.113.5/32'', Lobby = [], Game = []\<rparr>"
    by (simp add: wanted_def sim_engine_def new_engine_def sim_config_def new_watcher_def no_game_def running_def want_table_def)
  have e: "\<not> empty_change (plan disconnected \<lparr>RelayPin = ''203.0.113.5/32'', Lobby = [], Game = []\<rparr>)"
    by (simp add: empty_change_def plan_def disconnected_def split_def Let_def)
  have act: "activate sim_machine ''hcm-1'' (50 * millisecond)
      (sim_engine\<lparr>en_installed := disconnected, en_active := [], en_activeRTT := 0\<rparr>, sim_start\<lparr>sim_clock := c, sim_stamp := n\<rparr>) =
      ((sim_engine, sim_start\<lparr>sim_clock := c, sim_stamp := n, sim_routes := [sim_pin_row]\<rparr>), None)" for c n
  proof -
    have ap: "apply_routes sim_machine (sim_engine\<lparr>en_installed := disconnected\<rparr>, sim_start\<lparr>sim_clock := c, sim_stamp := n\<rparr>) =
        ((sim_engine, sim_start\<lparr>sim_clock := c, sim_stamp := n, sim_routes := [sim_pin_row]\<rparr>), None)"
      using sim_pin_added [where c = c and n = n] w e by (simp add: apply_routes_def Let_def) (simp add: sim_engine_def)
    have "sim_engine\<lparr>en_installed := disconnected, en_active := ''hcm-1'', en_activeRTT := 50 * millisecond\<rparr> = sim_engine\<lparr>en_installed := disconnected\<rparr>"
      by (simp add: sim_engine_def)
    moreover have "en_relays sim_engine = [sim_relay]" "en_tun sim_engine = Some 7" by (simp_all add: sim_engine_def)
    ultimately show ?thesis using ap r by (simp add: activate_def Let_def sim_configured sim_dev_accepts)
  qed
  have b: "bring_up sim_machine 7 3 (V4 0xC0A80101) [sim_relay] [''hcm-1'' \<mapsto> ''203.0.113.5/32''] ?e sim_start =
     ((sim_engine, sim_start\<lparr>sim_clock := 1000 * second + 50 * millisecond, sim_stamp := 1000, sim_routes := [sim_pin_row]\<rparr>), None)"
  proof -
    have "?e\<lparr>en_tun := Some 7, en_applier := Some sim_applier, en_relays := [sim_relay], en_pins := [''hcm-1'' \<mapsto> ''203.0.113.5/32''], en_lastMeasure := 1000 * second\<rparr> =
      sim_engine\<lparr>en_installed := disconnected, en_active := [], en_activeRTT := 0\<rparr>"
      by (simp add: sim_engine_def new_engine_def)
    then show ?thesis
      using m [of "?e\<lparr>en_tun := Some 7, en_applier := Some sim_applier, en_relays := [sim_relay], en_pins := [''hcm-1'' \<mapsto> ''203.0.113.5/32'']\<rparr>"] act
      by (simp add: bring_up_def sim_dev_accepts sim_applier_def [symmetric] rtt_of_def)
  qed
  have "sim_routes sim_start = []" by (simp add: sim_start_def)
  from b sim_opened [OF this] show ?thesis
    by (simp add: connect_def f s d sim_offers) (simp add: new_engine_def)
qed

definition sim_idle :: sim where
  "sim_idle = sim_start\<lparr>sim_clock := 1000 * second + 50 * millisecond, sim_stamp := 1000, sim_routes := [sim_pin_row]\<rparr>"

lemma sim_pipe: "on_event sample_decode m (Pipe (sample_line ''connect'')) st = fst (handle_verb m ''connect'' st)"
proof -
  have "scan_first (sample_line ''connect'') = Some (butlast (sample_line ''connect''))"
    "parse_request sample_decode (butlast (sample_line ''connect'')) = Inr ''connect''" by code_simp+
  then show ?thesis by (simp add: pipe_handle_def split_def Let_def)
qed

lemma sim_connected: "on_event sample_decode sim_machine (Pipe (sample_line ''connect'')) (new_engine sim_config sim_key, sim_start) = (sim_engine, sim_idle)"
proof -
  have "sim_engine\<lparr>en_lastErr := None\<rparr> = sim_engine" by (simp add: sim_engine_def new_engine_def)
  then show ?thesis unfolding sim_pipe by (simp add: handle_verb_def VerbConnect_def sim_connect sim_idle_def)
qed

definition sim_state :: game_state where "sim_state = \<lparr>GameID = ''csgo'', Process = ''cs2.exe''\<rparr>"

definition sim_game_row :: "nat \<times> prefix \<times> addr" where
  "sim_game_row = (7, Prefix (V4 0x68A00000) 16, NoAddr)"

definition sim_playing :: "nat engine \<times> sim" where
  "sim_playing = (sim_engine\<lparr>en_watch := (en_watch sim_engine)\<lparr>cur := sim_state\<rparr>,
      en_installed := \<lparr>RelayPin = ''203.0.113.5/32'', Lobby = [], Game = [''104.160.0.0/16'']\<rparr>\<rparr>,
    sim_idle\<lparr>sim_processes := [''cs2.exe''], sim_routes := [sim_game_row, sim_pin_row]\<rparr>)"

lemma sim_noticed: "poll_watch id [''cs2.exe''] (en_watch sim_engine) = ((en_watch sim_engine)\<lparr>cur := sim_state\<rparr>, sim_state, True)"
proof -
  have n: "map (normalise_name id) [''cs2.exe''] = [''cs2'']" by code_simp
  show ?thesis
    using builtin_names unfolding poll_watch_def sim_engine_def new_engine_def sim_config_def new_watcher_def match_game_def n sim_state_def
    by (simp add: builtinGames_def no_game_def Let_def)
qed

lemma sim_game_added: "apply_plan sim_os sim_applier (plan \<lparr>RelayPin = pin, Lobby = [], Game = []\<rparr> \<lparr>RelayPin = pin, Lobby = [], Game = [''104.160.0.0/16'']\<rparr>) k =
    (k\<lparr>sim_routes := sim_game_row # removeAll sim_game_row (sim_routes k)\<rparr>, None)"
proof -
  have "parse_prefix ''104.160.0.0/16'' = Some (Prefix (V4 0x68A00000) 16)" by code_simp
  then show ?thesis
    by (auto simp: apply_plan_def change_steps_def plan_def route_diff_def added_def deleted_def add_tunnel_def sim_os_def
      sim_applier_def sim_game_row_def)
qed

lemma sim_tick: "on_event sample_decode sim_machine Tick (sim_engine, sim_idle\<lparr>sim_processes := [''cs2.exe'']\<rparr>) = sim_playing"
proof -
  let ?e = "sim_engine\<lparr>en_watch := (en_watch sim_engine)\<lparr>cur := sim_state\<rparr>\<rparr>"
  have w: "wanted ?e = \<lparr>RelayPin = ''203.0.113.5/32'', Lobby = [], Game = [''104.160.0.0/16'']\<rparr>"
    by (simp add: wanted_def sim_engine_def running_def want_table_def sim_state_def)
  have p: "\<not> empty_change (plan \<lparr>RelayPin = pin, Lobby = [], Game = []\<rparr> \<lparr>RelayPin = pin, Lobby = [], Game = [''104.160.0.0/16'']\<rparr>)" for pin
    by (simp add: empty_change_def plan_def split_def Let_def route_diff_def)
  have i: "en_installed ?e = \<lparr>RelayPin = ''203.0.113.5/32'', Lobby = [], Game = []\<rparr>" "en_applier ?e = Some sim_applier" "en_tun ?e = Some 7"
    by (simp_all add: sim_engine_def)
  have "sim_pin_row \<noteq> sim_game_row" by (simp add: sim_pin_row_def sim_game_row_def)
  then have a: "apply_routes sim_machine (?e, sim_idle\<lparr>sim_processes := [''cs2.exe'']\<rparr>) = (sim_playing, None)"
    using w p i sim_game_added [of "''203.0.113.5/32''"]
    by (simp add: apply_routes_def Let_def sim_playing_def) (simp add: sim_idle_def)
  have "mc_lower sim_machine = id" by (simp add: sim_machine_def)
  moreover have "(fst sim_playing)\<lparr>en_lastErr := None\<rparr> = fst sim_playing" by (simp add: sim_playing_def sim_engine_def new_engine_def)
  moreover obtain e' k' where s: "sim_playing = (e', k')" by fastforce
  ultimately have e: "e'\<lparr>en_lastErr := None\<rparr> = e'" by (metis fst_conv)
  have "poll_watch (mc_lower sim_machine) [''cs2.exe''] (en_watch sim_engine) = ((en_watch sim_engine)\<lparr>cur := sim_state\<rparr>, sim_state, True)"
    and "apply_routes sim_machine (?e, sim_idle\<lparr>sim_processes := [''cs2.exe'']\<rparr>) = ((e', k'), None)"
    using a [unfolded s] sim_noticed by (simp_all add: sim_machine_def)
  moreover have "sim_processes (sim_idle\<lparr>sim_processes := [''cs2.exe'']\<rparr>) = [''cs2.exe'']" by simp
  ultimately show ?thesis unfolding s on_event.simps poll_engine_def prod.case sim_machine_simps option.case using i(3) e
    by (simp del: sim.simps)
qed

lemma sim_reached:
  "engine_reach sample_decode sim_machine sim_table sim_config sim_key {} (sim_engine, sim_idle)"
  "engine_reach sample_decode sim_machine sim_table sim_config sim_key {} sim_playing"
proof -
  show c: "engine_reach sample_decode sim_machine sim_table sim_config sim_key {} (sim_engine, sim_idle)"
    unfolding sim_connected [symmetric] by (rule event [OF started]) (simp add: sim_table_def sim_start_def)
  have "engine_reach sample_decode sim_machine sim_table sim_config sim_key {} (sim_engine, sim_idle\<lparr>sim_processes := [''cs2.exe'']\<rparr>)"
    by (rule world [OF c]) (simp add: sim_table_def)
  from event [OF this, where ev = Tick] show "engine_reach sample_decode sim_machine sim_table sim_config sim_key {} sim_playing"
    by (simp only: sim_tick)
qed

lemma sim_playing_reached: "engine_reach sample_decode sim_machine sim_table sim_config sim_key {} (fst sim_playing, snd sim_playing)"
  using sim_reached(2) by simp

text \<open>The relay stops answering during the game.\<close>

definition sim_silent :: "nat engine \<times> sim" where
  "sim_silent = (fst sim_playing, (snd sim_playing)\<lparr>sim_clock := 1200 * second, sim_live := False\<rparr>)"

lemma sim_silent_reached: "engine_reach sample_decode sim_machine sim_table sim_config sim_key {} sim_silent"
  unfolding sim_silent_def by (rule world [of _ _ _ _ _ _ "fst sim_playing" "snd sim_playing"]) (simp_all add: sim_reached(2) sim_table_def)

lemma sim_unanswered:
  "snd (measure_relays sim_dev [sim_relay] measureWindow (snd sim_silent)) = [\<lparr>ms_RelayID = ''hcm-1'', ms_RTT = 0, ms_Err = Some NoHandshake\<rparr>]"
  "last_handshake sim_dev (relay_PublicKey sim_relay) (snd sim_silent) = Some (1000 * second)"
proof -
  have k: "snd sim_silent = sim_start\<lparr>sim_clock := 1200 * second, sim_stamp := 1000, sim_live := False, sim_processes := [''cs2.exe''], sim_routes := [sim_game_row, sim_pin_row]\<rparr>"
    by (simp add: sim_silent_def sim_playing_def sim_idle_def)
  show "snd (measure_relays sim_dev [sim_relay] measureWindow (snd sim_silent)) = [\<lparr>ms_RelayID = ''hcm-1'', ms_RTT = 0, ms_Err = Some NoHandshake\<rparr>]"
    "last_handshake sim_dev (relay_PublicKey sim_relay) (snd sim_silent) = Some (1000 * second)"
    unfolding k by code_simp+
qed

lemma sim_still_playing: "poll_watch id [''cs2.exe''] (en_watch (fst sim_silent)) = (en_watch (fst sim_silent), sim_state, False)"
  using sim_noticed by (simp add: poll_watch_def Let_def sim_silent_def sim_playing_def sim_engine_def)

end
