(* ===== verification/Engine_Props.thy ===== *)
theory Engine_Props
  imports Engine_Sample
begin

text \<open>
  What the service guarantees: nothing is captured that is not on record, and as long as Windows
  carries out the route calls, traffic is captured only while a game runs with a relay in use whose
  own route is in place.
\<close>

section \<open>When the route calls succeed\<close>

definition os_reliable :: "('l, 's) winipcfg \<Rightarrow> bool" where
  "os_reliable os \<longleftrightarrow> (\<forall>l p h k. snd (delete_route os l p h k) \<in> {None, Some ERROR_NOT_FOUND} \<and> snd (add_route os l p h k) = None)"

text \<open>Besides, a row of the IPv4 forwarding table names a next hop (0.0.0.0 on a link without one).\<close>

definition machine_reliable :: "('l, 's, 'b) machine \<Rightarrow> bool" where
  "machine_reliable m \<longleftrightarrow> os_reliable (mc_os m) \<and>
     (\<forall>k rows r. mc_forward m k = Some rows \<longrightarrow> r \<in> set rows \<longrightarrow> fr_next_hop r \<noteq> NoAddr)"

lemma reliable_step:
  assumes "os_reliable os"
  shows "parse_prefix c \<noteq> None \<Longrightarrow> snd (run_step os a (StepAdd c) k) = None"
    and "parse_prefix c \<noteq> None \<Longrightarrow> snd (run_step os a (StepDel c) k) = None"
    and "parse_prefix c \<noteq> None \<Longrightarrow> PhysicalGateway a \<noteq> NoAddr \<Longrightarrow> snd (run_step os a (StepAddPin c) k) = None"
    and "parse_prefix c \<noteq> None \<Longrightarrow> snd (run_step os a (StepDelPin c) k) = None"
proof -
  have add: "\<exists>k'. add_route os l p h k = (k', None)" for l p h k
    using assms by (metis os_reliable_def prod.collapse)
  have del: "\<exists>k' e. delete_route os l p h k = (k', e) \<and> e \<in> {None, Some ERROR_NOT_FOUND}" for l p h k
    using assms by (metis os_reliable_def prod.collapse)
  show "parse_prefix c \<noteq> None \<Longrightarrow> snd (run_step os a (StepAdd c) k) = None"
    using add by (auto simp: add_tunnel_def Let_def split: option.splits prod.splits) (metis option.distinct(1) prod.inject)
  show "parse_prefix c \<noteq> None \<Longrightarrow> snd (run_step os a (StepDel c) k) = None"
    using del by (auto simp: del_tunnel_def split: option.splits prod.splits) (metis insertE option.inject prod.inject singletonD option.distinct(1))
  show "parse_prefix c \<noteq> None \<Longrightarrow> PhysicalGateway a \<noteq> NoAddr \<Longrightarrow> snd (run_step os a (StepAddPin c) k) = None"
    using add by (auto simp: add_pin_def Let_def split: option.splits prod.splits) (metis option.distinct(1) prod.inject)
  show "parse_prefix c \<noteq> None \<Longrightarrow> snd (run_step os a (StepDelPin c) k) = None"
    using del by (auto simp: del_pin_def split: option.splits prod.splits) (metis insertE option.inject prod.inject singletonD option.distinct(1))
qed

lemma reliable_steps: "(\<And>x k. x \<in> set xs \<Longrightarrow> snd (f x k) = None) \<Longrightarrow> snd (steps f xs k) = None"
proof (induction xs arbitrary: k)
  case (Cons x xs)
  obtain k1 where "f x k = (k1, None)" using Cons.prems [of x k] by (metis list.set_intros(1) prod.collapse)
  then show ?case using Cons by simp
qed simp

lemma reliable_plan:
  assumes "os_reliable os" "\<forall>c \<in> set (added ch) \<union> set (deleted ch). parse_prefix c \<noteq> None"
    and "AddPin ch \<noteq> [] \<Longrightarrow> parse_prefix (AddPin ch) \<noteq> None \<and> PhysicalGateway a \<noteq> NoAddr"
    and "RemovePin ch \<noteq> [] \<Longrightarrow> parse_prefix (RemovePin ch) \<noteq> None"
  shows "snd (apply_plan os a ch k) = None"
  unfolding apply_plan_def
proof (rule reliable_steps)
  fix x k assume "x \<in> set (change_steps ch)"
  then consider "x = StepAddPin (AddPin ch)" "AddPin ch \<noteq> []" | c where "x = StepAdd c" "c \<in> set (added ch)"
    | c where "x = StepDel c" "c \<in> set (deleted ch)" | "x = StepDelPin (RemovePin ch)" "RemovePin ch \<noteq> []"
    by (auto simp: change_steps_def split: if_splits)
  then show "snd (run_step os a x k) = None" using assms reliable_step [OF assms(1)] by cases auto
qed

section \<open>The rows a plan touches\<close>

definition tunnel_rows :: "'l applier \<Rightarrow> ('l \<times> prefix \<times> addr) set" where
  "tunnel_rows a = {r. fst r = Tunnel a}"

definition pin_rows :: "'l applier \<Rightarrow> string \<Rightarrow> ('l \<times> prefix \<times> addr) set" where
  "pin_rows a c = (\<lambda>p. (Physical a, p, PhysicalGateway a)) ` nets {c}"

lemma pin_rows_Nil [simp]: "pin_rows a [] = {}"
proof -
  have "parse_prefix [] = None" by code_simp
  then show ?thesis by (simp add: pin_rows_def)
qed

lemma step_rows:
  assumes doc: "winipcfg_documented os routes"
  shows "run_step os a (StepAddPin c) k = (k', None) \<Longrightarrow> routes k' \<subseteq> routes k \<union> pin_rows a c"
    and "run_step os a (StepAdd c) k = (k', None) \<Longrightarrow> routes k' \<subseteq> routes k \<union> tunnel_rows a"
    and "run_step os a (StepDel c) k = (k', None) \<Longrightarrow> routes k' \<subseteq> routes k"
    and "run_step os a (StepDelPin c) k = (k', None) \<Longrightarrow> routes k' \<subseteq> routes k - pin_rows a c"
proof -
  have del: "routes (fst (delete_route os l p h k)) \<subseteq> routes k" for l p h k
    using delete_done [OF doc] delete_failed [OF doc] by (cases "delete_route os l p h k"; cases "snd (delete_route os l p h k)") force+
  have add: "routes (fst (add_route os l p h k)) \<subseteq> insert (l, p, h) (routes k)" for l p h k
    using add_done [OF doc] add_failed [OF doc] by (cases "add_route os l p h k"; cases "snd (add_route os l p h k)") force+
  show "run_step os a (StepAddPin c) k = (k', None) \<Longrightarrow> routes k' \<subseteq> routes k \<union> pin_rows a c"
  proof (cases "parse_prefix c")
    case (Some p)
    then show "run_step os a (StepAddPin c) k = (k', None) \<Longrightarrow> routes k' \<subseteq> routes k \<union> pin_rows a c"
      using del [of "Physical a" p "PhysicalGateway a" k] add [of "Physical a" p "PhysicalGateway a" "fst (delete_route os (Physical a) p (PhysicalGateway a) k)"]
      by (auto simp: add_pin_def Let_def pin_rows_def split: prod.splits option.splits if_splits)
  qed (simp add: add_pin_def)
  show "run_step os a (StepAdd c) k = (k', None) \<Longrightarrow> routes k' \<subseteq> routes k \<union> tunnel_rows a"
  proof (cases "parse_prefix c")
    case (Some p)
    then show "run_step os a (StepAdd c) k = (k', None) \<Longrightarrow> routes k' \<subseteq> routes k \<union> tunnel_rows a"
      using del [of "Tunnel a" p NoAddr k] add [of "Tunnel a" p NoAddr "fst (delete_route os (Tunnel a) p NoAddr k)"]
      by (auto simp: add_tunnel_def Let_def tunnel_rows_def split: prod.splits option.splits)
  qed (simp add: add_tunnel_def)
  show "run_step os a (StepDel c) k = (k', None) \<Longrightarrow> routes k' \<subseteq> routes k"
  proof (cases "parse_prefix c")
    case (Some p)
    then show "run_step os a (StepDel c) k = (k', None) \<Longrightarrow> routes k' \<subseteq> routes k"
      using del [of "Tunnel a" p NoAddr k] by (auto simp: del_tunnel_def split: prod.splits option.splits)
  qed (simp add: del_tunnel_def)
  show "run_step os a (StepDelPin c) k = (k', None) \<Longrightarrow> routes k' \<subseteq> routes k - pin_rows a c"
  proof (cases "parse_prefix c")
    case (Some p)
    then show "run_step os a (StepDelPin c) k = (k', None) \<Longrightarrow> routes k' \<subseteq> routes k - pin_rows a c"
      using delete_done [OF doc, of "Physical a" p "PhysicalGateway a" k] delete_failed [OF doc, of "Physical a" p "PhysicalGateway a" k]
      by (cases "delete_route os (Physical a) p (PhysicalGateway a) k"; cases "snd (delete_route os (Physical a) p (PhysicalGateway a) k)")
        (auto simp: del_pin_def pin_rows_def split: if_splits)
  qed (simp add: del_pin_def)
qed

lemma steps_within:
  assumes "steps f xs k = (k', None)" "routes k \<subseteq> Y"
    and "\<And>x k k'. x \<in> set xs \<Longrightarrow> f x k = (k', None) \<Longrightarrow> routes k \<subseteq> Y \<Longrightarrow> routes k' \<subseteq> Y"
  shows "routes k' \<subseteq> Y"
  using assms
proof (induction xs arbitrary: k)
  case (Cons x xs)
  obtain k1 where "f x k = (k1, None)" "steps f xs k1 = (k', None)" using Cons.prems(1) by (auto split: prod.splits option.splits)
  then show ?case using Cons.IH [of k1] Cons.prems by (meson list.set_intros)
qed simp

lemma plan_rows:
  assumes doc: "winipcfg_documented os routes" and run: "apply_plan os a (plan t w) k = (k', None)"
    and old: "routes k \<subseteq> R \<union> tunnel_rows a \<union> pin_rows a (RelayPin t)"
  shows "routes k' \<subseteq> R \<union> tunnel_rows a \<union> pin_rows a (RelayPin w)"
proof -
  let ?c = "plan t w" and ?Y = "R \<union> tunnel_rows a \<union> pin_rows a (RelayPin t) \<union> pin_rows a (RelayPin w)"
  define most where "most = (if AddPin ?c \<noteq> [] then [StepAddPin (AddPin ?c)] else []) @ map StepAdd (added ?c) @ map StepDel (deleted ?c)"
  define fin where "fin = (if RemovePin ?c \<noteq> [] then [StepDelPin (RemovePin ?c)] else [])"
  have "apply_plan os a ?c k = steps (run_step os a) (most @ fin) k" by (simp add: apply_plan_def change_steps_def most_def fin_def)
  then obtain k1 where k1: "steps (run_step os a) most k = (k1, None)" "steps (run_step os a) fin k1 = (k', None)"
    using run by (cases "steps (run_step os a) most k"; cases "snd (steps (run_step os a) most k)") (auto simp: steps_append)
  note R = step_rows [OF doc]
  have "routes k1 \<subseteq> ?Y"
  proof (rule steps_within [OF k1(1)])
    fix x h h' assume x: "x \<in> set most" and h: "run_step os a x h = (h', None)" "routes h \<subseteq> ?Y"
    then consider "x = StepAddPin (RelayPin w)" | c where "x = StepAdd c" | c where "x = StepDel c"
      by (auto simp: most_def plan_pins split: if_splits)
    then show "routes h' \<subseteq> ?Y"
    proof cases
      case 1 then show ?thesis using R(1) [of a "RelayPin w" h h'] h by auto
    next
      case (2 c) then show ?thesis using R(2) [of a c h h'] h by auto
    next
      case (3 c) then show ?thesis using R(3) [of a c h h'] h by auto
    qed
  qed (use old in blast)
  moreover have "routes k' \<subseteq> routes k1 - (if RelayPin t \<noteq> RelayPin w then pin_rows a (RelayPin t) else {})"
    using k1(2) R(4) [of a "RelayPin t" k1 k'] by (auto simp: fin_def plan_pins split: if_splits prod.splits option.splits)
  ultimately show ?thesis by (auto split: if_splits)
qed

section \<open>Settled states\<close>

definition pin_of :: "'l engine \<Rightarrow> string" where
  "pin_of e = (if en_active e = [] then [] else case en_pins e (en_active e) of None \<Rightarrow> [] | Some pin \<Rightarrow> pin)"

text \<open>The kernel's table is the recorded one, on top of rows of \<open>R\<close>, which the service did not write.\<close>

definition kernel_ok :: "('s \<Rightarrow> ('l \<times> prefix \<times> addr) set) \<Rightarrow> ('l \<times> prefix \<times> addr) set \<Rightarrow> 'l engine \<times> 's \<Rightarrow> bool" where
  "kernel_ok routes R st \<longleftrightarrow> (case st of (e, k) \<Rightarrow> engine_inv routes st \<and>
     (en_applier e = None \<longrightarrow> routes k \<subseteq> R) \<and>
     (\<forall>a. en_applier e = Some a \<longrightarrow> PhysicalGateway a \<noteq> NoAddr \<and> plan_kernel a (en_installed e) (routes k) \<and>
        tunnelled a (routes k) = nets (set (Game (en_installed e))) \<and>
        routes k \<subseteq> R \<union> tunnel_rows a \<union> pin_rows a (RelayPin (en_installed e))))"

text \<open>Moreover it is there for a game that is running, over the relay in use.\<close>

definition settled :: "('s \<Rightarrow> ('l \<times> prefix \<times> addr) set) \<Rightarrow> ('l \<times> prefix \<times> addr) set \<Rightarrow> 'l engine \<times> 's \<Rightarrow> bool" where
  "settled routes R st \<longleftrightarrow> (case st of (e, k) \<Rightarrow> kernel_ok routes R st \<and>
     RelayPin (en_installed e) = pin_of e \<and>
     (Game (en_installed e) \<noteq> [] \<longrightarrow> en_active e \<noteq> [] \<and> running (cur (en_watch e))))"

lemma canonical_nonempty: "canonical c \<Longrightarrow> c \<noteq> []"
  unfolding canonical_def by auto

lemma pin_of_canonical: "engine_inv routes (e, k) \<Longrightarrow> en_active e \<noteq> [] \<Longrightarrow> canonical (pin_of e)"
proof -
  assume inv: "engine_inv routes (e, k)" and act: "en_active e \<noteq> []"
  then have "en_active e \<in> dom (en_pins e)" by (auto simp: engine_inv_def)
  then obtain pin where "en_pins e (en_active e) = Some pin" by blast
  then show ?thesis using inv act by (simp add: engine_inv_def pin_of_def)
qed

lemma wanted_tables:
  assumes "engine_inv routes (e, k)"
  shows "plan_tables (en_installed e) (wanted e)" "en_tun e \<noteq> None \<Longrightarrow> RelayPin (wanted e) = pin_of e"
    "lines (en_installed e) = set (Game (en_installed e))" "lines (wanted e) = set (Game (wanted e))"
    "Game (wanted e) \<noteq> [] \<Longrightarrow> en_active e \<noteq> [] \<and> running (cur (en_watch e))"
proof -
  have L: "Lobby (en_installed e) = []" "Lobby (wanted e) = []" using assms wanted_lines by (simp_all add: engine_inv_def)
  show l: "lines (en_installed e) = set (Game (en_installed e))" "lines (wanted e) = set (Game (wanted e))"
    by (simp_all add: lines_def L)
  have can: "\<forall>c \<in> lines (en_installed e) \<union> lines (wanted e). canonical c"
    "RelayPin (en_installed e) = [] \<or> canonical (RelayPin (en_installed e))" "RelayPin (wanted e) = [] \<or> canonical (RelayPin (wanted e))"
    using assms wanted_lines(2) [of e] wanted_pin [of e] by (auto simp: engine_inv_def l)
  have np: "parse_prefix [] = None" by code_simp
  have "distinct_nets {RelayPin (en_installed e), RelayPin (wanted e)}"
    unfolding distinct_nets_def using can(2,3) canonical_parse np by (metis insert_iff option.inject singletonD)
  moreover have "RelayPin (wanted e) = [] \<longrightarrow> lines (wanted e) = {}"
    using pin_of_canonical [OF assms] canonical_nonempty unfolding l
    by (auto simp: wanted_def want_table_def pin_of_def disconnected_def)
  ultimately show "plan_tables (en_installed e) (wanted e)"
    using canonical_distinct [OF can(1)] by (simp add: plan_tables_def L)
  show "en_tun e \<noteq> None \<Longrightarrow> RelayPin (wanted e) = pin_of e" by (simp add: wanted_def want_table_def pin_of_def disconnected_def)
  show "Game (wanted e) \<noteq> [] \<Longrightarrow> en_active e \<noteq> [] \<and> running (cur (en_watch e))"
    by (auto simp: wanted_def want_table_def disconnected_def split: if_splits)
qed

lemma plan_kernel_run:
  assumes doc: "winipcfg_documented os routes" and tabs: "plan_tables t w" and kern: "plan_kernel a t (routes k)"
    and run: "apply_plan os a (plan t w) k = (k', None)" and eq: "tunnelled a (routes k) = nets (lines t)"
  shows "plan_kernel a w (routes k') \<and> tunnelled a (routes k') = nets (lines w)"
proof -
  obtain st' e where r: "apply_plan (recorded os) a (plan t w) (k, []) = (st', e)" by fastforce
  have p: "fst st' = k'" "e = None" using recorded_apply [OF r] run by simp_all
  have "plan_kernel a t (routes (fst (k, [] :: 'b list)))" using kern by simp
  from apply_plan_run [OF doc tabs this r] show ?thesis using p eq by simp
qed

lemma plan_succeeds:
  assumes rel: "os_reliable os" and inv: "engine_inv routes (e, k)" and gw: "PhysicalGateway a \<noteq> NoAddr"
    and w: "Lobby w = []" "\<forall>c \<in> set (Game w). canonical c" "RelayPin w = [] \<or> canonical (RelayPin w)"
  shows "snd (apply_plan os a (plan (en_installed e) w) h) = None"
proof (rule reliable_plan [OF rel])
  let ?t = "en_installed e"
  have t: "Lobby ?t = []" "\<forall>c \<in> set (Game ?t). canonical c" "RelayPin ?t = [] \<or> canonical (RelayPin ?t)"
    using inv by (simp_all add: engine_inv_def)
  have "set (added (plan ?t w)) \<union> set (deleted (plan ?t w)) \<subseteq> set (Game ?t) \<union> set (Game w)"
    by (simp add: added_def deleted_def plan_def split_def Let_def route_diff_sets t(1) w(1)) blast
  then show "\<forall>c \<in> set (added (plan ?t w)) \<union> set (deleted (plan ?t w)). parse_prefix c \<noteq> None"
    using t(2) w(2) canonical_parse by blast
  show "AddPin (plan ?t w) \<noteq> [] \<Longrightarrow> parse_prefix (AddPin (plan ?t w)) \<noteq> None \<and> PhysicalGateway a \<noteq> NoAddr"
    "RemovePin (plan ?t w) \<noteq> [] \<Longrightarrow> parse_prefix (RemovePin (plan ?t w)) \<noteq> None"
    using gw t(3) w(3) canonical_parse by (auto simp: plan_pins split: if_splits)
qed

lemma apply_routes_settles:
  assumes doc: "machine_documented m routes" and rel: "os_reliable (mc_os m)" and ok: "kernel_ok routes R (e, k)"
    and run: "apply_routes m (e, k) = ((e', k'), r)"
  shows "r = None" "settled routes R (e', k')"
proof -
  have inv: "engine_inv routes (e, k)" using ok by (simp add: kernel_ok_def)
  let ?t = "en_installed e" and ?w = "wanted e"
  note W = wanted_tables [OF inv] and I = apply_routes_inv [OF doc inv run]
  have frame: "e' = e\<lparr>en_installed := en_installed e'\<rparr>" by (rule apply_routes_frame [OF run])
  have tun: "en_tun e = map_option Tunnel (en_applier e)" "en_tun e = None \<Longrightarrow> ?t = disconnected \<and> en_active e = []"
    using inv by (simp_all add: engine_inv_def)
  have "r = None \<and> settled routes R (e', k')"
  proof (cases "en_applier e")
    case None
    then have "?t = disconnected" "?w = disconnected" "en_active e = []" using tun by (simp_all add: wanted_def)
    then have "e' = e" "k' = k" "r = None"
      using run by (simp_all add: apply_routes_def plan_def empty_change_def route_diff_def disconnected_def)
    then show ?thesis using ok \<open>?t = disconnected\<close> \<open>en_active e = []\<close> by (simp add: settled_def pin_of_def disconnected_def)
  next
    case (Some a)
    then have K: "PhysicalGateway a \<noteq> NoAddr" "plan_kernel a ?t (routes k)" "tunnelled a (routes k) = nets (set (Game ?t))"
      "routes k \<subseteq> R \<union> tunnel_rows a \<union> pin_rows a (RelayPin ?t)" and up: "en_tun e \<noteq> None" using ok tun by (simp_all add: kernel_ok_def)
    show ?thesis
    proof (cases "empty_change (plan ?t ?w)")
      case True
      then have same: "RelayPin ?t = RelayPin ?w" "set (Game ?t) = set (Game ?w)"
        using plan_reaches_wanted [of ?t ?w] by (auto simp: lines_of_def)
      have "e' = e" "k' = k" "r = None" using run True by (simp_all add: apply_routes_def)
      moreover have "Game ?t \<noteq> [] \<longleftrightarrow> Game ?w \<noteq> []" using same(2) by (metis set_empty)
      ultimately show ?thesis using ok same(1) W(2,5) up by (simp add: settled_def)
    next
      case False
      have "\<forall>c \<in> set (Game ?w). canonical c" using inv wanted_lines(2) [of e] by (auto simp: engine_inv_def)
      moreover have "RelayPin ?w = [] \<or> canonical (RelayPin ?w)" using inv wanted_pin [of e] by (auto simp: engine_inv_def)
      ultimately have "snd (apply_plan (mc_os m) a (plan ?t ?w) k) = None"
        using plan_succeeds [OF rel inv K(1)] wanted_lines(1) by blast
      then obtain k1 where p: "apply_plan (mc_os m) a (plan ?t ?w) k = (k1, None)" by (metis prod.collapse)
      have r: "e' = e\<lparr>en_installed := ?w\<rparr>" "k' = k1" "r = None" using run False Some p by (simp_all add: apply_routes_def Let_def)
      have "plan_kernel a ?w (routes k1) \<and> tunnelled a (routes k1) = nets (lines ?w)"
        by (rule plan_kernel_run [OF machine_os [OF doc] W(1) K(2) p]) (simp add: W(3) K(3))
      then have "kernel_ok routes R (e', k')"
        using I r Some K(1) W(4) plan_rows [OF machine_os [OF doc] p K(4)] by (simp add: kernel_ok_def)
      moreover have "RelayPin ?w = pin_of e'" using W(2) [OF up] by (simp add: r pin_of_def)
      ultimately show ?thesis using r W(5) by (simp add: settled_def)
    qed
  qed
  then show "r = None" "settled routes R (e', k')" by blast+
qed

lemma kernel_frame:
  assumes "kernel_ok routes R (e, k)" "engine_inv routes (e', k')" "routes k' = routes k"
    and "en_applier e' = en_applier e" "en_installed e' = en_installed e"
  shows "kernel_ok routes R (e', k')"
  using assms by (simp add: kernel_ok_def)

lemma activate_settles:
  assumes doc: "machine_documented m routes" and rel: "os_reliable (mc_os m)" and ok: "kernel_ok routes R (e, k)"
    and up: "en_tun e \<noteq> None" and run: "activate m x rtt (e, k) = ((e', k'), r)"
  shows "if r = None then settled routes R (e', k') else kernel_ok routes R (e', k') \<and> e' = e"
proof (cases "relay_by_id (en_relays e) x")
  case None
  then show ?thesis using run ok by (auto simp: activate_def)
next
  case (Some rl)
  obtain l where l: "en_tun e = Some l" using up by blast
  have inv: "engine_inv routes (e, k)" using ok by (simp add: kernel_ok_def)
  obtain k1 f1 where c: "configure_adapter (mc_adapter m) l (relay_InnerIP rl) (of_int (if relay_MTU rl \<le> 0 then defaultMTU else relay_MTU rl)) k = (k1, f1)"
    by fastforce
  obtain k2 f2 where s: "set_active (wg_dev (mc_wg m) l) (en_relays e) (en_allowed e) x k1 = (k2, f2)" by fastforce
  have k: "routes k1 = routes k" "routes k2 = routes k"
    using configure_keeps [OF doc] set_active_keeps [OF doc] c s by (metis fst_conv)+
  have x: "x \<in> relay_ID ` set (en_relays e)" using find_SomeD [OF Some [unfolded relay_by_id_def]] by auto
  have inv2: "engine_inv routes (e\<lparr>en_active := x, en_activeRTT := rtt\<rparr>, k2)" using inv k x l by (auto simp: engine_inv_def)
  have K: "kernel_ok routes R (e, k1)" "kernel_ok routes R (e, k2)"
    by (rule kernel_frame [OF ok inv_world [OF inv]]; simp add: k)+
  have K2: "kernel_ok routes R (e\<lparr>en_active := x, en_activeRTT := rtt\<rparr>, k2)" by (rule kernel_frame [OF ok inv2]) (simp_all add: k)
  show ?thesis
    using run Some l c s K apply_routes_settles [OF doc rel K2]
    by (auto simp: activate_def Let_def split: option.splits)
qed

lemma stand_down_active: "en_active (fst (stand_down m (e, k))) = []"
proof -
  obtain e' k' r where a: "apply_routes m (e\<lparr>en_active := [], en_activeRTT := 0\<rparr>, k) = ((e', k'), r)" by (metis prod.exhaust)
  from arg_cong [OF apply_routes_frame [OF a], of en_active] show ?thesis by (simp add: stand_down_def a)
qed

lemma stand_down_settles:
  assumes doc: "machine_documented m routes" and rel: "os_reliable (mc_os m)" and ok: "kernel_ok routes R (e, k)"
  shows "settled routes R (stand_down m (e, k))" "en_active (fst (stand_down m (e, k))) = []"
    "en_applier (fst (stand_down m (e, k))) = en_applier e"
proof -
  obtain e' k' r where a: "apply_routes m (e\<lparr>en_active := [], en_activeRTT := 0\<rparr>, k) = ((e', k'), r)" by (metis prod.exhaust)
  have "engine_inv routes (e\<lparr>en_active := [], en_activeRTT := 0\<rparr>, k)" using ok by (simp add: kernel_ok_def engine_inv_def)
  then have "kernel_ok routes R (e\<lparr>en_active := [], en_activeRTT := 0\<rparr>, k)" by (rule kernel_frame [OF ok]) simp_all
  from apply_routes_settles(2) [OF doc rel this a] show "settled routes R (stand_down m (e, k))" by (simp add: stand_down_def a)
  show "en_active (fst (stand_down m (e, k))) = []" by (rule stand_down_active)
  show "en_applier (fst (stand_down m (e, k))) = en_applier e"
    using arg_cong [OF apply_routes_frame [OF a], of en_applier] by (simp add: stand_down_def a)
qed

section \<open>Every reachable state is settled\<close>

lemma settled_frame:
  assumes "settled routes R (e, k)" "engine_inv routes (e', k')" "routes k' = routes k" "en_applier e' = en_applier e"
    "en_installed e' = en_installed e" "en_active e' = en_active e" "en_pins e' = en_pins e" "cur (en_watch e') = cur (en_watch e)"
  shows "settled routes R (e', k')"
proof -
  have "pin_of e' = pin_of e" using assms by (simp add: pin_of_def)
  moreover have "kernel_ok routes R (e', k')"
    by (rule kernel_frame [OF _ assms(2,3,4,5)]) (use assms(1) in \<open>simp add: settled_def\<close>)
  ultimately show ?thesis using assms by (simp add: settled_def)
qed

lemma kernel_inv: "kernel_ok routes R st \<Longrightarrow> engine_inv routes st"
  unfolding kernel_ok_def by (cases st) simp

lemma settledD: "settled routes R (e, k) \<Longrightarrow> kernel_ok routes R (e, k) \<and> engine_inv routes (e, k)"
  unfolding settled_def prod.case using kernel_inv by blast

lemma settled_lastErr: "settled routes R (e, k) \<Longrightarrow> x \<noteq> Some NilPointer \<Longrightarrow> settled routes R (e\<lparr>en_lastErr := x\<rparr>, k)"
  by (rule settled_frame) (auto dest: settledD intro: inv_irrelevant)

lemma remeasure_settles:
  assumes doc: "machine_documented m routes" and rel: "os_reliable (mc_os m)" and st: "settled routes R (e, k)" and up: "en_tun e = Some l"
  shows "settled routes R (remeasure m l force (e, k))"
proof -
  obtain e1 k1 c where f: "measure_fleet m l (e, k) = ((e1, k1), c)" by (metis prod.exhaust)
  obtain t where e1: "e1 = e\<lparr>en_lastMeasure := t\<rparr>" using fleet_cases(2) [OF doc f] by blast
  have k1: "routes k1 = routes k" by (rule fleet_cases(1) [OF doc f])
  have inv: "engine_inv routes (e, k)" using settledD [OF st] by blast
  have inv1: "engine_inv routes (e1, k1)" unfolding e1 by (rule inv_irrelevant(2)) (rule inv_world [OF inv k1])
  have st1: "settled routes R (e1, k1)" by (rule settled_frame [OF st inv1 k1]) (simp_all add: e1)
  show ?thesis
  proof (cases c)
    case None
    have "kernel_ok routes R (e1\<lparr>en_lastErr := Some NoneAnswered\<rparr>, k1)" using settledD [OF settled_lastErr [OF st1]] by blast
    then show ?thesis using stand_down_settles(1) [OF doc rel] st1 None by (simp add: remeasure_def f)
  next
    case (Some ch)
    obtain e2 k2 r where act: "activate m (Primary ch) (rtt_of ch (Primary ch)) (e1, k1) = ((e2, k2), r)" by (metis prod.exhaust)
    have ok1: "kernel_ok routes R (e1, k1)" using settledD [OF st1] by blast
    have up1: "en_tun e1 \<noteq> None" using up by (simp add: e1)
    have A: "if r = None then settled routes R (e2, k2) else kernel_ok routes R (e2, k2) \<and> e2 = e1" by (rule activate_settles [OF doc rel ok1 up1 act])
    have r: "r \<noteq> Some NilPointer" using activate_inv [OF doc inv1 up1 act] by blast
    have sd: "settled routes R (stand_down m (e2\<lparr>en_lastErr := r\<rparr>, k2))" if "r \<noteq> None"
    proof (rule stand_down_settles(1) [OF doc rel])
      have K: "kernel_ok routes R (e2, k2)" by (rule conjunct1 [OF A [unfolded if_not_P [OF that]]])
      then have "engine_inv routes (e2, k2)" by (simp add: kernel_ok_def)
      then show "kernel_ok routes R (e2\<lparr>en_lastErr := r\<rparr>, k2)" using inv_irrelevant(1) r by (intro kernel_frame [OF K]) auto
    qed
    have same: "settled routes R (e1\<lparr>en_activeRTT := x, en_lastErr := None\<rparr>, k1)" for x
      by (rule settled_frame [OF st1 inv_irrelevant(1) [OF inv_irrelevant(3) [OF inv1]]]) simp_all
    have done_: "settled routes R (e2\<lparr>en_lastErr := None\<rparr>, k2)" if "r = None" using A that settled_lastErr [of routes R e2 k2 None] by simp
    show ?thesis using Some st1 sd same done_ by (cases r) (simp_all add: remeasure_def f act Let_def)
  qed
qed

lemma poll_settles:
  assumes doc: "machine_documented m routes" and rel: "os_reliable (mc_os m)" and st: "settled routes R (e, k)"
  shows "settled routes R (poll_engine m (e, k))"
proof (cases "mc_processes m k")
  case None
  then show ?thesis using st by (simp add: poll_engine_def)
next
  case (Some names)
  obtain w s changed where w: "poll_watch (mc_lower m) names (en_watch e) = (w, s, changed)" by (metis prod.exhaust)
  define e1 where "e1 = e\<lparr>en_watch := w\<rparr>"
  have inv1: "engine_inv routes (e1, k)"
    unfolding e1_def by (rule inv_irrelevant(4) [OF conjunct2 [OF settledD [OF st]]])
  have ok1: "kernel_ok routes R (e1, k)"
    by (rule kernel_frame [OF conjunct1 [OF settledD [OF st]] inv1]) (simp_all add: e1_def)
  obtain e2 k2 r where a: "apply_routes m (e1, k) = ((e2, k2), r)" by (metis prod.exhaust)
  note A = apply_routes_settles [OF doc rel ok1 a]
  have down: "settled routes R (e1, k)" if "en_tun e1 = None"
  proof -
    have "en_installed e1 = disconnected" "en_active e1 = []" using inv1 that by (simp_all add: engine_inv_def)
    then show ?thesis using ok1 by (simp add: settled_def pin_of_def disconnected_def)
  qed
  have chk: "settled routes R (check_relay m l (e1, k))" if "en_tun e1 = Some l" "\<not> changed" for l
  proof -
    have "cur w = cur (en_watch e)" using w that(2) by (auto simp: poll_watch_def Let_def)
    then have "settled routes R (e1, k)" by (intro settled_frame [OF st inv1]) (simp_all add: e1_def)
    then show ?thesis using remeasure_settles [OF doc rel _ that(1)] by (simp add: check_relay_def Let_def split: option.split)
  qed
  show ?thesis
    using Some w A(1) settled_lastErr [OF A(2), of None] a down chk e1_def
    by (cases "en_tun e1"; cases changed) (simp_all add: poll_engine_def Let_def)
qed

lemma connect_settles:
  assumes doc: "machine_documented m routes" and rel: "machine_reliable m" and st: "settled routes R (e, k)"
    and run: "connect m (e, k) = ((e', k'), r)"
  shows "if r = None then settled routes R (e', k') else kernel_ok routes R (e', k')"
proof -
  have inv: "engine_inv routes (e, k)" by (rule conjunct2 [OF settledD [OF st]])
  have down: "en_tun e = None \<Longrightarrow> routes k \<subseteq> R" using st inv by (simp add: settled_def kernel_ok_def engine_inv_def)
  show ?thesis
  proof (rule connectE [OF doc inv run])
    assume "(e', k') = (e, k)" "r = None"
    then show ?thesis using st by simp
  next
    assume "engine_inv routes (e', k')" "r \<noteq> None" "en_tun e' = None" "routes k' \<subseteq> routes k" "en_tun e = None"
    then show ?thesis using down by (auto simp: kernel_ok_def engine_inv_def)
  next
    fix e1 k1 l phys gw
    assume i: "engine_inv routes (e1, k1)" "en_tun e1 = Some l" "en_active e1 = []"
      "en_applier e1 = Some \<lparr>Tunnel = l, Physical = phys, PhysicalGateway = gw\<rparr>" "en_installed e1 = disconnected"
      "l \<notin> fst ` routes k1"
      and r: "(e', k') = (e1, k1) \<and> r \<noteq> None \<and> r \<noteq> Some NilPointer \<or>
        (\<exists>c :: measure_error choice. activate m (Primary c) (rtt_of c (Primary c)) (e1, k1) = ((e', k'), r))"
      and g: "routes k1 \<subseteq> routes k" "en_tun e = None" "\<exists>k rows. mc_forward m k = Some rows \<and> default_route rows = Some (phys, gw)"
    have gw: "gw \<noteq> NoAddr" using g(3) default_route_rows rel unfolding machine_reliable_def by metis
    have "tunnelled \<lparr>Tunnel = l, Physical = phys, PhysicalGateway = gw\<rparr> (routes k1) = {}"
      using i(6) by (force simp: tunnelled_def)
    moreover have "routes k1 \<subseteq> R" using g(1) down [OF g(2)] by blast
    ultimately have ok: "kernel_ok routes R (e1, k1)" using i(1,4,5) gw
      by (simp add: kernel_ok_def plan_kernel_def disconnected_def nets_def engine_inv_def le_supI1)
    have "if r = None then settled routes R (e', k') else kernel_ok routes R (e', k')"
      if "activate m x rtt (e1, k1) = ((e', k'), r)" for x rtt
      using activate_settles [OF doc _ ok _ that] rel i(2) by (cases r) (auto simp: machine_reliable_def)
    then show ?thesis using r ok by (auto split: if_splits)
  qed
qed

lemma teardown_rows:
  assumes doc: "machine_documented m routes" and rel: "os_reliable (mc_os m)" and ok: "kernel_ok routes R (e, k)"
  shows "routes (snd (teardown m (e, k))) \<subseteq> R"
proof (cases "en_applier e")
  case None
  then have "en_tun e = None" "routes k \<subseteq> R" using ok by (simp_all add: kernel_ok_def engine_inv_def)
  then show ?thesis using None by (simp add: teardown_def)
next
  case (Some a)
  have inv: "engine_inv routes (e, k)" using ok by (simp add: kernel_ok_def)
  have K: "PhysicalGateway a \<noteq> NoAddr" "routes k \<subseteq> R \<union> tunnel_rows a \<union> pin_rows a (RelayPin (en_installed e))" "en_tun e = Some (Tunnel a)"
    using ok Some by (simp_all add: kernel_ok_def engine_inv_def)
  obtain k1 where p: "apply_plan (mc_os m) a (plan (en_installed e) disconnected) k = (k1, None)"
    using plan_succeeds [OF rel inv K(1), of disconnected k] by (metis disconnected_def prod.collapse table.select_convs empty_iff list.set(1))
  have "routes k1 \<subseteq> R \<union> tunnel_rows a" using plan_rows [OF machine_os [OF doc] p K(2)] by (simp add: disconnected_def)
  then show ?thesis using Some K(3) p by (auto simp: teardown_def machine_close [OF doc] tunnel_rows_def)
qed

lemma teardown_settles:
  assumes doc: "machine_documented m routes" and rel: "os_reliable (mc_os m)" and ok: "kernel_ok routes R (e, k)"
  shows "settled routes R (teardown m (e, k))"
proof -
  obtain e' k' where t: "teardown m (e, k) = (e', k')" by fastforce
  have "engine_inv routes (e, k)" using ok by (simp add: kernel_ok_def)
  then have "engine_inv routes (e', k')" using teardown_inv [of routes e k m] t by simp
  moreover have "en_applier e' = None" "en_installed e' = disconnected" "en_active e' = []"
    using t by (auto simp: teardown_def Let_def)
  moreover have "routes k' \<subseteq> R" using teardown_rows [OF doc rel ok] t by simp
  ultimately show ?thesis by (simp add: t settled_def kernel_ok_def pin_of_def disconnected_def)
qed

lemma reload_settles:
  assumes doc: "machine_documented m routes" and rel: "os_reliable (mc_os m)" and st: "settled routes R (e, k)"
    and run: "reload_profile m (e, k) = ((e', k'), r)"
  shows "settled routes R (e', k')"
proof -
  obtain e1 k1 r1 where f: "fetch_profile m (e, k) = ((e1, k1), r1)" by (metis prod.exhaust)
  note F = fetch_profile_cases [OF doc f]
  have inv0: "engine_inv routes (e, k1)" by (rule inv_world [OF conjunct2 [OF settledD [OF st]] F(1)])
  have st1: "settled routes R (e1, k1)"
    using F(2) settled_frame [OF st inv0 F(1)] settled_frame [OF st inv_ranges [OF inv0] F(1)] by (elim disjE exE) simp_all
  show ?thesis
  proof (cases "r1 \<noteq> None \<or> en_tun e1 = None \<or> en_active e1 = []")
    case True
    then have "(e', k') = (e1, k1)" using run f by (auto simp: reload_profile_def split: option.splits)
    then show ?thesis using st1 by simp
  next
    case False
    then obtain l where l: "r1 = None" "en_tun e1 = Some l" "en_active e1 \<noteq> []" by (cases "en_tun e1") auto
    obtain k2 r2 where s: "set_active (wg_dev (mc_wg m) l) (en_relays e1) (en_allowed e1) (en_active e1) k1 = (k2, r2)" by fastforce
    have k2: "routes k2 = routes k1"
      using set_active_keeps [OF doc, of l "en_relays e1" "en_allowed e1" "en_active e1" k1] s by simp
    have st2: "settled routes R (e1, k2)"
      by (rule settled_frame [OF st1 inv_world [OF conjunct2 [OF settledD [OF st1]] k2] k2]) simp_all
    show ?thesis
    proof (cases r2)
      case None
      then have "apply_routes m (e1, k2) = ((e', k'), r)" using run f l s by (simp add: reload_profile_def)
      then show ?thesis by (rule apply_routes_settles(2) [OF doc rel conjunct1 [OF settledD [OF st2]]])
    next
      case (Some err)
      then have "(e', k') = (e1, k2)" using run f l s by (simp add: reload_profile_def)
      then show ?thesis using st2 by simp
    qed
  qed
qed

lemma handle_settles:
  assumes doc: "machine_documented m routes" and rel: "machine_reliable m" and st: "settled routes R (e, k)"
  shows "settled routes R (fst (handle_verb m v (e, k)))"
proof -
  obtain e1 k1 r1 where c: "connect m (e, k) = ((e1, k1), r1)" by (metis prod.exhaust)
  obtain e2 k2 r2 where l: "reload_profile m (e, k) = ((e2, k2), r2)" by (metis prod.exhaust)
  have inv: "engine_inv routes (e, k)" by (rule conjunct2 [OF settledD [OF st]])
  have os: "os_reliable (mc_os m)" using rel by (simp add: machine_reliable_def)
  note C = connect_settles [OF doc rel st c] and L = reload_settles [OF doc os st l] and I = connect_inv [OF doc inv c]
  have td: "settled routes R (teardown m (e, k))" by (rule teardown_settles [OF doc os conjunct1 [OF settledD [OF st]]])
  have "kernel_ok routes R (e1\<lparr>en_lastErr := r1\<rparr>, k1)" if "r1 \<noteq> None"
    using C that kernel_frame [OF _ inv_irrelevant(1) [OF conjunct1 [OF I] conjunct2 [OF I]]] by simp
  then have fail: "r1 \<noteq> None \<Longrightarrow> settled routes R (teardown m (e1\<lparr>en_lastErr := r1\<rparr>, k1))"
    by (rule teardown_settles [OF doc os])
  have ok: "r1 = None \<Longrightarrow> settled routes R (e1\<lparr>en_lastErr := None\<rparr>, k1)"
    using C settled_lastErr [of routes R e1 k1 None] by simp
  have con: "settled routes R (fst (handle_verb m VerbConnect (e, k)))"
    using c fail ok by (cases r1) (simp_all add: handle_verb_def)
  have rl: "settled routes R (fst (case reload_profile m (e, k) of
      (st1, Some err) \<Rightarrow> (st1, x err) | (st1, None) \<Rightarrow> (st1, y st1)))" for x y
    using l L by (cases r2) simp_all
  have oth: "v \<noteq> VerbConnect \<Longrightarrow> settled routes R (fst (handle_verb m v (e, k)))"
    using td st rl [of "\<lambda>st1. status (fst st1)" "\<lambda>err. no_status\<lparr>rs_Error := Some err\<rparr>"] by (auto simp: handle_verb_def)
  show ?thesis using con oth by blast
qed

lemma event_settles:
  assumes doc: "machine_documented m routes" and rel: "machine_reliable m" and st: "settled routes R st"
  shows "settled routes R (on_event decode m ev st)"
proof (cases ev)
  case Tick
  then show ?thesis using poll_settles [OF doc] rel st by (cases st) (simp add: machine_reliable_def)
next
  case (Pipe sent)
  have "settled routes R (fst (handle_verb m v st))" for v using handle_settles [OF doc rel] st by (cases st) simp
  then show ?thesis using Pipe st
    by (cases "scan_first sent"; cases "parse_request decode (the (scan_first sent))") (simp_all add: pipe_handle_def split_def Let_def)
qed

lemma reach_settled:
  assumes doc: "machine_documented m routes" and rel: "machine_reliable m" and reach: "engine_reach decode m routes cfg key R st"
  shows "settled routes R st"
  using reach
proof induction
  case (started k)
  have "engine_inv routes (new_engine cfg key, k)" by (rule inv_init)
  then show ?case using started by (simp add: settled_def kernel_ok_def pin_of_def new_engine_def disconnected_def)
next
  case (event st ev)
  then show ?case by (intro event_settles [OF doc rel])
next
  case (world e k k')
  show ?case by (rule settled_frame [OF world.IH inv_world [OF conjunct2 [OF settledD [OF world.IH]] world.hyps(2)] world.hyps(2)]) simp_all
qed

section \<open>The guarantees\<close>

text \<open>C12. Nothing is captured off the record. In every state the service can reach, whatever calls to
  Windows, WireGuard or the network failed on the way: the prefixes routed into its adapter are
  among those it has recorded as installed, so that a later plan can take them out; without an adapter nothing is recorded
  as installed; and no verb ends in a nil dereference.\<close>

theorem no_unrecorded_capture:
  assumes "machine_documented m routes" "engine_reach decode m routes cfg key R (e, k)"
  shows "(\<forall>a. en_applier e = Some a \<longrightarrow> tunnelled a (routes k) \<subseteq> nets (set (Game (en_installed e)))) \<and>
    (en_tun e = None \<longrightarrow> en_applier e = None \<and> en_installed e = disconnected) \<and>
    rs_Error (snd (handle_verb m v (e, k))) \<noteq> Some NilPointer"
proof -
  have inv: "engine_inv routes (e, k)" by (rule reach_inv [OF assms])
  then show ?thesis using handle_inv [OF assms(1) inv, of v] by (simp add: engine_inv_def)
qed

lemma no_unrecorded_capture_witness:
  "sim_table (snd sim_playing) = {sim_game_row, sim_pin_row} \<and>
   tunnelled sim_applier {sim_game_row, sim_pin_row} \<subseteq> nets {''104.160.0.0/16''} \<and>
   rs_Error (snd (handle_verb sim_machine VerbConnect sim_playing)) \<noteq> Some NilPointer"
proof -
  have e: "en_applier (fst sim_playing) = Some sim_applier" "Game (en_installed (fst sim_playing)) = [''104.160.0.0/16'']"
    and t: "sim_table (snd sim_playing) = {sim_game_row, sim_pin_row}"
    by (simp_all add: sim_playing_def sim_engine_def sim_table_def)
  show ?thesis using no_unrecorded_capture [OF sim_documented sim_playing_reached, where v = VerbConnect] e t by simp
qed

text \<open>C2. As long as Windows carries out the route calls, the machine's traffic is captured only for play:
  exactly the recorded game ranges are routed into the tunnel, and none unless a game is running, a relay is in use that is on
  offer, and the route to that relay past the tunnel is in place.\<close>

theorem capture_only_while_playing:
  assumes "machine_documented m routes" "machine_reliable m" "engine_reach decode m routes cfg key R (e, k)"
    and "en_applier e = Some a"
  shows "tunnelled a (routes k) = nets (set (Game (en_installed e))) \<and>
    (tunnelled a (routes k) \<noteq> {} \<longrightarrow> running (cur (en_watch e)) \<and>
       (\<exists>r \<in> set (en_relays e). relay_ID r = en_active e) \<and>
       (\<exists>pin. en_pins e (en_active e) = Some pin \<and> pin_in a pin (routes k)))"
proof -
  have st: "settled routes R (e, k)" by (rule reach_settled [OF assms(1-3)])
  have inv: "engine_inv routes (e, k)" by (rule conjunct2 [OF settledD [OF st]])
  have ok: "plan_kernel a (en_installed e) (routes k)" "tunnelled a (routes k) = nets (set (Game (en_installed e)))"
    "RelayPin (en_installed e) = pin_of e" "Game (en_installed e) \<noteq> [] \<Longrightarrow> en_active e \<noteq> [] \<and> running (cur (en_watch e))"
    using st assms(4) by (auto simp: settled_def kernel_ok_def)
  show ?thesis
  proof (cases "tunnelled a (routes k) = {}")
    case False
    then have "Game (en_installed e) \<noteq> []" using ok(2) by auto
    then have act: "en_active e \<noteq> []" "running (cur (en_watch e))" using ok(4) by blast+
    then have dom: "en_active e \<in> relay_ID ` set (en_relays e)" "dom (en_pins e) = relay_ID ` set (en_relays e)"
      using inv by (simp_all add: engine_inv_def)
    then obtain pin where pin: "en_pins e (en_active e) = Some pin" by blast
    then have "pin_of e = pin" using act(1) by (simp add: pin_of_def)
    moreover have "pin_of e \<noteq> []" using canonical_nonempty [OF pin_of_canonical [OF inv act(1)]] .
    ultimately have "pin_in a pin (routes k)" using ok(1,3) by (simp add: plan_kernel_def)
    then show ?thesis using ok(2) act(2) dom(1) pin by force
  qed (use ok(2) in simp)
qed

lemma sim_reliable: "machine_reliable sim_machine"
  by (auto simp: machine_reliable_def os_reliable_def sim_os_def)

lemma capture_only_while_playing_witness:
  "running (cur (en_watch (fst sim_playing))) \<and> tunnelled sim_applier (sim_table (snd sim_playing)) \<noteq> {} \<and>
   pin_in sim_applier ''203.0.113.5/32'' (sim_table (snd sim_playing))"
proof -
  have e: "en_applier (fst sim_playing) = Some sim_applier" "en_active (fst sim_playing) = ''hcm-1''"
    "en_pins (fst sim_playing) = [''hcm-1'' \<mapsto> ''203.0.113.5/32'']"
    by (simp_all add: sim_playing_def sim_engine_def)
  have "Prefix (V4 0x68A00000) 16 \<in> tunnelled sim_applier (sim_table (snd sim_playing))"
    by (simp add: tunnelled_def sim_table_def sim_playing_def sim_applier_def sim_game_row_def)
  then show ?thesis
    using capture_only_while_playing [OF sim_documented sim_reliable sim_playing_reached e(1)] e(2,3) by auto
qed



text \<open>The relay in use has not shaken hands for \<open>staleAfter\<close>.\<close>

definition stale :: "('l, 's, 'b) machine \<Rightarrow> 'l \<Rightarrow> relay \<Rightarrow> 's \<Rightarrow> bool" where
  "stale m l r k \<longleftrightarrow> (case last_handshake (wg_dev (mc_wg m) l) (relay_PublicKey r) k of
     None \<Rightarrow> True | Some seen \<Rightarrow> clock m l k - seen > staleAfter)"

lemma poll_unchanged:
  assumes "mc_processes m k = Some names" "poll_watch (mc_lower m) names (en_watch e) = (w, s, False)"
    and "en_tun e = Some l" "en_active e \<noteq> []" "relay_by_id (en_relays e) (en_active e) = Some r"
  shows "poll_engine m (e, k) =
    (if stale m l r k then remeasure m l True (e\<lparr>en_watch := w\<rparr>, k)
     else if \<not> running (cur w) \<and> clock m l k - en_lastMeasure e > remeasureEvery then remeasure m l False (e\<lparr>en_watch := w\<rparr>, k)
     else (e\<lparr>en_watch := w\<rparr>, k))"
  using assms by (simp add: poll_engine_def check_relay_def stale_def Let_def split: option.split)


lemma sim_silent_facts:
  "en_applier (fst sim_silent) = Some sim_applier" "en_tun (fst sim_silent) = Some 7" "en_active (fst sim_silent) = ''hcm-1''"
  "en_relays (fst sim_silent) = [sim_relay]" "sim_processes (snd sim_silent) = [''cs2.exe'']" "Tunnel sim_applier = 7"
  "mc_lower sim_machine = id" "relay_by_id [sim_relay] ''hcm-1'' = Some sim_relay" "stale sim_machine 7 sim_relay (snd sim_silent)"
  "best (snd (measure_relays sim_dev [sim_relay] measureWindow (snd sim_silent))) = None"
proof -
  have "sim_clock (snd sim_silent) = 1200 * second" by (simp add: sim_silent_def)
  then show "stale sim_machine 7 sim_relay (snd sim_silent)"
    by (simp add: stale_def sim_unanswered(2) clock_def staleAfter_def)
  show "best (snd (measure_relays sim_dev [sim_relay] measureWindow (snd sim_silent))) = None"
    by (simp add: sim_unanswered(1) best_def measured_ok_def)
qed (simp_all add: sim_silent_def sim_playing_def sim_engine_def sim_applier_def sim_machine_def relay_by_id_def sim_relay_def)


text \<open>A relay is left only for a reason: a poll that finds the same game as before changes the relay in use only
  when it has stopped shaking hands, or, outside a game and at most once in \<open>remeasureEvery\<close>, when no relay answered or
  one answered faster by the switching margin. A game is never moved off a relay that still answers.\<close>

theorem relay_left_for_a_reason:
  assumes "mc_processes m k = Some names" "poll_watch (mc_lower m) names (en_watch e) = (w, s, False)"
    and "en_tun e = Some l" "en_active e \<noteq> []" "relay_by_id (en_relays e) (en_active e) = Some r"
    and "poll_engine m (e, k) = (e', k')" "en_active e' \<noteq> en_active e"
  shows "stale m l r k \<or>
    (\<not> running (cur w) \<and> clock m l k - en_lastMeasure e > remeasureEvery \<and>
     (case best (snd (measure_relays (wg_dev (mc_wg m) l) (en_relays e) measureWindow k)) of
        None \<Rightarrow> True
      | Some c \<Rightarrow> Primary c \<noteq> en_active e \<and>
          (en_activeRTT e \<le> 0 \<or> en_activeRTT e - rtt_of c (Primary c) \<ge> 10 * millisecond)))"
proof (cases "stale m l r k")
  case False
  then have "\<not> running (cur w)" "clock m l k - en_lastMeasure e > remeasureEvery"
    and p: "remeasure m l False (e\<lparr>en_watch := w\<rparr>, k) = (e', k')"
    using poll_unchanged [OF assms(1-5)] assms(6,7) by (auto split: if_splits)
  moreover have "Primary c \<noteq> en_active e \<and> (en_activeRTT e \<le> 0 \<or> en_activeRTT e - rtt_of c (Primary c) \<ge> 10 * millisecond)"
    if "best (snd (measure_relays (wg_dev (mc_wg m) l) (en_relays e) measureWindow k)) = Some c" for c
    using p that assms(7)
    by (auto simp: remeasure_def measure_fleet_def Let_def split_def worth_switching_def DefaultSwitchMargin_def split: if_splits)
  ultimately show ?thesis by (simp split: option.split)
qed simp

lemma relay_left_for_a_reason_witness:
  "en_active (fst (poll_engine sim_machine sim_silent)) \<noteq> ''hcm-1'' \<and>
   stale sim_machine 7 sim_relay (snd sim_silent)"
proof -
  obtain e' k' where p: "poll_engine sim_machine (fst sim_silent, snd sim_silent) = (e', k')" by fastforce
  have "poll_engine sim_machine sim_silent = remeasure sim_machine 7 True ((fst sim_silent)\<lparr>en_watch := en_watch (fst sim_silent)\<rparr>, snd sim_silent)"
    using poll_unchanged [of sim_machine "snd sim_silent" "[''cs2.exe'']" "fst sim_silent" "en_watch (fst sim_silent)" sim_state 7 sim_relay]
      sim_silent_facts sim_still_playing by simp
  also have "\<dots> = stand_down sim_machine ((fst sim_silent)\<lparr>en_watch := en_watch (fst sim_silent),
      en_lastMeasure := clock sim_machine 7 (snd sim_silent), en_lastErr := Some NoneAnswered\<rparr>,
      fst (measure_relays sim_dev [sim_relay] measureWindow (snd sim_silent)))"
    using sim_silent_facts by (simp add: remeasure_def measure_fleet_def Let_def split_def)
  finally have "en_active e' = []"
    using p stand_down_active by (metis fst_conv prod.collapse)
  moreover have "running (cur (en_watch (fst sim_silent)))"
    by (simp add: sim_silent_def sim_playing_def sim_state_def running_def)
  ultimately show ?thesis
    using relay_left_for_a_reason [OF _ _ _ _ _ p, of "[''cs2.exe'']"] sim_silent_facts sim_still_playing p by auto
qed

end
