(* ===== verification/Wintun_Measure.thy ===== *)
theory Wintun_Measure
  imports Wintun_Props
begin

text \<open>
  Measuring relays: the loop ends within its fuel, and each relay gets exactly one result.
\<close>

section \<open>The measurement ends\<close>

text \<open>\<open>time.Sleep\<close> pauses for at least the time it is given.\<close>

definition sleeps :: "'s wgdev \<Rightarrow> bool" where
  "sleeps dev \<longleftrightarrow> (\<forall>d k. now dev k + d \<le> now dev (sleep dev d k))"

lemma loop_ends:
  assumes "sleeps dev" "deadline \<le> now dev k + int n * (50 * millisecond)"
    and "measure_loop dev rs baseline deadline n (k, out, pending) = (k', out', pending')"
  shows "measure_loop dev rs baseline deadline (n + j) (k, out, pending) = (k', out', pending') \<and>
    (now dev k' < deadline \<longrightarrow> pending' = [] \<or> ipc_get dev k' = None)"
  using assms(2,3)
proof (induction n arbitrary: k out pending)
  case 0
  then show ?case by (cases j) auto
next
  case (Suc n)
  let ?k1 = "sleep dev (50 * millisecond) k"
  have "now dev k + 50 * millisecond \<le> now dev ?k1" using assms(1) by (simp add: sleeps_def)
  then have n: "deadline \<le> now dev ?k1 + int n * (50 * millisecond)" using Suc.prems(1) by (simp add: algebra_simps)
  show ?case
  proof (cases "now dev k < deadline \<and> pending \<noteq> []")
    case True
    show ?thesis
    proof (cases "ipc_get dev ?k1")
      case None
      then show ?thesis using Suc.prems(2) True by (auto simp: Let_def)
    next
      case (Some dump)
      then show ?thesis
        using Suc.IH [OF n, of "fst (foldl (check_answer baseline dump (now dev ?k1)) (out, pending) rs)"
            "snd (foldl (check_answer baseline dump (now dev ?k1)) (out, pending) rs)"] Suc.prems(2) True
        by (simp add: Let_def)
    qed
  qed (use Suc.prems(2) in auto)
qed

text \<open>C32. The measurement of relays ends: as long as a sleep takes at least the 50 ms it is asked for, the
  loop stops by itself within the turns it is given here, at the deadline, when every relay has answered or
  when the device no longer does; more turns would change nothing.\<close>

theorem measurement_ends:
  assumes "sleeps dev" "n \<ge> measure_fuel wait"
    and "measure_loop dev rs baseline (now dev k + wait) (measure_fuel wait) (k, out, pending) = (k', out', pending')"
  shows "measure_loop dev rs baseline (now dev k + wait) n (k, out, pending) = (k', out', pending') \<and>
    (now dev k' < now dev k + wait \<longrightarrow> pending' = [] \<or> ipc_get dev k' = None)"
proof -
  have "0 < 50 * millisecond" by simp
  then have "wait < (wait div (50 * millisecond) + 1) * (50 * millisecond)"
    by (metis add.commute div_mult_mod_eq distrib_right mult_1 add_strict_left_mono pos_mod_bound)
  also have "\<dots> \<le> int (measure_fuel wait) * (50 * millisecond)"
    by (rule mult_right_mono) (simp_all add: measure_fuel_def)
  finally have "now dev k + wait \<le> now dev k + int (measure_fuel wait) * (50 * millisecond)" by simp
  from loop_ends [OF assms(1) this assms(3), of "n - measure_fuel wait"] assms(2) show ?thesis by simp
qed

section \<open>Every relay is accounted for\<close>

definition pending_ids :: "relay list \<Rightarrow> (string \<times> nanos) list \<Rightarrow> string multiset" where
  "pending_ids rs pending = mset (map relay_ID (filter (\<lambda>r. relay_PublicKey r \<in> fst ` set pending) rs))"

definition accounted :: "relay list \<Rightarrow> measure_error measurement list \<Rightarrow> (string \<times> nanos) list \<Rightarrow> bool" where
  "accounted rs out pending \<longleftrightarrow> mset (map ms_RelayID out) + pending_ids rs pending = mset (map relay_ID rs) \<and>
     (\<forall>x t. (x, t) \<in> set pending \<longrightarrow> x \<in> relay_PublicKey ` set rs)"

lemma pending_ids_filter:
  assumes "distinct (map relay_PublicKey rs)" "r \<in> set rs" "relay_PublicKey r \<in> fst ` set pending"
  shows "pending_ids rs pending = add_mset (relay_ID r) (pending_ids rs (filter (\<lambda>p. fst p \<noteq> relay_PublicKey r) pending))"
proof -
  obtain xs ys where rs: "rs = xs @ r # ys" using assms(2) by (auto dest: split_list)
  have "relay_PublicKey r \<notin> relay_PublicKey ` set (xs @ ys)" using assms(1) rs by auto
  then have "relay_PublicKey x \<noteq> relay_PublicKey r" if "x \<in> set (xs @ ys)" for x using that by (metis image_eqI)
  then have "filter (\<lambda>x. relay_PublicKey x \<in> fst ` {p \<in> set pending. fst p \<noteq> relay_PublicKey r}) zs =
      filter (\<lambda>x. relay_PublicKey x \<in> fst ` set pending) zs" if "set zs \<subseteq> set (xs @ ys)" for zs
    using that by (intro filter_cong refl) (force simp: image_iff)
  from this [of xs] this [of ys] show ?thesis using assms(3) by (simp add: rs pending_ids_def) (auto simp: image_iff)
qed

lemma start_accounts:
  assumes "distinct (map relay_PublicKey (xs @ [r]))" "accounted xs out pending" "start_relay dev (k, out, pending) r = (k', out', pending')"
  shows "accounted (xs @ [r]) out' pending'"
proof -
  have r: "relay_PublicKey r \<notin> relay_PublicKey ` set xs" using assms(1) by simp
  then have new: "relay_PublicKey r \<notin> fst ` set pending" using assms(2) by (auto simp: accounted_def)
  have f: "filter (\<lambda>p. fst p \<noteq> relay_PublicKey r) pending = pending" using new by (force intro: filter_True)
  have "filter (\<lambda>x. relay_PublicKey x \<in> fst ` set ((relay_PublicKey r, t) # pending)) xs = filter (\<lambda>x. relay_PublicKey x \<in> fst ` set pending) xs" for t
    using r by (intro filter_cong refl) (auto simp: image_iff)
  then have "pending_ids (xs @ [r]) ((relay_PublicKey r, t) # pending) = add_mset (relay_ID r) (pending_ids xs pending)" for t
    by (simp only: pending_ids_def filter_append map_append mset_append) simp
  moreover have "pending_ids (xs @ [r]) pending = pending_ids xs pending" using new by (simp add: pending_ids_def)
  moreover have "x \<in> relay_PublicKey ` set (xs @ [r])" if "(x, t) \<in> set pending" for x t
    using assms(2) that by (fastforce simp: accounted_def)
  ultimately show ?thesis
    using assms(2,3) f unfolding accounted_def
    by (cases "find_peer dev (relay_PublicKey r) k") (fastforce simp: start_relay_def)+
qed

lemma check_accounts:
  assumes "distinct (map relay_PublicKey rs)" "r \<in> set rs" "accounted rs out pending"
    and "check_answer baseline dump t (out, pending) r = (out', pending')"
  shows "accounted rs out' pending'"
proof (cases "map_of pending (relay_PublicKey r)")
  case None
  then show ?thesis using assms(3,4) by (simp add: check_answer_def)
next
  case (Some start)
  then have "relay_PublicKey r \<in> fst ` set pending" by (metis domI dom_map_of_conv_image_fst)
  note P = pending_ids_filter [OF assms(1,2) this]
  have "x \<in> relay_PublicKey ` set rs" if "(x, t) \<in> set pending'" for x t
    using assms(3,4) Some that by (fastforce simp: check_answer_def accounted_def Let_def split: if_splits)
  moreover have "mset (map ms_RelayID out') + pending_ids rs pending' = mset (map relay_ID rs)"
    using P assms(3,4) Some by (auto simp: check_answer_def accounted_def Let_def split: if_splits)
  ultimately show ?thesis unfolding accounted_def by blast
qed

lemma answers_account:
  assumes "distinct (map relay_PublicKey rs)" "set xs \<subseteq> set rs" "accounted rs out pending"
    and "foldl (check_answer baseline dump t) (out, pending) xs = (out', pending')"
  shows "accounted rs out' pending'"
  using assms(2-4)
proof (induction xs arbitrary: out pending)
  case (Cons x xs)
  obtain o1 p1 where 1: "check_answer baseline dump t (out, pending) x = (o1, p1)" by fastforce
  have "accounted rs o1 p1" using check_accounts [OF assms(1) _ Cons.prems(2) 1] Cons.prems(1) by simp
  then show ?case using Cons.IH [of o1 p1] Cons.prems(1,3) 1 by simp
qed simp

lemma loop_accounts:
  assumes "distinct (map relay_PublicKey rs)" "accounted rs out pending"
    and "measure_loop dev rs baseline deadline n (k, out, pending) = (k', out', pending')"
  shows "accounted rs out' pending'"
  using assms(2,3)
proof (induction n arbitrary: k out pending)
  case (Suc n)
  show ?case
  proof (cases "now dev k < deadline \<and> pending \<noteq> [] \<and> ipc_get dev (sleep dev (50 * millisecond) k) \<noteq> None")
    case True
    let ?k1 = "sleep dev (50 * millisecond) k"
    obtain dump where d: "ipc_get dev ?k1 = Some dump" using True by blast
    obtain o1 p1 where 1: "foldl (check_answer baseline dump (now dev ?k1)) (out, pending) rs = (o1, p1)" by fastforce
    have "accounted rs o1 p1" by (rule answers_account [OF assms(1) order_refl Suc.prems(1) 1])
    then show ?thesis using Suc.IH [of o1 p1 ?k1] Suc.prems(2) True d 1 by (simp add: Let_def)
  qed (use Suc.prems in \<open>auto simp: Let_def split: if_splits option.splits\<close>)
qed simp

lemma starts_account:
  assumes "distinct (map relay_PublicKey rs)"
  shows "foldl (start_relay dev) (k, [], []) rs = (k', out', pending') \<Longrightarrow> accounted rs out' pending'"
  using assms
proof (induction rs arbitrary: k' out' pending' rule: rev_induct)
  case Nil
  then show ?case by (simp add: accounted_def pending_ids_def)
next
  case (snoc r rs)
  obtain k1 o1 p1 where 1: "foldl (start_relay dev) (k, [], []) rs = (k1, o1, p1)" by (metis prod.exhaust)
  have "accounted rs o1 p1" using snoc.IH [OF 1] snoc.prems(2) by simp
  from start_accounts [OF snoc.prems(2) this] snoc.prems(1) 1 show ?case by simp
qed

text \<open>A measurement leaves no relay out and reports none twice: for relays with keys of their own there
  is exactly one result each, whether it answered, was refused, or stayed silent.\<close>

theorem every_relay_accounted:
  assumes "distinct (map relay_PublicKey rs)" "measure_relays dev rs wait k = (k', ms)"
  shows "mset (map ms_RelayID ms) = mset (map relay_ID rs)"
proof -
  let ?b = "handshake_baseline dev rs k"
  obtain k1 o1 p1 where 1: "foldl (start_relay dev) (k, [], []) rs = (k1, o1, p1)" by (metis prod.exhaust)
  obtain k2 o2 p2 where 2: "measure_loop dev rs ?b (now dev k1 + wait) (measure_fuel wait) (k1, o1, p1) = (k2, o2, p2)" by (metis prod.exhaust)
  have "accounted rs o2 p2" by (rule loop_accounts [OF assms(1) starts_account [OF assms(1) 1] 2])
  moreover have "ms = o2 @ map (\<lambda>r. \<lparr>ms_RelayID = relay_ID r, ms_RTT = 0, ms_Err = Some NoHandshake\<rparr>)
      (filter (\<lambda>r. relay_PublicKey r \<in> fst ` set p2) rs)"
    using assms(2) by (simp add: measure_relays_def 1 2)
  ultimately show ?thesis by (simp add: accounted_def pending_ids_def comp_def)
qed

definition mute_wgdev :: "nanos wgdev" where
  "mute_wgdev = \<lparr>ipc_set = (\<lambda>cfg k. (k, True)), ipc_get = (\<lambda>k. Some []), has_peer = (\<lambda>key k. True),
     initiate = (\<lambda>key k. k), now = (\<lambda>k. k), sleep = (\<lambda>d k. k + d)\<rparr>"

lemma measurement_ends_witness:
  "\<exists>k' out' pending'. measure_loop mute_wgdev [] (\<lambda>_. []) (60 * millisecond) (measure_fuel (60 * millisecond)) (0, [], [([], 0)]) = (k', out', pending') \<and>
     measure_loop mute_wgdev [] (\<lambda>_. []) (60 * millisecond) 100 (0, [], [([], 0)]) = (k', out', pending') \<and> 60 * millisecond \<le> k'"
proof -
  obtain k' out' pending' where run: "measure_loop mute_wgdev [] (\<lambda>_. []) (now mute_wgdev 0 + 60 * millisecond)
      (measure_fuel (60 * millisecond)) (0, [], [([], 0)]) = (k', out', pending')" by (metis prod.exhaust)
  have s: "sleeps mute_wgdev" by (simp add: sleeps_def mute_wgdev_def)
  have fuel: "measure_fuel (60 * millisecond) = 2" by (simp add: measure_fuel_def)
  then have n: "measure_fuel (60 * millisecond) \<le> 100" by simp
  have "pending' = [([], 0)]" using run fuel by (auto simp: mute_wgdev_def numeral_2_eq_2)
  then show ?thesis using measurement_ends [OF s n run] run by (auto simp: mute_wgdev_def not_less)
qed

lemma every_relay_accounted_witness:
  "\<exists>k' ms. measure_relays sample_wgdev [\<lparr>relay_ID = ''a'', relay_Endpoint = [], relay_PublicKey = ''x'', relay_InnerIP = Prefix NoAddr 0, relay_MTU = 0\<rparr>,
     \<lparr>relay_ID = ''b'', relay_Endpoint = [], relay_PublicKey = ''y'', relay_InnerIP = Prefix NoAddr 0, relay_MTU = 0\<rparr>] 0 [] = (k', ms) \<and>
     mset (map ms_RelayID ms) = {#''a'', ''b''#}"
proof -
  obtain k' ms where run: "measure_relays sample_wgdev [\<lparr>relay_ID = ''a'', relay_Endpoint = [], relay_PublicKey = ''x'', relay_InnerIP = Prefix NoAddr 0, relay_MTU = 0\<rparr>,
     \<lparr>relay_ID = ''b'', relay_Endpoint = [], relay_PublicKey = ''y'', relay_InnerIP = Prefix NoAddr 0, relay_MTU = 0\<rparr>] 0 [] = (k', ms)" by fastforce
  show ?thesis using every_relay_accounted [OF _ run] run by simp
qed

end
