(* ===== verification/Stats.thy ===== *)
theory Stats
  imports Prelude
begin

text \<open>
  \<open>internal/stats\<close>: a batch of round-trip times reduced to percentiles, jitter and loss. Times are
  nanoseconds; a \<open>float64\<close> is a real.
\<close>

section \<open>Summaries\<close>

record summary =
  Sent :: int
  Received :: nat
  LossPct :: real
  P50Ms :: real
  P95Ms :: real
  P99Ms :: real
  JitterMs :: real

text \<open>\<open>int(math.Ceil(p/100*n)) - 1\<close>, clamped into the range of a list of length \<open>n\<close>.\<close>

definition rank_index :: "nat \<Rightarrow> nat \<Rightarrow> nat" where
  "rank_index p n =
     (let idx = (int p * int n + 99) div 100 - 1;
          idx' = (if idx < 0 then 0 else idx)
      in nat (if idx' \<ge> int n then int n - 1 else idx'))"

definition percentile_ms :: "int list \<Rightarrow> nat \<Rightarrow> real" where
  "percentile_ms xs p = of_int (xs ! rank_index p (length xs)) / 10 ^ 6"

definition loss_pct :: "int \<Rightarrow> nat \<Rightarrow> real" where
  "loss_pct sent received =
     (if sent > 0 then
        (let lost = sent - int received; lost' = (if lost < 0 then 0 else lost)
         in of_int lost' / of_int sent * 100)
      else 0)"

definition summarize :: "int \<Rightarrow> int list \<Rightarrow> summary" where
  "summarize sent rtts =
     (let s = \<lparr>Sent = sent, Received = length rtts, LossPct = loss_pct sent (length rtts),
        P50Ms = 0, P95Ms = 0, P99Ms = 0, JitterMs = 0\<rparr> in
      if length rtts = 0 then s
      else
        let xs = sort rtts in
        s\<lparr>P50Ms := percentile_ms xs 50, P95Ms := percentile_ms xs 95, P99Ms := percentile_ms xs 99,
          JitterMs := percentile_ms xs 95 - percentile_ms xs 50\<rparr>)"

section \<open>What a percentile is\<close>

lemma rank_index_bounds:
  assumes "0 < p" "p \<le> 100" "0 < n"
  shows "rank_index p n < n" "p * n \<le> 100 * Suc (rank_index p n)" "100 * rank_index p n < p * n"
proof -
  define q where "q = (int p * int n + 99) div 100"
  have q: "100 * q \<le> int p * int n + 99" "int p * int n + 99 < 100 * q + 100" unfolding q_def by linarith+
  have pn: "int p * int n \<le> 100 * int n" by (rule mult_right_mono) (use assms(2) in simp_all)
  have one: "1 \<le> int p * int n" using assms(1,3) by (simp add: mult_pos_pos int_one_le_iff_zero_less)
  have r: "1 \<le> q" "q \<le> int n" using q pn one by linarith+
  then have i: "rank_index p n = nat (q - 1)" by (simp add: rank_index_def q_def [symmetric] Let_def)
  show "rank_index p n < n" using r i by linarith
  have "int (p * n) \<le> int (100 * Suc (rank_index p n))" using q r by (simp add: i)
  then show "p * n \<le> 100 * Suc (rank_index p n)" by linarith
  have "int (100 * rank_index p n) < int (p * n)" using q r by (simp add: i)
  then show "100 * rank_index p n < p * n" by linarith
qed

lemma rank_index_mono: "p \<le> p' \<Longrightarrow> p' \<le> 100 \<Longrightarrow> 0 < p \<Longrightarrow> 0 < n \<Longrightarrow> rank_index p n \<le> rank_index p' n"
proof -
  assume "p \<le> p'" "p' \<le> 100" "0 < p" "0 < n"
  then have "100 * rank_index p n < p * n" "p * n \<le> p' * n" "p' * n \<le> 100 * Suc (rank_index p' n)"
    using rank_index_bounds [of p n] rank_index_bounds [of p' n] by simp_all
  then have "100 * rank_index p n < 100 * Suc (rank_index p' n)" by (meson less_le_trans)
  then show ?thesis by simp
qed

lemma length_filter_sort: "length (filter P (sort xs)) = length (filter P xs)"
  by (metis mset_filter mset_sort size_mset)

text \<open>The nearest rank: a sample with at least \<open>p\<close> per cent of the samples at or below it and fewer below it.\<close>

definition nearest_rank :: "nat \<Rightarrow> int list \<Rightarrow> real \<Rightarrow> bool" where
  "nearest_rank p rtts v \<longleftrightarrow>
     (\<exists>r \<in> set rtts. v = of_int r / 10 ^ 6 \<and>
        p * length rtts \<le> 100 * length (filter (\<lambda>x. x \<le> r) rtts) \<and>
        100 * length (filter (\<lambda>x. x < r) rtts) < p * length rtts)"

lemma percentile_nearest_rank:
  assumes "0 < p" "p \<le> 100" "rtts \<noteq> []"
  shows "nearest_rank p rtts (percentile_ms (sort rtts) p)"
proof -
  let ?ys = "sort rtts" and ?n = "length rtts"
  define i where "i = rank_index p ?n"
  have n: "0 < ?n" using assms(3) by simp
  note B = rank_index_bounds [OF assms(1,2) n, folded i_def]
  let ?v = "?ys ! i"
  have srt: "a \<le> b \<Longrightarrow> b < ?n \<Longrightarrow> ?ys ! a \<le> ?ys ! b" for a b by (simp add: sorted_nth_mono)
  have "Suc i \<le> length (filter (\<lambda>x. x \<le> ?v) ?ys)"
  proof -
    have "filter (\<lambda>x. x \<le> ?v) (take (Suc i) ?ys) = take (Suc i) ?ys"
      using srt B(1) by (auto simp: filter_id_conv in_set_conv_nth)
    then have "length (filter (\<lambda>x. x \<le> ?v) (take (Suc i) ?ys)) = Suc i" using B(1) by simp
    then show ?thesis by (metis append_take_drop_id filter_append length_append le_add1)
  qed
  moreover have "length (filter (\<lambda>x. x < ?v) ?ys) \<le> i"
  proof -
    have "filter (\<lambda>x. x < ?v) (drop i ?ys) = []"
      using srt [of i] by (auto simp: filter_empty_conv in_set_conv_nth not_less)
    then have "filter (\<lambda>x. x < ?v) ?ys = filter (\<lambda>x. x < ?v) (take i ?ys)"
      by (metis append_Nil2 append_take_drop_id filter_append)
    then show ?thesis by (metis length_filter_le length_take min.bounded_iff order_trans)
  qed
  moreover have "?v \<in> set rtts" using B(1) by (metis length_sort nth_mem set_sort)
  ultimately show ?thesis
    unfolding nearest_rank_def percentile_ms_def length_sort i_def [symmetric]
    using B(2,3) by (intro bexI [of _ ?v]) (simp_all add: length_filter_sort)
qed

lemma percentile_mono: "p \<le> p' \<Longrightarrow> p' \<le> 100 \<Longrightarrow> 0 < p \<Longrightarrow> rtts \<noteq> [] \<Longrightarrow> percentile_ms (sort rtts) p \<le> percentile_ms (sort rtts) p'"
  using rank_index_mono [of p p' "length rtts"] rank_index_bounds(1) [of p' "length rtts"]
  by (simp add: percentile_ms_def divide_right_mono sorted_nth_mono)

text \<open>A summary says what it claims to: each percentile is the nearest rank of the samples, whatever
  order they came in, the jitter is the non-negative spread between p50 and p95, the loss is a share between 0 and 100 per cent even when the
  path duplicates replies, and a run without replies has no latency.\<close>

theorem summary_faithful:
  assumes "s = summarize sent rtts"
  shows "Received s = length rtts \<and> 0 \<le> LossPct s \<and> LossPct s \<le> 100 \<and>
    (int (length rtts) \<le> sent \<and> 0 < sent \<longrightarrow> LossPct s = 100 * (of_int sent - of_nat (length rtts)) / of_int sent) \<and>
    (if rtts = [] then P50Ms s = 0 \<and> P95Ms s = 0 \<and> P99Ms s = 0 \<and> JitterMs s = 0
     else nearest_rank 50 rtts (P50Ms s) \<and> nearest_rank 95 rtts (P95Ms s) \<and> nearest_rank 99 rtts (P99Ms s) \<and>
       P50Ms s \<le> P95Ms s \<and> P95Ms s \<le> P99Ms s \<and> JitterMs s = P95Ms s - P50Ms s \<and> 0 \<le> JitterMs s)"
proof -
  have "0 \<le> loss_pct sent (length rtts) \<and> loss_pct sent (length rtts) \<le> 100"
    by (auto simp: loss_pct_def Let_def divide_le_eq)
  moreover have "int (length rtts) \<le> sent \<and> 0 < sent \<longrightarrow> loss_pct sent (length rtts) = 100 * (of_int sent - of_nat (length rtts)) / of_int sent"
    by (simp add: loss_pct_def Let_def)
  moreover have "percentile_ms (sort rtts) 50 \<le> percentile_ms (sort rtts) 95 \<and> percentile_ms (sort rtts) 95 \<le> percentile_ms (sort rtts) 99"
    if "rtts \<noteq> []" using that percentile_mono by simp
  ultimately show ?thesis
    using percentile_nearest_rank [of 50 rtts] percentile_nearest_rank [of 95 rtts] percentile_nearest_rank [of 99 rtts]
    by (cases "rtts = []") (simp_all add: assms summarize_def Let_def)
qed

lemma summary_faithful_witness:
  "P50Ms (summarize 5 [7000000, 3000000, 9000000]) = 7 \<and> nearest_rank 50 [7000000, 3000000, 9000000] 7 \<and>
   LossPct (summarize 5 [7000000, 3000000, 9000000]) = 40"
proof -
  have "sort [7000000, 3000000, 9000000 :: int] = [3000000, 7000000, 9000000]" by simp
  then have p: "P50Ms (summarize 5 [7000000, 3000000, 9000000]) = 7"
    by (simp add: summarize_def percentile_ms_def rank_index_def Let_def)
  show ?thesis using summary_faithful [OF refl, of 5 "[7000000, 3000000, 9000000]"] p by simp
qed

end
