(* ===== verification/Analyze.thy ===== *)
theory Analyze
  imports Stats
begin

text \<open>
  \<open>internal/analyze\<close> and the exit code of \<open>gnl-analyze\<close>: a campaign of probe records turned into a
  go/no-go verdict. A \<open>float64\<close> is a real, a time the nanoseconds since 1970.
\<close>

section \<open>Records and thresholds\<close>

record probe_record =
  TS :: nanos
  Leg :: string
  From :: string
  To :: string
  Target :: string
  Summary :: summary

record thresholds =
  MaxJitterMs :: real
  MaxLossPct :: real
  MaxP99ExcessMs :: real
  MinRuns :: int
  MaxBreachPct :: real
  MinGainMs :: real

definition default_thresholds :: thresholds where
  "default_thresholds = \<lparr>MaxJitterMs = 10, MaxLossPct = 1 / 2, MaxP99ExcessMs = 30, MinRuns = 20, MaxBreachPct = 5, MinGainMs = 5\<rparr>"

text \<open>The sentences of the report, by what they state.\<close>

datatype reason =
    LegUnusable string | NoBaseline | Slower real real real | UnderMargin real real real real
  | JitterBreached real real real real | LossBreached real real real real | P99Breached real real real real
  | TooFewRuns int int

record candidate =
  VPS :: string
  ISP :: string
  Landmark :: string
  Runs :: int
  HasBaseline :: bool
  HasTunnel :: bool
  BaselineP50Ms :: real
  TunnelP50Ms :: real
  GainMs :: real
  WorstJitterMs :: real
  WorstLossPct :: real
  JitterBreachPct :: real
  LossBreachPct :: real
  P99BreachPct :: real
  Pass :: bool
  Reasons :: "reason list"

definition has_gain :: "candidate \<Rightarrow> bool" where
  "has_gain c \<longleftrightarrow> HasBaseline c \<and> HasTunnel c"

section \<open>Aggregates\<close>

record leg_samples =
  ls_p50 :: "real list"
  ls_jitter :: "real list"
  ls_p99excess :: "real list"
  ls_loss :: "real list"
  ls_runs :: int

definition no_samples :: leg_samples where
  "no_samples = \<lparr>ls_p50 = [], ls_jitter = [], ls_p99excess = [], ls_loss = [], ls_runs = 0\<rparr>"

definition add_run :: "leg_samples \<Rightarrow> probe_record \<Rightarrow> leg_samples" where
  "add_run l r =
     (let s = Summary r; l1 = l\<lparr>ls_loss := ls_loss l @ [LossPct s]\<rparr> in
      if Received s = 0 then l1
      else l1\<lparr>ls_p50 := ls_p50 l @ [P50Ms s], ls_jitter := ls_jitter l @ [JitterMs s],
             ls_p99excess := ls_p99excess l @ [P99Ms s - P50Ms s], ls_runs := ls_runs l + 1\<rparr>)"

definition vnOffsetSeconds :: int where "vnOffsetSeconds = 7 * 3600"

text \<open>The hour of the day in Vietnam.\<close>

definition vn_hour :: "nanos \<Rightarrow> int" where
  "vn_hour t = (t div second + vnOffsetSeconds) div 3600 mod 24"

definition in_window :: "int \<Rightarrow> int \<Rightarrow> probe_record \<Rightarrow> bool" where
  "in_window s e r \<longleftrightarrow> (let h = vn_hour (TS r) in h \<ge> s \<and> h < e)"

definition count_in_window :: "probe_record list \<Rightarrow> int \<Rightarrow> int \<Rightarrow> nat" where
  "count_in_window recs s e = length (filter (in_window s e) recs)"

type_synonym dedup_key = "nanos \<times> string \<times> string \<times> string"

definition dedup_key_of :: "probe_record \<Rightarrow> dedup_key" where
  "dedup_key_of r = (TS r, Leg r, From r, To r)"

text \<open>The maps of \<open>Evaluate\<close> while it reads the records; the keys of the two it iterates over, in the order
  they came.\<close>

record aggregates =
  ag_baseline :: "string \<times> string \<rightharpoonup> leg_samples"
  ag_legB :: "string \<times> string \<rightharpoonup> leg_samples"
  ag_legC :: "string \<times> string \<rightharpoonup> leg_samples"
  ag_pairs :: "(string \<times> string) list"
  ag_landmarks :: "string list"
  ag_seen :: "dedup_key set"
  ag_dupes :: nat

definition no_aggregates :: aggregates where
  "no_aggregates = \<lparr>ag_baseline = Map.empty, ag_legB = Map.empty, ag_legC = Map.empty, ag_pairs = [], ag_landmarks = [],
     ag_seen = {}, ag_dupes = 0\<rparr>"

definition note_key :: "'k \<Rightarrow> 'k list \<Rightarrow> 'k list" where
  "note_key k ks = (if k \<in> set ks then ks else ks @ [k])"

definition file_run :: "probe_record \<Rightarrow> (string \<times> string \<rightharpoonup> leg_samples) \<Rightarrow> string \<times> string \<rightharpoonup> leg_samples" where
  "file_run r m = (let k = (From r, To r) in m(k \<mapsto> add_run (case m k of None \<Rightarrow> no_samples | Some l \<Rightarrow> l) r))"

definition aggregate :: "int \<Rightarrow> int \<Rightarrow> aggregates \<Rightarrow> probe_record \<Rightarrow> aggregates" where
  "aggregate s e g r =
     (if \<not> in_window s e r then g
      else if dedup_key_of r \<in> ag_seen g then g\<lparr>ag_dupes := ag_dupes g + 1\<rparr>
      else
        let g1 = g\<lparr>ag_seen := insert (dedup_key_of r) (ag_seen g)\<rparr> in
        if Leg r = ''A'' then g1\<lparr>ag_landmarks := note_key (To r) (ag_landmarks g), ag_baseline := file_run r (ag_baseline g)\<rparr>
        else if Leg r = ''B'' then g1\<lparr>ag_pairs := note_key (From r, To r) (ag_pairs g), ag_legB := file_run r (ag_legB g)\<rparr>
        else if Leg r = ''C'' then g1\<lparr>ag_landmarks := note_key (To r) (ag_landmarks g), ag_legC := file_run r (ag_legC g)\<rparr>
        else g1)"

section \<open>Judging\<close>

definition median :: "real list \<Rightarrow> real" where
  "median xs = (if length xs = 0 then 0 else sort xs ! (length xs div 2))"

definition max_of :: "real list \<Rightarrow> real" where
  "max_of xs = foldl (\<lambda>m x. if x > m then x else m) 0 xs"

definition breach_pct :: "real list \<Rightarrow> real \<Rightarrow> real" where
  "breach_pct xs bar =
     (if length xs = 0 then 0 else real (length (filter (\<lambda>x. x \<ge> bar) xs)) / real (length xs) * 100)"

definition unusable :: "string \<Rightarrow> leg_samples \<Rightarrow> reason list" where
  "unusable name l = (if length (ls_p50 l) > 0 then [] else [LegUnusable name])"

definition judge :: "thresholds \<Rightarrow> string \<Rightarrow> string \<Rightarrow> string \<Rightarrow> leg_samples option \<Rightarrow> leg_samples \<Rightarrow> leg_samples \<Rightarrow> candidate" where
  "judge th isp vps lm a b c =
     (let runs1 = ls_runs b;
          runs2 = (if ls_runs c < runs1 then ls_runs c else runs1);
          runs = (case a of None \<Rightarrow> runs2 | Some a \<Rightarrow> if ls_runs a < runs2 then ls_runs a else runs2);
          dead = unusable ''B'' b @ unusable ''C'' c;
          tunnel = (if dead = [] then median (ls_p50 b) + median (ls_p50 c) else 0);
          worst_jitter = max (max_of (ls_jitter b)) (max_of (ls_jitter c));
          worst_loss = max (max_of (ls_loss b)) (max_of (ls_loss c));
          worst_p99 = max (max_of (ls_p99excess b)) (max_of (ls_p99excess c));
          no_base = (case a of None \<Rightarrow> [NoBaseline] | Some a \<Rightarrow> unusable ''A'' a);
          base = (case a of Some a \<Rightarrow> if no_base = [] then median (ls_p50 a) else 0 | None \<Rightarrow> 0);
          gain = (if no_base = [] \<and> dead = [] then base - tunnel else 0);
          slow =
            (if no_base = [] \<and> dead = [] then
               (if gain \<le> 0 then [Slower (- gain) tunnel base]
                else if gain < MinGainMs th then [UnderMargin gain tunnel base (MinGainMs th)] else [])
             else []);
          jitter = max (breach_pct (ls_jitter b) (MaxJitterMs th)) (breach_pct (ls_jitter c) (MaxJitterMs th));
          loss = max (breach_pct (ls_loss b) (MaxLossPct th)) (breach_pct (ls_loss c) (MaxLossPct th));
          p99 = max (breach_pct (ls_p99excess b) (MaxP99ExcessMs th)) (breach_pct (ls_p99excess c) (MaxP99ExcessMs th));
          reasons = dead @ no_base @ slow @
            (if jitter > MaxBreachPct th then [JitterBreached (MaxJitterMs th) jitter worst_jitter (MaxBreachPct th)] else []) @
            (if loss > MaxBreachPct th then [LossBreached (MaxLossPct th) loss worst_loss (MaxBreachPct th)] else []) @
            (if p99 > MaxBreachPct th then [P99Breached (MaxP99ExcessMs th) p99 worst_p99 (MaxBreachPct th)] else []) @
            (if runs < MinRuns th then [TooFewRuns runs (MinRuns th)] else [])
      in \<lparr>VPS = vps, ISP = isp, Landmark = lm, Runs = runs, HasBaseline = (no_base = []), HasTunnel = (dead = []),
          BaselineP50Ms = base, TunnelP50Ms = tunnel, GainMs = gain, WorstJitterMs = worst_jitter, WorstLossPct = worst_loss,
          JitterBreachPct = jitter, LossBreachPct = loss, P99BreachPct = p99, Pass = (length reasons = 0), Reasons = reasons\<rparr>)"

text \<open>The candidates, pair by pair and landmark by landmark; Go ranges over the two maps in an arbitrary order.\<close>

definition candidates :: "thresholds \<Rightarrow> aggregates \<Rightarrow> candidate list" where
  "candidates th g =
     concat (map (\<lambda>(isp, vps).
       List.map_filter (\<lambda>lm. case ag_legC g (vps, lm) of
           None \<Rightarrow> None
         | Some c \<Rightarrow> Some (judge th isp vps lm (ag_baseline g (isp, lm)) (the (ag_legB g (isp, vps))) c))
         (ag_landmarks g)) (ag_pairs g))"

definition listed_before :: "candidate \<Rightarrow> candidate \<Rightarrow> bool" where
  "listed_before x y =
     (if has_gain x \<noteq> has_gain y then has_gain x
      else if GainMs x \<noteq> GainMs y then GainMs x > GainMs y
      else VPS x < VPS y)"

text \<open>\<open>sort.Slice\<close> puts its input, in whatever order, into some order that respects \<open>less\<close>.\<close>

definition sorts :: "(candidate list \<Rightarrow> candidate list) \<Rightarrow> bool" where
  "sorts srt \<longleftrightarrow> (\<forall>xs. mset (srt xs) = mset xs \<and> sorted_wrt (\<lambda>x y. \<not> listed_before y x) (srt xs))"

definition evaluate ::
    "(candidate list \<Rightarrow> candidate list) \<Rightarrow> probe_record list \<Rightarrow> thresholds \<Rightarrow> int \<Rightarrow> int \<Rightarrow> candidate list \<times> nat" where
  "evaluate srt recs th s e =
     (let g = foldl (aggregate s e) no_aggregates recs in (srt (candidates th g), ag_dupes g))"

section \<open>The exit code of \<open>gnl-analyze\<close>\<close>

record analyze_flags =
  af_peakStart :: int
  af_peakEnd :: int
  af_minRuns :: int
  af_maxBreachPct :: real
  af_minGainMs :: real

text \<open>\<open>loaded\<close> is the file as \<open>probe.Load\<close> read it, \<open>None\<close> an error.\<close>

definition analyze_exit :: "(candidate list \<Rightarrow> candidate list) \<Rightarrow> analyze_flags \<Rightarrow> probe_record list option \<Rightarrow> nat" where
  "analyze_exit srt f loaded =
     (if af_peakStart f < 0 \<or> af_peakEnd f > 24 \<or> af_peakStart f \<ge> af_peakEnd f then 2
      else case loaded of
        None \<Rightarrow> 2
      | Some recs \<Rightarrow>
          if length recs = 0 then 2
          else
            let th = default_thresholds\<lparr>MinRuns := af_minRuns f, MaxBreachPct := af_maxBreachPct f, MinGainMs := af_minGainMs f\<rparr>;
                cands = fst (evaluate srt recs th (af_peakStart f) (af_peakEnd f))
            in if length cands = 0 then 2
               else if length (filter Pass cands) = 0 then 1 else 0)"

end
