(* ===== verification/Analyze_Props.thy ===== *)
theory Analyze_Props
  imports Analyze
begin

text \<open>
  What a verdict means in terms of the runs that were recorded.
\<close>

section \<open>The runs that count\<close>

text \<open>The records inside the window, each measurement once.\<close>

definition keep_run :: "int \<Rightarrow> int \<Rightarrow> probe_record list \<Rightarrow> probe_record \<Rightarrow> probe_record list" where
  "keep_run s e ks r = (if in_window s e r \<and> dedup_key_of r \<notin> dedup_key_of ` set ks then ks @ [r] else ks)"

definition kept :: "int \<Rightarrow> int \<Rightarrow> probe_record list \<Rightarrow> probe_record list" where
  "kept s e recs = foldl (keep_run s e) [] recs"

definition runs_of :: "string \<Rightarrow> string \<times> string \<Rightarrow> probe_record list \<Rightarrow> probe_record list" where
  "runs_of leg k rs = filter (\<lambda>r. Leg r = leg \<and> (From r, To r) = k) rs"

definition usable_run :: "probe_record \<Rightarrow> bool" where
  "usable_run r \<longleftrightarrow> Received (Summary r) \<noteq> 0"

definition samples_of :: "probe_record list \<Rightarrow> leg_samples option" where
  "samples_of rs = (if rs = [] then None else Some (foldl add_run no_samples rs))"

lemma kept_snoc: "kept s e (rs @ [r]) = keep_run s e (kept s e rs) r"
  by (simp add: kept_def)

lemma set_kept: "set (kept s e rs) \<subseteq> {r \<in> set rs. in_window s e r}" "dedup_key_of ` set (kept s e rs) = dedup_key_of ` {r \<in> set rs. in_window s e r}"
proof (induction rs rule: rev_induct)
  case (snoc r rs)
  { case 1 show ?case using snoc.IH by (auto simp: kept_snoc keep_run_def) }
  { case 2
    have "{x \<in> set (rs @ [r]). in_window s e x} = {x \<in> set rs. in_window s e x} \<union> (if in_window s e r then {r} else {})" by auto
    then show ?case using snoc.IH(2) by (auto simp: kept_snoc keep_run_def image_Un) }
qed (simp_all add: kept_def)

lemma runs_of_snoc: "runs_of leg k (rs @ [r]) = runs_of leg k rs @ (if Leg r = leg \<and> (From r, To r) = k then [r] else [])"
  by (simp add: runs_of_def)

lemma samples_of_snoc: "samples_of (rs @ [r]) = Some (add_run (case samples_of rs of None \<Rightarrow> no_samples | Some l \<Rightarrow> l) r)"
  by (simp add: samples_of_def)

lemma add_runs:
  fixes rs :: "probe_record list"
  defines "u \<equiv> filter usable_run rs" and "l \<equiv> foldl add_run no_samples rs"
  shows "ls_p50 l = map (\<lambda>r. P50Ms (Summary r)) u" "ls_jitter l = map (\<lambda>r. JitterMs (Summary r)) u"
    "ls_p99excess l = map (\<lambda>r. P99Ms (Summary r) - P50Ms (Summary r)) u" "ls_loss l = map (\<lambda>r. LossPct (Summary r)) rs"
    "ls_runs l = int (length u)"
proof -
  have "ls_p50 l = map (\<lambda>r. P50Ms (Summary r)) u \<and> ls_jitter l = map (\<lambda>r. JitterMs (Summary r)) u \<and>
    ls_p99excess l = map (\<lambda>r. P99Ms (Summary r) - P50Ms (Summary r)) u \<and> ls_loss l = map (\<lambda>r. LossPct (Summary r)) rs \<and>
    ls_runs l = int (length u)"
    unfolding u_def l_def
    by (induction rs rule: rev_induct) (simp_all add: no_samples_def add_run_def usable_run_def Let_def)
  then show "ls_p50 l = map (\<lambda>r. P50Ms (Summary r)) u" "ls_jitter l = map (\<lambda>r. JitterMs (Summary r)) u"
    "ls_p99excess l = map (\<lambda>r. P99Ms (Summary r) - P50Ms (Summary r)) u" "ls_loss l = map (\<lambda>r. LossPct (Summary r)) rs"
    "ls_runs l = int (length u)" by simp_all
qed

section \<open>The maps hold those runs\<close>

definition aggregated :: "probe_record list \<Rightarrow> aggregates \<Rightarrow> bool" where
  "aggregated ks g \<longleftrightarrow> ag_seen g = dedup_key_of ` set ks \<and>
     (\<forall>k. ag_baseline g k = samples_of (runs_of ''A'' k ks)) \<and> (\<forall>k. ag_legB g k = samples_of (runs_of ''B'' k ks)) \<and>
     (\<forall>k. ag_legC g k = samples_of (runs_of ''C'' k ks)) \<and>
     distinct (ag_pairs g) \<and> set (ag_pairs g) = {k. runs_of ''B'' k ks \<noteq> []} \<and>
     distinct (ag_landmarks g) \<and> set (ag_landmarks g) = {lm. \<exists>x. runs_of ''A'' (x, lm) ks \<noteq> [] \<or> runs_of ''C'' (x, lm) ks \<noteq> []}"

lemma note_key_simps [simp]: "distinct (note_key k ks) \<longleftrightarrow> distinct ks" "set (note_key k ks) = insert k (set ks)"
  by (auto simp: note_key_def)

lemma file_runs:
  assumes "\<forall>k. m k = samples_of (runs_of leg k ks)" "Leg r = leg"
  shows "file_run r m k = samples_of (runs_of leg k (ks @ [r]))"
  using assms by (cases k) (simp add: file_run_def Let_def runs_of_snoc samples_of_snoc)

lemma other_runs: "Leg r \<noteq> leg \<Longrightarrow> runs_of leg k (ks @ [r]) = runs_of leg k ks"
  by (simp add: runs_of_snoc)

lemma aggregate_step:
  assumes "aggregated ks g"
  shows "aggregated (keep_run s e ks r) (aggregate s e g r) \<and>
    ag_dupes (aggregate s e g r) = ag_dupes g + (if in_window s e r \<and> keep_run s e ks r = ks then 1 else 0)"
proof (cases "in_window s e r \<and> dedup_key_of r \<notin> dedup_key_of ` set ks")
  case False
  then show ?thesis using assms by (auto simp: keep_run_def aggregate_def aggregated_def)
next
  case True
  then have k: "keep_run s e ks r = ks @ [r]" by (simp add: keep_run_def)
  note I = assms [unfolded aggregated_def]
  have maps: "file_run r (ag_baseline g) k = samples_of (runs_of ''A'' k (ks @ [r]))" if "Leg r = ''A''" for k
    using I that by (intro file_runs) blast+
  have mapB: "file_run r (ag_legB g) k = samples_of (runs_of ''B'' k (ks @ [r]))" if "Leg r = ''B''" for k
    using I that by (intro file_runs) blast+
  have mapC: "file_run r (ag_legC g) k = samples_of (runs_of ''C'' k (ks @ [r]))" if "Leg r = ''C''" for k
    using I that by (intro file_runs) blast+
  have ne: "runs_of l k (ks @ [r]) \<noteq> [] \<longleftrightarrow> runs_of l k ks \<noteq> [] \<or> Leg r = l \<and> k = (From r, To r)" for l k
    by (auto simp: runs_of_snoc)
  consider "Leg r = ''A''" | "Leg r = ''B''" | "Leg r = ''C''" | "Leg r \<notin> {''A'', ''B'', ''C''}" by blast
  then show ?thesis
  proof cases
    case 1
    then show ?thesis using I True k maps unfolding aggregated_def k ne by (simp add: aggregate_def Let_def other_runs) blast
  next
    case 2
    then show ?thesis using I True k mapB unfolding aggregated_def k ne by (simp add: aggregate_def Let_def other_runs) blast
  next
    case 3
    then show ?thesis using I True k mapC unfolding aggregated_def k ne by (simp add: aggregate_def Let_def other_runs) blast
  next
    case 4
    then show ?thesis using I True k unfolding aggregated_def k ne by (simp add: aggregate_def Let_def other_runs)
  qed
qed

lemma aggregate_all: "aggregated (kept s e recs) (foldl (aggregate s e) no_aggregates recs)"
proof (induction recs rule: rev_induct)
  case Nil
  show ?case by (simp add: kept_def aggregated_def no_aggregates_def runs_of_def samples_of_def)
next
  case (snoc r recs)
  then show ?case using aggregate_step by (simp add: kept_snoc)
qed

section \<open>Passing\<close>

definition p50s :: "probe_record list \<Rightarrow> real list" where
  "p50s rs = map (\<lambda>r. P50Ms (Summary r)) (filter usable_run rs)"

definition steady :: "thresholds \<Rightarrow> probe_record list \<Rightarrow> bool" where
  "steady th rs \<longleftrightarrow>
     breach_pct (map (\<lambda>r. JitterMs (Summary r)) (filter usable_run rs)) (MaxJitterMs th) \<le> MaxBreachPct th \<and>
     breach_pct (map (\<lambda>r. LossPct (Summary r)) rs) (MaxLossPct th) \<le> MaxBreachPct th \<and>
     breach_pct (map (\<lambda>r. P99Ms (Summary r) - P50Ms (Summary r)) (filter usable_run rs)) (MaxP99ExcessMs th) \<le> MaxBreachPct th"

text \<open>The tunnel through two legs beats the route of the provider: enough usable runs on each of the three,
  a gain in the medians that is one, and both legs of the tunnel steady.\<close>

definition worth :: "thresholds \<Rightarrow> probe_record list \<Rightarrow> probe_record list \<Rightarrow> probe_record list \<Rightarrow> bool" where
  "worth th A B C \<longleftrightarrow>
     (\<forall>rs \<in> {A, B, C}. p50s rs \<noteq> [] \<and> MinRuns th \<le> int (length (p50s rs))) \<and>
     (let gain = median (p50s A) - (median (p50s B) + median (p50s C)) in 0 < gain \<and> MinGainMs th \<le> gain) \<and>
     steady th B \<and> steady th C"

lemma samples_of_Some:
  "samples_of rs = Some l \<Longrightarrow> rs \<noteq> [] \<and> ls_p50 l = p50s rs \<and> ls_runs l = int (length (p50s rs)) \<and>
     ls_jitter l = map (\<lambda>r. JitterMs (Summary r)) (filter usable_run rs) \<and>
     ls_p99excess l = map (\<lambda>r. P99Ms (Summary r) - P50Ms (Summary r)) (filter usable_run rs) \<and>
     ls_loss l = map (\<lambda>r. LossPct (Summary r)) rs"
  using add_runs [of rs] by (auto simp: samples_of_def p50s_def split: if_splits)

lemma if_Nil: "(if c then [x] else []) = [] \<longleftrightarrow> \<not> c"
  by simp

lemma judge_raw:
  "Pass (judge th isp vps lm (Some a) b c) \<longleftrightarrow>
     ls_p50 a \<noteq> [] \<and> ls_p50 b \<noteq> [] \<and> ls_p50 c \<noteq> [] \<and>
     (let gain = median (ls_p50 a) - (median (ls_p50 b) + median (ls_p50 c)) in 0 < gain \<and> MinGainMs th \<le> gain) \<and>
     (\<forall>l \<in> {b, c}. breach_pct (ls_jitter l) (MaxJitterMs th) \<le> MaxBreachPct th \<and> breach_pct (ls_loss l) (MaxLossPct th) \<le> MaxBreachPct th \<and>
        breach_pct (ls_p99excess l) (MaxP99ExcessMs th) \<le> MaxBreachPct th) \<and>
     (\<forall>l \<in> {a, b, c}. MinRuns th \<le> ls_runs l)"
proof -
  define gain where "gain = median (ls_p50 a) - (median (ls_p50 b) + median (ls_p50 c))"
  define runs where "runs = (if ls_runs a < (if ls_runs c < ls_runs b then ls_runs c else ls_runs b) then ls_runs a
        else if ls_runs c < ls_runs b then ls_runs c else ls_runs b)"
  have runs: "runs < MinRuns th \<longleftrightarrow> \<not> (\<forall>l \<in> {a, b, c}. MinRuns th \<le> ls_runs l)" by (auto simp: runs_def)
  have slow: "(if gain \<le> 0 then [x] else if gain < MinGainMs th then [y] else []) = [] \<longleftrightarrow> 0 < gain \<and> MinGainMs th \<le> gain" for x y :: reason
    by auto
  show ?thesis
  proof (cases "ls_p50 a = [] \<or> ls_p50 b = [] \<or> ls_p50 c = []")
    case True
    then show ?thesis by (elim disjE) (simp_all add: judge_def Let_def unusable_def)
  next
    case False
    then have u: "unusable n a = []" "unusable n b = []" "unusable n c = []" for n by (simp_all add: unusable_def)
    show ?thesis
      unfolding judge_def Let_def u option.case append_Nil gain_def [symmetric] runs_def [symmetric] candidate.select_convs length_0_conv
        append_is_Nil_conv if_Nil if_True simp_thms slow less_max_iff_disj runs
      using False by (auto simp: not_less)
  qed
qed

lemma judge_pass:
  assumes "samples_of B = Some b" "samples_of C = Some c"
  shows "Pass (judge th isp vps lm (samples_of A) b c) \<longleftrightarrow> worth th A B C"
proof (cases "samples_of A")
  case None
  then have "p50s A = []" by (simp add: samples_of_def p50s_def split: if_splits)
  then show ?thesis using None by (simp add: judge_def Let_def worth_def)
next
  case (Some a)
  note S = samples_of_Some [OF Some] samples_of_Some [OF assms(1)] samples_of_Some [OF assms(2)]
  show ?thesis unfolding Some judge_raw worth_def steady_def using S by (simp add: Let_def) blast
qed

lemma judge_names: "VPS (judge th isp vps lm a b c) = vps" "ISP (judge th isp vps lm a b c) = isp" "Landmark (judge th isp vps lm a b c) = lm"
  by (simp_all add: judge_def Let_def)

section \<open>Who is judged\<close>

lemma in_candidates:
  assumes "aggregated ks g"
  shows "c \<in> set (candidates th g) \<longleftrightarrow> (\<exists>isp vps lm b cc. samples_of (runs_of ''B'' (isp, vps) ks) = Some b \<and>
    samples_of (runs_of ''C'' (vps, lm) ks) = Some cc \<and> c = judge th isp vps lm (samples_of (runs_of ''A'' (isp, lm) ks)) b cc)"
proof -
  have maps: "ag_baseline g k = samples_of (runs_of ''A'' k ks)" "ag_legB g k = samples_of (runs_of ''B'' k ks)"
    "ag_legC g k = samples_of (runs_of ''C'' k ks)" for k using assms unfolding aggregated_def by blast+
  have pairs: "(isp, vps) \<in> set (ag_pairs g) \<longleftrightarrow> (\<exists>b. samples_of (runs_of ''B'' (isp, vps) ks) = Some b)" for isp vps
    using assms by (simp add: aggregated_def samples_of_def)
  have lms: "lm \<in> set (ag_landmarks g)" if "samples_of (runs_of ''C'' (vps, lm) ks) = Some cc" for vps lm cc
  proof -
    have "runs_of ''C'' (vps, lm) ks \<noteq> []" using that by (simp add: samples_of_def split: if_splits)
    moreover have "set (ag_landmarks g) = {lm. \<exists>x. runs_of ''A'' (x, lm) ks \<noteq> [] \<or> runs_of ''C'' (x, lm) ks \<noteq> []}"
      using assms by (simp add: aggregated_def)
    ultimately show ?thesis by blast
  qed
  have opt: "(case x of None \<Rightarrow> None | Some y \<Rightarrow> Some (h y)) = Some c \<longleftrightarrow> (\<exists>y. x = Some y \<and> c = h y)" for x and h :: "leg_samples \<Rightarrow> candidate"
    by (cases x) auto
  have "c \<in> set (candidates th g) \<longleftrightarrow> (\<exists>(isp, vps) \<in> set (ag_pairs g). \<exists>lm \<in> set (ag_landmarks g).
      (case ag_legC g (vps, lm) of None \<Rightarrow> None
         | Some cc \<Rightarrow> Some (judge th isp vps lm (ag_baseline g (isp, lm)) (the (ag_legB g (isp, vps))) cc)) = Some c)"
    by (simp add: candidates_def map_filter_set_iff split_def)
  also have "\<dots> \<longleftrightarrow> (\<exists>isp vps. (isp, vps) \<in> set (ag_pairs g) \<and> (\<exists>lm \<in> set (ag_landmarks g). \<exists>cc. ag_legC g (vps, lm) = Some cc \<and>
      c = judge th isp vps lm (ag_baseline g (isp, lm)) (the (ag_legB g (isp, vps))) cc))"
    unfolding opt by auto
  finally show ?thesis unfolding maps pairs using lms by (metis option.sel)
qed

lemma evaluate_candidates:
  assumes "sorts srt"
  shows "c \<in> set (fst (evaluate srt recs th s e)) \<longleftrightarrow> (\<exists>isp vps lm b cc. samples_of (runs_of ''B'' (isp, vps) (kept s e recs)) = Some b \<and>
    samples_of (runs_of ''C'' (vps, lm) (kept s e recs)) = Some cc \<and>
    c = judge th isp vps lm (samples_of (runs_of ''A'' (isp, lm) (kept s e recs))) b cc)"
proof -
  have "mset (srt xs) = mset xs" for xs using assms by (simp add: sorts_def)
  then have "set (srt xs) = set xs" for xs by (rule mset_eq_setD)
  then show ?thesis using in_candidates [OF aggregate_all] by (simp add: evaluate_def Let_def)
qed


lemma repeated_runs:
  "\<forall>d \<in> set ds. in_window s e d \<longrightarrow> dedup_key_of d \<in> ag_seen g \<Longrightarrow>
   foldl (aggregate s e) g ds = g\<lparr>ag_dupes := ag_dupes g + count_in_window ds s e\<rparr>"
proof (induction ds arbitrary: g)
  case (Cons d ds)
  have "aggregate s e g d = (if in_window s e d then g\<lparr>ag_dupes := ag_dupes g + 1\<rparr> else g)"
    using Cons.prems by (simp add: aggregate_def)
  then show ?case using Cons by (simp add: count_in_window_def)
qed (simp add: count_in_window_def)

lemma candidates_dupes: "candidates th (g\<lparr>ag_dupes := n\<rparr>) = candidates th g"
  by (simp add: candidates_def cong: option.case_cong)

text \<open>Collecting a file twice, or any run already read, changes no judgement: the candidates are the same, and
  every repeated record inside the window is counted as a duplicate.\<close>

theorem collected_twice_harmless:
  assumes "\<forall>d \<in> set ds. in_window s e d \<longrightarrow> (\<exists>r \<in> set recs. in_window s e r \<and> dedup_key_of r = dedup_key_of d)"
  shows "evaluate srt (recs @ ds) th s e = (fst (evaluate srt recs th s e), snd (evaluate srt recs th s e) + count_in_window ds s e)"
proof -
  let ?g = "foldl (aggregate s e) no_aggregates recs"
  have seen: "ag_seen ?g = dedup_key_of ` {r \<in> set recs. in_window s e r}"
    using aggregate_all [of s e recs] set_kept(2) [of s e recs] by (simp add: aggregated_def)
  have "foldl (aggregate s e) ?g ds = ?g\<lparr>ag_dupes := ag_dupes ?g + count_in_window ds s e\<rparr>"
  proof (rule repeated_runs, intro ballI impI)
    fix d assume "d \<in> set ds" "in_window s e d"
    then obtain r where "r \<in> set recs" "in_window s e r" "dedup_key_of r = dedup_key_of d" using assms by blast
    then show "dedup_key_of d \<in> ag_seen ?g" unfolding seen by (metis (mono_tags, lifting) image_eqI mem_Collect_eq)
  qed
  then show ?thesis by (simp add: evaluate_def Let_def candidates_dupes)
qed

text \<open>A sort, and a campaign of one run on each leg at 20:00.\<close>

definition by_gain :: "candidate list \<Rightarrow> candidate list" where
  "by_gain = sort_key (\<lambda>c. (\<not> has_gain c, - GainMs c, VPS c))"

lemma by_gain_sorts: "sorts by_gain"
proof -
  let ?key = "\<lambda>c. (\<not> has_gain c, - GainMs c, VPS c)"
  have "\<not> listed_before y x" if "?key x \<le> ?key y" for x y
    using that by (auto simp: listed_before_def less_eq_prod_def not_less split: if_splits)
  moreover have "sorted_wrt (\<lambda>x y. ?key x \<le> ?key y) (by_gain xs)" for xs
    using sorted_sort_key [of ?key xs] by (simp add: by_gain_def sorted_map)
  ultimately have "sorted_wrt (\<lambda>x y. \<not> listed_before y x) (by_gain xs)" for xs
    by (metis (mono_tags, lifting) sorted_wrt_mono_rel)
  then show ?thesis by (simp add: sorts_def by_gain_def)
qed

definition sample_record :: "string \<Rightarrow> string \<Rightarrow> string \<Rightarrow> real \<Rightarrow> probe_record" where
  "sample_record leg f t p50 = \<lparr>TS = 13 * 3600 * second, Leg = leg, From = f, To = t, Target = ''203.0.113.10:51830'',
     Summary = \<lparr>Sent = 1200, Received = 1200, LossPct = 0, P50Ms = p50, P95Ms = p50 + 1, P99Ms = p50 + 2, JitterMs = 1\<rparr>\<rparr>"

definition sample_campaign :: "probe_record list" where
  "sample_campaign = [sample_record ''A'' ''viettel'' ''sg'' 100, sample_record ''B'' ''viettel'' ''vps'' 40, sample_record ''C'' ''vps'' ''sg'' 40]"

definition sample_flags :: analyze_flags where
  "sample_flags = \<lparr>af_peakStart = 20, af_peakEnd = 22, af_minRuns = 1, af_maxBreachPct = 5, af_minGainMs = 5\<rparr>"

lemma sample_in_window: "in_window 20 22 (sample_record leg f t p)"
  by (simp add: in_window_def vn_hour_def vnOffsetSeconds_def sample_record_def Let_def)


lemma collected_twice_harmless_witness:
  "evaluate by_gain (sample_campaign @ sample_campaign) default_thresholds 20 22 =
     (fst (evaluate by_gain sample_campaign default_thresholds 20 22), snd (evaluate by_gain sample_campaign default_thresholds 20 22) + 3)"
proof -
  have "\<forall>d \<in> set sample_campaign. in_window 20 22 d \<longrightarrow> (\<exists>r \<in> set sample_campaign. in_window 20 22 r \<and> dedup_key_of r = dedup_key_of d)" by blast
  moreover have "count_in_window sample_campaign 20 22 = 3" by (simp add: count_in_window_def sample_campaign_def sample_in_window)
  ultimately show ?thesis using collected_twice_harmless [of sample_campaign 20 22 sample_campaign by_gain default_thresholds] by simp
qed

end
