(* ===== verification/Publish.thy ===== *)
theory Publish
  imports Profile_Props Store_Evidence
begin

text \<open>
  \<open>internal/profile/sources.go\<close> and \<open>gnl-profile\<close>: the published ranges a profile is checked against,
  and the run that builds a profile from the stored evidence and publishes it. The fetcher, the JSON
  decoders and \<open>strings.ToLower\<close> are parameters.
\<close>

section \<open>Published ranges\<close>

record aws_range =
  IPPrefix :: string
  aws_Region :: string
  Service :: string

record azure_tag =
  az_Region :: string
  SystemService :: string
  AddressPrefixes :: "string list"

datatype source_error = Unparseable | NothingForRegions "string list" | NothingAnnounced int

definition v4_prefix :: "string \<Rightarrow> prefix option" where
  "v4_prefix s = (case parse_prefix s of None \<Rightarrow> None | Some p \<Rightarrow> if is4 (pfx_addr p) then Some p else None)"

definition aws_source :: "string list \<Rightarrow> aws_range \<Rightarrow> source option" where
  "aws_source regions p =
     (let anycast = (Service p = ''GLOBAL_ACCELERATOR'') in
      if \<not> anycast \<and> aws_Region p \<notin> set regions then None
      else if \<not> anycast \<and> Service p \<noteq> ''EC2'' then None
      else map_option (\<lambda>pfx. \<lparr>src_prefix = pfx, src_region = aws_Region p, src_anycast = anycast\<rparr>) (v4_prefix (IPPrefix p)))"

definition aws_sources :: "('b \<Rightarrow> aws_range list option) \<Rightarrow> 'b \<Rightarrow> string list \<Rightarrow> source_error + source list" where
  "aws_sources decode body regions =
     (case decode body of
        None \<Rightarrow> Inl Unparseable
      | Some doc \<Rightarrow>
          let out = List.map_filter (aws_source regions) doc;
              regional = length (filter (\<lambda>s. \<not> src_anycast s) out)
          in if regional = 0 then Inl (NothingForRegions regions) else Inr out)"

definition azure_tag_sources :: "(string \<Rightarrow> string) \<Rightarrow> string list \<Rightarrow> azure_tag \<Rightarrow> source list" where
  "azure_tag_sources lower regions v =
     (let region = lower (az_Region v) in
      if region \<notin> lower ` set regions then []
      else if SystemService v \<noteq> [] then []
      else map (\<lambda>pfx. \<lparr>src_prefix = pfx, src_region = region, src_anycast = False\<rparr>) (List.map_filter v4_prefix (AddressPrefixes v)))"

definition azure_sources ::
    "(string \<Rightarrow> string) \<Rightarrow> ('b \<Rightarrow> azure_tag list option) \<Rightarrow> 'b \<Rightarrow> string list \<Rightarrow> source_error + source list" where
  "azure_sources lower decode body regions =
     (case decode body of
        None \<Rightarrow> Inl Unparseable
      | Some doc \<Rightarrow>
          let out = concat (map (azure_tag_sources lower regions) doc)
          in if length out = 0 then Inl (NothingForRegions regions) else Inr out)"

definition asn_sources :: "('b \<Rightarrow> string list option) \<Rightarrow> 'b \<Rightarrow> int \<Rightarrow> source_error + source list" where
  "asn_sources decode body asn =
     (case decode body of
        None \<Rightarrow> Inl Unparseable
      | Some doc \<Rightarrow>
          let out = map (\<lambda>pfx. \<lparr>src_prefix = pfx, src_region = ''as'' @ dec_int asn, src_anycast = False\<rparr>) (List.map_filter v4_prefix doc)
          in if length out = 0 then Inl (NothingAnnounced asn) else Inr out)"

section \<open>Gathering\<close>

definition AWSRangesURL :: string where "AWSRangesURL = ''https://ip-ranges.amazonaws.com/ip-ranges.json''"

definition ripe_url :: "int \<Rightarrow> string" where
  "ripe_url asn = ''https://stat.ripe.net/data/announced-prefixes/data.json?resource=AS'' @ dec_int asn"

definition split_flag :: "string \<Rightarrow> string list" where
  "split_flag s = (if s = [] then [] else filter (\<lambda>p. p \<noteq> []) (map trim_space (split_on (CHR '','') s)))"

text \<open>\<open>fmt.Sscanf\<close> with \<open>%d\<close> on a trimmed string: a sign, digits, and whatever follows.\<close>

definition scan_int :: "string \<Rightarrow> int option" where
  "scan_int s =
     (let (neg, u) = (case s of [] \<Rightarrow> (False, []) | c # cs \<Rightarrow>
            if c = CHR ''-'' then (True, cs) else if c = CHR ''+'' then (False, cs) else (False, s));
          ds = takeWhile is_digit u; v = int (digits_val ds)
      in if ds = [] then None
         else if neg then (if v > 2 ^ 63 then None else Some (- v))
         else if v \<ge> 2 ^ 63 then None else Some v)"

record 'b range_feeds =
  fetch :: "string \<Rightarrow> 'b option"
  dec_aws :: "'b \<Rightarrow> aws_range list option"
  dec_azure :: "'b \<Rightarrow> azure_tag list option"
  dec_ripe :: "'b \<Rightarrow> string list option"
  to_lower :: "string \<Rightarrow> string"

datatype gather_error = FetchFailed string | SourceFailed source_error | NoAzureURL | BadASN string

fun gather_asns :: "'b range_feeds \<Rightarrow> string list \<Rightarrow> gather_error + source list" where
  "gather_asns fd [] = Inr []"
| "gather_asns fd (a # as) =
     (case scan_int a of
        None \<Rightarrow> Inl (BadASN a)
      | Some asn \<Rightarrow>
          (case fetch fd (ripe_url asn) of
             None \<Rightarrow> Inl (FetchFailed (ripe_url asn))
           | Some body \<Rightarrow>
               (case asn_sources (dec_ripe fd) body asn of
                  Inl e \<Rightarrow> Inl (SourceFailed e)
                | Inr s \<Rightarrow> (case gather_asns fd as of Inl e \<Rightarrow> Inl e | Inr rest \<Rightarrow> Inr (s @ rest)))))"

definition gather_aws :: "'b range_feeds \<Rightarrow> string \<Rightarrow> gather_error + source list" where
  "gather_aws fd regions =
     (if regions = [] then Inr []
      else case fetch fd AWSRangesURL of
        None \<Rightarrow> Inl (FetchFailed AWSRangesURL)
      | Some body \<Rightarrow> (case aws_sources (dec_aws fd) body (split_flag regions) of Inl e \<Rightarrow> Inl (SourceFailed e) | Inr s \<Rightarrow> Inr s))"

definition gather_azure :: "'b range_feeds \<Rightarrow> string \<Rightarrow> string \<Rightarrow> gather_error + source list" where
  "gather_azure fd regions url =
     (if regions = [] then Inr []
      else if url = [] then Inl NoAzureURL
      else case fetch fd url of
        None \<Rightarrow> Inl (FetchFailed url)
      | Some body \<Rightarrow>
          (case azure_sources (to_lower fd) (dec_azure fd) body (split_flag regions) of Inl e \<Rightarrow> Inl (SourceFailed e) | Inr s \<Rightarrow> Inr s))"

definition gather_sources :: "'b range_feeds \<Rightarrow> string \<Rightarrow> string \<Rightarrow> string \<Rightarrow> string \<Rightarrow> gather_error + source list" where
  "gather_sources fd aws azure azure_url asns =
     (case gather_aws fd aws of
        Inl e \<Rightarrow> Inl e
      | Inr s1 \<Rightarrow>
          (case gather_azure fd azure azure_url of
             Inl e \<Rightarrow> Inl e
           | Inr s2 \<Rightarrow>
               (case gather_asns fd (split_flag asns) of Inl e \<Rightarrow> Inl e | Inr s3 \<Rightarrow> Inr (s1 @ s2 @ s3))))"

section \<open>Building and publishing\<close>

record profile_flags =
  pf_dsn :: string
  pf_game :: string
  pf_aws :: string
  pf_azure :: string
  pf_azureURL :: string
  pf_asns :: string
  pf_minReporters :: int
  pf_publish :: bool

datatype profile_end =
    FlagsMissing | DatabaseUnreachable | CandidatesUnread store_error | NothingReported | SourcesFailed gather_error
  | BuildRefused profile_error | Shown profile_result | PublishFailed store_error | Published int profile_result

definition profile_run ::
    "'b range_feeds \<Rightarrow> bool \<Rightarrow> db_env \<Rightarrow> profile_flags \<Rightarrow> db \<Rightarrow> db \<times> profile_end" where
  "profile_run fd opened env f db =
     (if pf_dsn f = [] \<or> pf_game f = [] then (db, FlagsMissing)
      else if \<not> opened then (db, DatabaseUnreachable)
      else case candidate_addresses env (pf_game f) (pf_minReporters f) db of
        Inl e \<Rightarrow> (db, CandidatesUnread e)
      | Inr candidates \<Rightarrow>
          if length candidates = 0 then (db, NothingReported)
          else
            (case gather_sources fd (pf_aws f) (pf_azure f) (pf_azureURL f) (pf_asns f) of
               Inl e \<Rightarrow> (db, SourcesFailed e)
             | Inr sources \<Rightarrow>
                 (case build (List.map_filter parse_addr candidates) sources default_options of
                    Inl e \<Rightarrow> (db, BuildRefused e)
                  | Inr res \<Rightarrow>
                      if \<not> pf_publish f then (db, Shown res)
                      else
                        (case publish_profile env (CIDRs res) db of
                           (db', Inl e) \<Rightarrow> (db', PublishFailed e)
                         | (db', Inr version) \<Rightarrow> (db', Published version res)))))"


section \<open>What a run publishes\<close>

lemma same_block:
  assumes "w \<in> cov (Prefix (V4 a) n)" "n \<le> 32" "k \<le> n"
  shows "drop_bit (32 - k) w = drop_bit (32 - k) a"
proof -
  have "unat w div 2 ^ (32 - n) = unat a div 2 ^ (32 - n)"
    using assms mem_cov [of "Prefix (V4 a) n" w] by (simp add: blk_def hostb_def)
  moreover have "(2 :: nat) ^ (32 - k) = 2 ^ (32 - n) * 2 ^ (n - k)"
    using assms by (simp flip: power_add)
  ultimately have "unat w div 2 ^ (32 - k) = unat a div 2 ^ (32 - k)" by (simp add: div_mult2_eq)
  moreover have "unat (drop_bit n v) = unat v div 2 ^ n" for v :: "32 word" and n
    using unat_drop_bit_eq [of n v] drop_bit_eq_div [of n "unat v"] by (rule trans)
  ultimately show ?thesis by (simp only: word_unat_eq_iff)
qed

lemma reach_near:
  assumes "w \<in> reach_of width s a" "source_of a sources = Some s" "20 \<le> width" "width \<le> 32"
  shows "drop_bit 12 w = drop_bit 12 a"
proof (cases "src_anycast s")
  case True
  then show ?thesis using assms(1) by (simp add: reach_of_def)
next
  case False
  have "pfx_bits (src_prefix s) \<le> 32" by (rule v4p_bits [OF source_of_SomeD(3) [OF assms(2)]])
  then have "drop_bit (32 - 20) w = drop_bit (32 - 20) a"
    using assms False by (intro same_block [where n = "nat (max (int (pfx_bits (src_prefix s))) width)"])
      (simp_all add: reach_of_def)
  then show ?thesis by simp
qed

lemma routed_evidence:
  assumes "build observed sources default_options = Inr res"
  shows "routed (CIDRs res) \<subseteq> (\<Union>s \<in> set sources. cov (src_prefix s))"
    "\<forall>w \<in> routed (CIDRs res). \<exists>a. V4 a \<in> set observed \<and> drop_bit 12 w = drop_bit 12 a"
proof -
  have n: "NarrowestPrefixWidth default_options \<le> 32" by (simp add: default_options_def)
  note b = build_routed [OF assms n]
  have width: "20 \<le> AppliedWidth res" "AppliedWidth res \<le> 32"
    using b(2,3) by (simp_all add: default_options_def)
  have near: "\<exists>a s. V4 a \<in> set observed \<and> source_of a sources = Some s \<and> w \<in> reach_of (AppliedWidth res) s a"
    if "w \<in> routed (CIDRs res)" for w
    using that unfolding b(1) by (auto split: option.splits)
  show "routed (CIDRs res) \<subseteq> (\<Union>s \<in> set sources. cov (src_prefix s))"
  proof
    fix w assume "w \<in> routed (CIDRs res)"
    then obtain a s where s: "source_of a sources = Some s" "w \<in> reach_of (AppliedWidth res) s a" using near by blast
    then have "w \<in> cov (src_prefix s)" using reach_in_source(2) [OF s(1) width(2)] by blast
    then show "w \<in> (\<Union>s \<in> set sources. cov (src_prefix s))" using source_of_SomeD(1) [OF s(1)] by blast
  qed
  show "\<forall>w \<in> routed (CIDRs res). \<exists>a. V4 a \<in> set observed \<and> drop_bit 12 w = drop_bit 12 a"
    using near reach_near [OF _ _ width] by meson
qed

text \<open>A run that ends as published went through every stage.\<close>

lemma profile_run_published:
  assumes "profile_run fd opened env f db = (db', Published v res)"
  obtains candidates sources where
    "candidate_addresses env (pf_game f) (pf_minReporters f) db = Inr candidates"
    "gather_sources fd (pf_aws f) (pf_azure f) (pf_azureURL f) (pf_asns f) = Inr sources"
    "build (List.map_filter parse_addr candidates) sources default_options = Inr res"
    "publish_profile env (CIDRs res) db = (db', Inr v)" "pf_publish f"
  using assms by (auto simp: profile_run_def split: if_splits sum.splits prod.splits)

lemma profile_run_other:
  assumes "profile_run fd opened env f db = (db', r)" "\<forall>v res. r \<noteq> Published v res"
  shows "db' = db"
proof -
  have "d = db" if "publish_profile env cidrs db = (d, Inl e)" for cidrs d e
    using publish_becomes_current [OF that] by blast
  then show ?thesis using assms by (auto simp: profile_run_def split: if_splits sum.splits prod.splits)
qed

text \<open>C11. A run of \<open>gnl-profile\<close> changes the database only by publishing, and only when asked to. What
  it publishes is not empty, is served from then on, lies inside the gathered published ranges, and
  routes nothing that is not in the /20 of an address which the required number of independent
  contributors in good standing reported for the game.\<close>

theorem published_on_evidence:
  "case profile_run fd opened env f db of
     (db', Published v res) \<Rightarrow>
       pf_publish f \<and> CIDRs res \<noteq> [] \<and>
       (\<forall>env'. \<not> fails env' ''read profile'' \<longrightarrow> get_profile env' db' = Inr \<lparr>pr_version = v, pr_cidrs = CIDRs res\<rparr>) \<and>
       (\<exists>sources. gather_sources fd (pf_aws f) (pf_azure f) (pf_azureURL f) (pf_asns f) = Inr sources \<and>
          routed (CIDRs res) \<subseteq> (\<Union>s \<in> set sources. cov (src_prefix s))) \<and>
       (\<forall>w \<in> routed (CIDRs res). \<exists>a ip. parse_addr ip = Some (V4 a) \<and> drop_bit 12 w = drop_bit 12 a \<and>
          reporters db (pf_game f) ip \<noteq> {} \<and> pf_minReporters f \<le> int (card (reporters db (pf_game f) ip)))
   | (db', _) \<Rightarrow> db' = db"
proof (cases "profile_run fd opened env f db")
  case (Pair db' r)
  show ?thesis
  proof (cases "\<exists>v res. r = Published v res")
    case False
    then have "db' = db" using profile_run_other [OF Pair] by blast
    then show ?thesis using False by (cases r) (simp_all add: Pair)
  next
    case True
    then obtain v res where r: "r = Published v res" by blast
    obtain candidates sources where c: "candidate_addresses env (pf_game f) (pf_minReporters f) db = Inr candidates"
      and s: "gather_sources fd (pf_aws f) (pf_azure f) (pf_azureURL f) (pf_asns f) = Inr sources"
      and b: "build (List.map_filter parse_addr candidates) sources default_options = Inr res"
      and p: "publish_profile env (CIDRs res) db = (db', Inr v)" and f: "pf_publish f"
      using profile_run_published Pair r by metis
    have served: "CIDRs res \<noteq> []"
      "\<forall>env'. \<not> fails env' ''read profile'' \<longrightarrow> get_profile env' db' = Inr \<lparr>pr_version = v, pr_cidrs = CIDRs res\<rparr>"
      using publish_becomes_current [OF p] by blast+
    have ip: "reporters db (pf_game f) ip \<noteq> {} \<and> pf_minReporters f \<le> int (card (reporters db (pf_game f) ip))"
      if "ip \<in> set candidates" for ip
      using candidates_count_contributors [THEN conjunct1, rule_format, OF c] that by blast
    have near: "\<exists>a ip. parse_addr ip = Some (V4 a) \<and> drop_bit 12 w = drop_bit 12 a \<and>
          reporters db (pf_game f) ip \<noteq> {} \<and> pf_minReporters f \<le> int (card (reporters db (pf_game f) ip))"
      if w: "w \<in> routed (CIDRs res)" for w
    proof -
      obtain a where a: "V4 a \<in> set (List.map_filter parse_addr candidates)" "drop_bit 12 w = drop_bit 12 a"
        using routed_evidence(2) [OF b] w by blast
      then obtain i where "i \<in> set candidates" "parse_addr i = Some (V4 a)" by (auto simp: map_filter_set_iff)
      then show ?thesis using a ip by blast
    qed
    have inside: "\<exists>sources. gather_sources fd (pf_aws f) (pf_azure f) (pf_azureURL f) (pf_asns f) = Inr sources \<and>
          routed (CIDRs res) \<subseteq> (\<Union>s \<in> set sources. cov (src_prefix s))"
      using s routed_evidence(1) [OF b] by blast
    show ?thesis unfolding Pair r prod.case profile_end.case
      by (intro conjI ballI f served inside near)
  qed
qed

text \<open>One contributor reported one address in an EC2 block; a run asking for one reporter publishes its
  /20.\<close>

definition sample_feeds :: "aws_range list range_feeds" where
  "sample_feeds = \<lparr>fetch = (\<lambda>url. if url = AWSRangesURL
       then Some [\<lparr>IPPrefix = ''13.32.0.0/16'', aws_Region = ''ap-southeast-1'', Service = ''EC2''\<rparr>] else None),
     dec_aws = Some, dec_azure = (\<lambda>_. None), dec_ripe = (\<lambda>_. None), to_lower = (\<lambda>s. s)\<rparr>"

definition sample_flags :: profile_flags where
  "sample_flags = \<lparr>pf_dsn = ''db'', pf_game = ''cs'', pf_aws = ''ap-southeast-1'', pf_azure = [], pf_azureURL = [],
     pf_asns = [], pf_minReporters = 1, pf_publish = True\<rparr>"

definition sample_seen :: db where
  "sample_seen = fst (record_observation sample_H (sample_env 51) sample_key ''cs'' ''13.32.1.5'' 27015 sample_db)"

theorem published_on_evidence_witness:
  "snd (profile_run sample_feeds True (sample_env 60) sample_flags sample_seen) =
     Published 1 \<lparr>CIDRs = [''13.32.0.0/20''], Unverified = [], AppliedWidth = 20, TotalAddresses = 4096\<rparr> \<and>
   get_profile (sample_env 70) (fst (profile_run sample_feeds True (sample_env 60) sample_flags sample_seen)) =
     Inr \<lparr>pr_version = 1, pr_cidrs = [''13.32.0.0/20'']\<rparr>"
proof -
  let ?run = "profile_run sample_feeds True (sample_env 60) sample_flags sample_seen"
  have r: "snd ?run = Published 1 \<lparr>CIDRs = [''13.32.0.0/20''], Unverified = [], AppliedWidth = 20, TotalAddresses = 4096\<rparr>"
    by code_simp
  then obtain d where e: "?run = (d, Published 1 \<lparr>CIDRs = [''13.32.0.0/20''], Unverified = [], AppliedWidth = 20, TotalAddresses = 4096\<rparr>)"
    by (cases ?run) simp
  have "\<not> fails (sample_env 70) ''read profile''" by (simp add: sample_env_def)
  then show ?thesis
    using published_on_evidence [where fd = sample_feeds and opened = True and env = "sample_env 60" and f = sample_flags and db = sample_seen,
        unfolded e prod.case profile_end.case]
    by (simp add: e)
qed

end
