(* ===== verification/Relaycheck.thy ===== *)
theory Relaycheck
  imports Store_Props
begin

text \<open>
  \<open>cmd/gnl-relaycheck/main.go\<close>: the check, from outside, of whether a relay's WireGuard port can be reached, and
  the report of its verdict. The kernel is the state \<open>'s\<close>; \<open>ip\<close>, wgctrl, the resolver and the HTTP client are
  parameters.
\<close>

section \<open>What the check calls\<close>

record check_flags =
  ck_endpoint :: string
  ck_pubkey :: string
  ck_iface :: string
  ck_wait :: nanos
  ck_control :: string
  ck_key :: string

datatype post_reply = NotBuilt | NotReached | Status nat

record 's check_env =
  ce_resolves :: "string \<Rightarrow> bool"
  ce_parses :: "string \<Rightarrow> bool"
  ce_generates :: bool
  ce_ip :: "string list \<Rightarrow> 's \<Rightarrow> 's \<times> bool"
  ce_wgctrl :: bool
  ce_configure :: "string \<Rightarrow> string \<Rightarrow> string \<Rightarrow> 's \<Rightarrow> 's \<times> bool"
  ce_post :: "string \<Rightarrow> reachability_report \<Rightarrow> post_reply"
  ce_duration :: "nanos \<Rightarrow> string"

section \<open>The check\<close>

text \<open>One round of waiting: the clock, and the handshake times of the device's peers if it could be read, \<open>None\<close>
  the zero time.\<close>

type_synonym check_round = "nanos \<times> nanos option list option"

fun check_rounds :: "nanos \<Rightarrow> check_round list \<Rightarrow> bool option" where
  "check_rounds deadline [] = None"
| "check_rounds deadline ((t, dev) # rs) =
     (if \<not> t < deadline then Some False
      else case dev of
        None \<Rightarrow> check_rounds deadline rs
      | Some peers \<Rightarrow> if \<exists>p \<in> set peers. p \<noteq> None then Some True else check_rounds deadline rs)"

definition report_url :: "string \<Rightarrow> string" where
  "report_url control = trim_suffix ''/'' control @ ''/v1/relay/reachability''"

text \<open>The request sent, if one is, and whether the tool says it was reported.\<close>

definition report_check ::
    "'s check_env \<Rightarrow> check_flags \<Rightarrow> bool \<Rightarrow> string \<Rightarrow> (string \<times> reachability_report) list \<times> bool" where
  "report_check env f ok detail =
     (if ck_control f = [] then ([], False)
      else
        let url = report_url (ck_control f);
            body = \<lparr>rr_contributor_key = ck_key f, rr_relay_public_key = ck_pubkey f, rr_reachable = ok, rr_detail = detail\<rparr>
        in case ce_post env url body of
             NotBuilt \<Rightarrow> ([], False)
           | NotReached \<Rightarrow> ([(url, body)], False)
           | Status c \<Rightarrow> ([(url, body)], c div 100 = 2))"

datatype check_end = Exited nat | StillWaiting

text \<open>The checks before anything is touched, and the temporary interface. Every way out is \<open>os.Exit\<close>, which runs
  no deferred call: the one that deletes the interface is never made.\<close>

definition check_ready :: "'s check_env \<Rightarrow> check_flags \<Rightarrow> bool" where
  "check_ready env f \<longleftrightarrow> \<not> (ck_control f \<noteq> [] \<and> ck_key f = []) \<and> \<not> (ck_endpoint f = [] \<or> ck_pubkey f = []) \<and>
     ce_resolves env (ck_endpoint f) \<and> ce_parses env (ck_pubkey f) \<and> ce_generates env"

definition check_setup :: "'s check_env \<Rightarrow> check_flags \<Rightarrow> 's \<Rightarrow> 's \<times> bool" where
  "check_setup env f k =
     (case ce_ip env [''link'', ''add'', ck_iface f, ''type'', ''wireguard''] k of
        (k1, made) \<Rightarrow>
          if \<not> made then (k1, False)
          else if \<not> ce_wgctrl env then (k1, False)
          else case ce_configure env (ck_iface f) (ck_pubkey f) (ck_endpoint f) k1 of
            (k2, configured) \<Rightarrow>
              if \<not> configured then (k2, False)
              else ce_ip env [''link'', ''set'', ck_iface f, ''up''] k2)"

definition relay_check ::
    "'s check_env \<Rightarrow> check_flags \<Rightarrow> nanos \<Rightarrow> check_round list \<Rightarrow> 's \<Rightarrow> 's \<times> (string \<times> reachability_report) list \<times> check_end" where
  "relay_check env f start rounds k =
     (if \<not> check_ready env f then (k, [], Exited 2)
      else case check_setup env f k of
        (k', up) \<Rightarrow>
          if \<not> up then (k', [], Exited 2)
          else
            (case check_rounds (start + ck_wait f) rounds of
               None \<Rightarrow> (k', [], StillWaiting)
             | Some True \<Rightarrow> (k', fst (report_check env f True []), Exited 0)
             | Some False \<Rightarrow>
                 (k', fst (report_check env f False
                    (''no handshake from '' @ ck_endpoint f @ '' within '' @ ce_duration env (ck_wait f))), Exited 1)))"

section \<open>What the rounds say\<close>

fun shook_hands :: "check_round \<Rightarrow> bool" where
  "shook_hands (t, None) \<longleftrightarrow> False"
| "shook_hands (t, Some peers) \<longleftrightarrow> (\<exists>p \<in> set peers. p \<noteq> None)"

lemma check_rounds_Cons:
  "check_rounds d (r # rs) = (if \<not> fst r < d then Some False else if shook_hands r then Some True else check_rounds d rs)"
  by (cases r rule: shook_hands.cases) simp_all

definition in_time :: "nanos \<Rightarrow> check_round list \<Rightarrow> check_round list" where
  "in_time deadline rs = takeWhile (\<lambda>r. fst r < deadline) rs"

lemma check_rounds_True: "check_rounds d rs = Some True \<longleftrightarrow> (\<exists>r \<in> set (in_time d rs). shook_hands r)"
  by (induction rs) (auto simp: in_time_def check_rounds_Cons simp del: check_rounds.simps(2))

lemma check_rounds_False:
  "check_rounds d rs = Some False \<longleftrightarrow> (\<forall>r \<in> set (in_time d rs). \<not> shook_hands r) \<and> in_time d rs \<noteq> rs"
  by (induction rs) (auto simp: in_time_def check_rounds_Cons simp del: check_rounds.simps(2))

lemma report_check_sent:
  "x \<in> set (fst (report_check env f ok detail)) \<Longrightarrow>
     ck_control f \<noteq> [] \<and> x = (report_url (ck_control f),
       \<lparr>rr_contributor_key = ck_key f, rr_relay_public_key = ck_pubkey f, rr_reachable = ok, rr_detail = detail\<rparr>)"
  by (auto simp: report_check_def Let_def split: if_splits post_reply.splits)

lemma report_check_one: "length (fst (report_check env f ok detail)) \<le> 1"
  by (simp add: report_check_def Let_def split: post_reply.split)

text \<open>What a run that comes to a verdict consists of.\<close>

lemma relay_check_verdict:
  assumes "relay_check env f start rounds k = (k', sent, Exited c)" "c \<noteq> 2"
  shows "(c = 0 \<and> check_rounds (start + ck_wait f) rounds = Some True \<and> sent = fst (report_check env f True [])) \<or>
    (c = 1 \<and> check_rounds (start + ck_wait f) rounds = Some False \<and> (\<exists>detail. sent = fst (report_check env f False detail)))"
    "ck_control f \<noteq> [] \<longrightarrow> ck_key f \<noteq> []"
  using assms by (auto simp: relay_check_def check_ready_def split: if_splits prod.splits bool.splits option.splits)

lemma relay_check_unable:
  assumes "relay_check env f start rounds k = (k', sent, Exited 2)"
  shows "sent = []"
  using assms by (auto simp: relay_check_def split: if_splits prod.splits bool.splits option.splits)

lemma unreachable_not_offered:
  assumes ok: "reachable H db" and rec: "record_reachability H env key pub False detail db = (db1, Inr ())"
    and s: "session H env' key' dpub mtu db1 = (db2, Inr s)" and x: "x \<in> set (Relays s)"
  shows "ro_public_key x \<noteq> pub"
proof
  assume e: "ro_public_key x = pub"
  note u = db_ok_parts(4) [OF reachable_ok [OF ok]]
  define hit :: "relay_row \<Rightarrow> bool" where "hit = (\<lambda>q. r_pubkey q = pub \<and> r_key_hash q = H key \<and> key_active db (r_key_hash q))"
  define down :: "relay_row \<Rightarrow> relay_row" where "down = (\<lambda>q. q\<lparr>r_status := ''unreachable'', r_detail := detail\<rparr>)"
  have "record_reachability H env key pub False detail db =
      stmt env ''record reachability'' db
        (if filter hit (relay_rows db) = [] then (db, Inl ErrUnknownKey)
         else (db\<lparr>relay_rows := map (\<lambda>q. if hit q then down q else q) (relay_rows db)\<rparr>, Inr ()))"
    by (simp add: record_reachability_def hit_def down_def cong: if_cong)
  then have run: "filter hit (relay_rows db) \<noteq> []" "relay_rows db1 = map (\<lambda>q. if hit q then down q else q) (relay_rows db)"
    using rec by (auto simp: stmt_def split: if_splits)
  obtain h where h: "h \<in> set (relay_rows db)" "hit h" using run(1) by (auto simp: filter_empty_conv)
  obtain d :: device_row where "Relays s = offer_rows env' (d_id d) mtu db1" by (rule session_Inr [OF s]) blast
  with x have "x \<in> set (offer_rows env' (d_id d) mtu db1)" by simp
  then have "\<exists>q \<in> set (relay_rows db1). r_status q = ''up'' \<and> ro_public_key x = r_pubkey q"
    by (rule offer_rowE) (rule bexI, rule conjI, assumption, simp, assumption)
  then obtain q where q: "q \<in> set (relay_rows db1)" "r_status q = ''up''" "ro_public_key x = r_pubkey q" by blast
  then obtain r where r: "r \<in> set (relay_rows db)" "q = (if hit r then down r else r)" using run(2) by auto
  have "r_pubkey q = r_pubkey r" unfolding r(2) by (simp add: down_def)
  moreover have "r_pubkey h = pub" using h(2) unfolding hit_def by blast
  ultimately have "r_pubkey r = r_pubkey h" using q(3) e by simp
  then have "r = h" using distinct_map_eq [OF u r(1) h(1)] by simp
  then show False using q(2) r(2) h(2) by (simp add: down_def)
qed

text \<open>C39. The exit code is the finding: 0 exactly when a peer completed a handshake at a look before the deadline
  and 1 only when the deadline passed without one. Only a finding is reported, once at most, with the same
  verdict, under the key of the relay's owner; a check that could not run reports nothing. And once the
  control plane has recorded that a relay was not reached, it is in no session opened then.\<close>

theorem relaycheck_reports_finding:
  assumes "relay_check env f start rounds k = (k', sent, Exited c)"
  shows "(c = 0 \<longrightarrow> (\<exists>r \<in> set (in_time (start + ck_wait f) rounds). shook_hands r)) \<and>
    (c = 1 \<longrightarrow> (\<forall>r \<in> set (in_time (start + ck_wait f) rounds). \<not> shook_hands r)) \<and> c \<le> 2 \<and>
    length sent \<le> 1 \<and> (c = 2 \<longrightarrow> sent = []) \<and>
    (\<forall>(url, rep) \<in> set sent. url = report_url (ck_control f) \<and> rr_contributor_key rep = ck_key f \<and> ck_key f \<noteq> [] \<and>
       rr_relay_public_key rep = ck_pubkey f \<and> (rr_reachable rep \<longleftrightarrow> c = 0) \<and>
       (\<forall>H db env' db1 env'' key pub mtu db2 s. c = 1 \<longrightarrow> reachable H db \<longrightarrow>
          record_reachability H env' (rr_contributor_key rep) (rr_relay_public_key rep) (rr_reachable rep) (rr_detail rep) db = (db1, Inr ()) \<longrightarrow>
          session H env'' key pub mtu db1 = (db2, Inr s) \<longrightarrow> (\<forall>x \<in> set (Relays s). ro_public_key x \<noteq> ck_pubkey f)))"
proof (cases "c = 2")
  case True
  then show ?thesis using relay_check_unable [OF assms [unfolded True]] by simp
next
  case False
  note v = relay_check_verdict [OF assms False]
  have rounds: "(c = 0 \<longrightarrow> (\<exists>r \<in> set (in_time (start + ck_wait f) rounds). shook_hands r)) \<and>
    (c = 1 \<longrightarrow> (\<forall>r \<in> set (in_time (start + ck_wait f) rounds). \<not> shook_hands r)) \<and> c \<le> 2"
    using v(1) check_rounds_True check_rounds_False by auto
  obtain detail where s: "sent = fst (report_check env f (c = 0) detail)" using v(1) by auto
  have one: "length sent \<le> 1" unfolding s by (rule report_check_one)
  have rep: "url = report_url (ck_control f) \<and> rr_contributor_key rep = ck_key f \<and> ck_key f \<noteq> [] \<and>
       rr_relay_public_key rep = ck_pubkey f \<and> (rr_reachable rep \<longleftrightarrow> c = 0)" if "(url, rep) \<in> set sent" for url rep
    using report_check_sent [of "(url, rep)" env f "c = 0" detail] that s v(2) by auto
  have gone: "ro_public_key x \<noteq> ck_pubkey f"
    if "(url, rep) \<in> set sent" "c = 1" "reachable H db" "session H env'' key pub mtu db1 = (db2, Inr s')" "x \<in> set (Relays s')"
      "record_reachability H env' (rr_contributor_key rep) (rr_relay_public_key rep) (rr_reachable rep) (rr_detail rep) db = (db1, Inr ())"
    for url rep H db env' db1 env'' key pub mtu db2 s' x
    using unreachable_not_offered [of H db env' "rr_contributor_key rep" "ck_pubkey f" "rr_detail rep" db1] rep that by simp
  show ?thesis using rounds one rep gone False by (intro conjI) (blast | simp)+
qed

text \<open>A kernel that is the list of its interfaces, and a relay that answers at the second look.\<close>

definition sample_ip :: "string list \<Rightarrow> string list \<Rightarrow> string list \<times> bool" where
  "sample_ip args k =
     (if args ! 1 = ''add'' then (if args ! 2 \<in> set k then (k, False) else (args ! 2 # k, True)) else (k, True))"

definition sample_check_env :: "string list check_env" where
  "sample_check_env = \<lparr>ce_resolves = (\<lambda>_. True), ce_parses = (\<lambda>_. True), ce_generates = True, ce_ip = sample_ip, ce_wgctrl = True,
     ce_configure = (\<lambda>_ _ _ k. (k, True)), ce_post = (\<lambda>_ _. Status 204), ce_duration = dec_int\<rparr>"

definition sample_flags :: check_flags where
  "sample_flags = \<lparr>ck_endpoint = ''203.0.113.10:51820'', ck_pubkey = ''RELAYKEY'', ck_iface = ''gnlcheck0'', ck_wait = 12 * second,
     ck_control = ''https://control/'', ck_key = sample_key\<rparr>"

theorem relaycheck_reports_finding_witness:
  "snd (snd (relay_check sample_check_env sample_flags 0 [(0, Some [None]), (second, Some [Some 5])] [])) = Exited 0 \<and>
   shook_hands (second, Some [Some 5])"
proof -
  let ?run = "relay_check sample_check_env sample_flags 0 [(0, Some [None]), (second, Some [Some 5])] []"
  have e: "snd (snd ?run) = Exited 0" by code_simp
  obtain k sent c where r: "?run = (k, sent, c)" by (cases ?run) auto
  then have "?run = (k, sent, Exited 0)" using e by simp
  from relaycheck_reports_finding [OF this, THEN conjunct1, rule_format, OF refl] show ?thesis
    using e by (auto simp: in_time_def sample_flags_def)
qed

section \<open>The interface left behind\<close>

definition link_documented :: "'s check_env \<Rightarrow> ('s \<Rightarrow> string set) \<Rightarrow> bool" where
  "link_documented env links \<longleftrightarrow>
     (\<forall>n k. n \<in> links k \<longrightarrow> \<not> snd (ce_ip env [''link'', ''add'', n, ''type'', ''wireguard''] k)) \<and>
     (\<forall>n k. snd (ce_ip env [''link'', ''add'', n, ''type'', ''wireguard''] k) \<longrightarrow>
        n \<in> links (fst (ce_ip env [''link'', ''add'', n, ''type'', ''wireguard''] k))) \<and>
     (\<forall>n k. links k \<subseteq> links (fst (ce_ip env [''link'', ''set'', n, ''up''] k))) \<and>
     (\<forall>n p e k. links k \<subseteq> links (fst (ce_configure env n p e k)))"

lemma setup_leaves_link:
  assumes doc: "link_documented env links"
    and made: "snd (ce_ip env [''link'', ''add'', ck_iface f, ''type'', ''wireguard''] k)"
  shows "ck_iface f \<in> links (fst (check_setup env f k))"
proof -
  obtain k1 where k1: "ce_ip env [''link'', ''add'', ck_iface f, ''type'', ''wireguard''] k = (k1, True)"
    using made by (cases "ce_ip env [''link'', ''add'', ck_iface f, ''type'', ''wireguard''] k") simp
  obtain k2 ok where k2: "ce_configure env (ck_iface f) (ck_pubkey f) (ck_endpoint f) k1 = (k2, ok)" by fastforce
  have "ck_iface f \<in> links k1" using doc made k1 unfolding link_documented_def by (metis fst_conv)
  moreover have "links k1 \<subseteq> links k2" using doc k2 unfolding link_documented_def by (metis fst_conv)
  moreover have "links k2 \<subseteq> links (fst (ce_ip env [''link'', ''set'', ck_iface f, ''up''] k2))"
    using doc unfolding link_documented_def by blast
  ultimately show ?thesis using k1 k2 by (auto simp: check_setup_def)
qed

text \<open>A check that got as far as its interface leaves it behind, whatever its verdict, and no check on the same
  machine can run after it.\<close>

theorem check_runs_once:
  assumes "link_documented env links" "check_ready env f"
    and "snd (ce_ip env [''link'', ''add'', ck_iface f, ''type'', ''wireguard''] k)"
    and "relay_check env f start rounds k = (k', sent, e)"
  shows "ck_iface f \<in> links k' \<and> (\<exists>k''. relay_check env f start' rounds' k' = (k'', [], Exited 2))"
proof -
  have "fst (relay_check env f start rounds k) = fst (check_setup env f k)"
    using assms(2) by (simp add: relay_check_def split: prod.split option.split bool.split)
  then have "k' = fst (check_setup env f k)" using assms(4) by simp
  then have l: "ck_iface f \<in> links k'" using setup_leaves_link [OF assms(1,3)] by simp
  then have "\<not> snd (ce_ip env [''link'', ''add'', ck_iface f, ''type'', ''wireguard''] k')"
    using assms(1) unfolding link_documented_def by blast
  then have "\<not> snd (check_setup env f k')" by (auto simp: check_setup_def split: prod.splits)
  then show ?thesis using l assms(2) by (auto simp: relay_check_def split: prod.splits)
qed

end
