(* ===== verification/Control_Main.thy ===== *)
theory Control_Main
  imports Http_Props Store_Evidence
begin

text \<open>
  \<open>cmd/gnl-control/main.go\<close>: the control plane as a process. It opens the database, mints one key or serves, and
  while it serves a ticker marks the relays that fell silent, between the requests and in any order with them.
\<close>

section \<open>Starting\<close>

record control_flags =
  cf_dsn :: string
  cf_trustProxy :: bool
  cf_staleAfter :: nanos
  cf_poll :: int
  cf_mintKey :: bool

datatype control_end = NoDSN | NoDatabase | MigrateFailed | MintFailed store_error | Minted string | Serving config

text \<open>\<open>opened\<close> and \<open>migrated\<close> tell whether Postgres could be reached and the schema applied, which on tables
  already there changes nothing.\<close>

definition control_main ::
    "(string \<Rightarrow> string) \<Rightarrow> bool \<Rightarrow> bool \<Rightarrow> db_env \<Rightarrow> nat list option \<Rightarrow> control_flags \<Rightarrow> db \<Rightarrow> db \<times> control_end" where
  "control_main H opened migrated env rnd f db =
     (if cf_dsn f = [] then (db, NoDSN)
      else if \<not> opened then (db, NoDatabase)
      else if \<not> migrated then (db, MigrateFailed)
      else if cf_mintKey f then
        (case create_contributor_key H env rnd db of
           (db', Inl e) \<Rightarrow> (db', MintFailed e)
         | (db', Inr key) \<Rightarrow> (db', Minted key))
      else (db, Serving (new_config (cf_poll f) (cf_trustProxy f))))"

section \<open>Serving\<close>

datatype server_event = Served served | StaleTick db_env

definition stale_tick :: "nanos \<Rightarrow> db_env \<Rightarrow> db \<Rightarrow> db" where
  "stale_tick after env db = fst (mark_stale_relays_down env after db)"

fun run_server :: "(string \<Rightarrow> string) \<Rightarrow> config \<Rightarrow> nanos \<Rightarrow> server_event list \<Rightarrow> limiters \<times> db \<Rightarrow> limiters \<times> db" where
  "run_server H cfg after [] st = st"
| "run_server H cfg after (Served s # evs) st = run_server H cfg after evs (fst (serve_store H cfg s st))"
| "run_server H cfg after (StaleTick env # evs) st = run_server H cfg after evs (fst st, stale_tick after env (snd st))"

lemma tick_reachable: "reachable H db \<Longrightarrow> reachable H (stale_tick after env db)"
  unfolding stale_tick_def by (metis next_step db_step.stale prod.collapse)

lemma run_server_reachable: "reachable H (snd st) \<Longrightarrow> reachable H (snd (run_server H cfg after evs st))"
proof (induction H cfg after evs st rule: run_server.induct)
  case (2 H cfg after s evs st)
  then show ?case using requests_keep_tables_reachable [of H st cfg "[s]"] by simp
qed (simp_all add: tick_reachable)

lemma main_reachable:
  assumes "reachable H db" "control_main H opened migrated env rnd f db = (db', e)"
  shows "reachable H db'"
  using assms
  by (auto simp: control_main_def split: if_splits prod.splits sum.splits intro: next_step db_step.create)

lemma run_server_append: "run_server H cfg after (evs @ evs') st = run_server H cfg after evs' (run_server H cfg after evs st)"
  by (induction H cfg after evs st rule: run_server.induct) simp_all


definition sample_control_flags :: control_flags where
  "sample_control_flags = \<lparr>cf_dsn = ''db'', cf_trustProxy = False, cf_staleAfter = 300 * second, cf_poll = 10, cf_mintKey = False\<rparr>"


end
