(* ===== verification/Probe.thy ===== *)
theory Probe
  imports Stats
begin

unbundle bit_operations_syntax

text \<open>
  \<open>internal/probe\<close>: the packet of a measurement on the wire, the echo server, and the client that
  sends probes and collects the echoes. The socket and the clock are the events the two loops see.
\<close>

section \<open>Packets\<close>

type_synonym byte = "8 word"

definition PacketSize :: nat where "PacketSize = 16"

definition magic :: "byte list" where "magic = [0x47, 0x4E, 0x4C, 0x50]"

record packet =
  Seq :: "32 word"
  SentUnixNano :: "64 word"

text \<open>Big endian.\<close>

definition put_uint32 :: "32 word \<Rightarrow> byte list" where
  "put_uint32 w = map (\<lambda>i. ucast (drop_bit (8 * i) w)) [3, 2, 1, 0]"

definition put_uint64 :: "64 word \<Rightarrow> byte list" where
  "put_uint64 w = map (\<lambda>i. ucast (drop_bit (8 * i) w)) [7, 6, 5, 4, 3, 2, 1, 0]"

definition get_uint32 :: "byte list \<Rightarrow> 32 word" where
  "get_uint32 b = ucast (b ! 3) OR push_bit 8 (ucast (b ! 2)) OR push_bit 16 (ucast (b ! 1)) OR push_bit 24 (ucast (b ! 0))"

definition get_uint64 :: "byte list \<Rightarrow> 64 word" where
  "get_uint64 b = ucast (b ! 7) OR push_bit 8 (ucast (b ! 6)) OR push_bit 16 (ucast (b ! 5)) OR push_bit 24 (ucast (b ! 4)) OR
     push_bit 32 (ucast (b ! 3)) OR push_bit 40 (ucast (b ! 2)) OR push_bit 48 (ucast (b ! 1)) OR push_bit 56 (ucast (b ! 0))"

definition marshal :: "packet \<Rightarrow> byte list" where
  "marshal p = magic @ put_uint32 (Seq p) @ put_uint64 (SentUnixNano p)"

definition unmarshal :: "byte list \<Rightarrow> packet option" where
  "unmarshal b =
     (if length b < PacketSize then None
      else if b ! 0 \<noteq> magic ! 0 \<or> b ! 1 \<noteq> magic ! 1 \<or> b ! 2 \<noteq> magic ! 2 \<or> b ! 3 \<noteq> magic ! 3 then None
      else Some \<lparr>Seq = get_uint32 (take 4 (drop 4 b)), SentUnixNano = get_uint64 (take 8 (drop 8 b))\<rparr>)"

lemma get_put_uint32: "get_uint32 (put_uint32 w) = w"
proof (rule bit_word_eqI)
  fix n assume "n < LENGTH(32)"
  then consider "n < 8" | "8 \<le> n" "n < 16" | "16 \<le> n" "n < 24" | "24 \<le> n" "n < 32" by fastforce
  then show "bit (get_uint32 (put_uint32 w)) n = bit w n"
    by cases (simp_all add: get_uint32_def put_uint32_def bit_simps less_diff_conv2)
qed

lemma get_put_uint64: "get_uint64 (put_uint64 w) = w"
proof (rule bit_word_eqI)
  fix n assume "n < LENGTH(64)"
  then consider "n < 8" | "8 \<le> n" "n < 16" | "16 \<le> n" "n < 24" | "24 \<le> n" "n < 32"
    | "32 \<le> n" "n < 40" | "40 \<le> n" "n < 48" | "48 \<le> n" "n < 56" | "56 \<le> n" "n < 64" by fastforce
  then show "bit (get_uint64 (put_uint64 w)) n = bit w n"
    by cases (simp_all add: get_uint64_def put_uint64_def bit_simps less_diff_conv2)
qed

lemma length_marshal [simp]: "length (marshal p) = PacketSize"
  by (simp add: marshal_def magic_def put_uint32_def put_uint64_def PacketSize_def)

lemma unmarshal_take: "PacketSize \<le> n \<Longrightarrow> unmarshal (take n b) = unmarshal b"
proof -
  assume n: "PacketSize \<le> n"
  then have "take 4 (drop 4 (take n b)) = take 4 (drop 4 b)" "take 8 (drop 8 (take n b)) = take 8 (drop 8 b)"
    by (simp_all add: PacketSize_def drop_take min_absorb1)
  moreover have "take n b ! i = b ! i" if "i < 16" for i using n that by (simp add: PacketSize_def)
  moreover have "length (take n b) < PacketSize \<longleftrightarrow> length b < PacketSize" using n by auto
  ultimately show ?thesis by (simp add: unmarshal_def)
qed

lemma unmarshal_marshal: "unmarshal (marshal p @ rest) = Some p"
proof -
  have "take 4 (drop 4 (marshal p @ rest)) = put_uint32 (Seq p)" "take 8 (drop 8 (marshal p @ rest)) = put_uint64 (SentUnixNano p)"
    by (simp_all add: marshal_def magic_def put_uint32_def put_uint64_def)
  moreover have "marshal p @ rest = 0x47 # 0x4E # 0x4C # 0x50 # put_uint32 (Seq p) @ put_uint64 (SentUnixNano p) @ rest"
    by (simp add: marshal_def magic_def)
  ultimately show ?thesis
    using length_marshal [of p] by (simp add: unmarshal_def get_put_uint32 get_put_uint64 magic_def numeral_3_eq_3 numeral_2_eq_2)
qed

section \<open>The echo server\<close>

text \<open>What one turn of the loop meets: the context cancelled, a deadline that cannot be set, a read that
  times out or fails, or a datagram with its sender, and whether the answer could be written. The
  buffer holds 1500 bytes of a datagram.\<close>

datatype 'a turn = Cancelled | DeadlineRefused | TimedOut | ReadBroken | Datagram "byte list" 'a bool

datatype serve_end = Serving | ServeCancelled | ServeFailed

fun serve_probes :: "'a turn list \<Rightarrow> (byte list \<times> 'a) list \<times> serve_end" where
  "serve_probes [] = ([], Serving)"
| "serve_probes (Cancelled # ts) = ([], ServeCancelled)"
| "serve_probes (DeadlineRefused # ts) = ([], ServeFailed)"
| "serve_probes (TimedOut # ts) = serve_probes ts"
| "serve_probes (ReadBroken # ts) = ([], ServeFailed)"
| "serve_probes (Datagram d a written # ts) =
     (let b = take 1500 d in
      case unmarshal b of
        None \<Rightarrow> serve_probes ts
      | Some _ \<Rightarrow>
          let (es, r) = serve_probes ts in (if written then (take PacketSize b, a) # es else es, r))"

lemma unmarshal_Some: "unmarshal b = Some p \<Longrightarrow> PacketSize \<le> length b"
  by (auto simp: unmarshal_def split: if_splits)

lemma take_16_1500: "take PacketSize (take 1500 d) = take PacketSize d"
  by (simp add: PacketSize_def)

lemma unmarshal_1500: "unmarshal (take 1500 d) = unmarshal d"
  by (rule unmarshal_take) (simp add: PacketSize_def)

text \<open>The echo \<open>e\<close> answers a probe among the datagrams received.\<close>

definition answers :: "'a turn list \<Rightarrow> byte list \<times> 'a \<Rightarrow> bool" where
  "answers ts e \<longleftrightarrow> (\<exists>d. Datagram d (snd e) True \<in> set ts \<and> fst e = take PacketSize d \<and> length (fst e) = PacketSize \<and>
     length (fst e) \<le> length d \<and> unmarshal d \<noteq> None \<and> unmarshal (fst e) = unmarshal d)"

fun probe_from :: "'a \<Rightarrow> 'a turn \<Rightarrow> bool" where
  "probe_from a (Datagram d a' w) \<longleftrightarrow> a' = a \<and> unmarshal d \<noteq> None"
| "probe_from a _ \<longleftrightarrow> False"

lemma answers_Cons: "answers ts e \<Longrightarrow> answers (t # ts) e"
  unfolding answers_def by auto

lemma answers_new: "unmarshal d = Some p \<Longrightarrow> answers (Datagram d a True # ts) (take PacketSize d, a)"
  using unmarshal_take [of PacketSize d] unmarshal_Some [of d p] by (auto simp: answers_def)

text \<open>C35. The echo server is no reflector. Every datagram it sends answers a probe it received: it goes to
  that probe's sender, is exactly 16 bytes long, so never longer than what was received, and carries
  the same packet, and nobody is sent more datagrams than probes came from there. It stops only when cancelled or when its socket breaks, not for a
  foreign datagram or an answer it could not send.\<close>

theorem echo_answers_probes_only:
  assumes "serve_probes ts = (es, r)"
  shows "(\<forall>e \<in> set es. answers ts e) \<and>
    length (filter (\<lambda>e. snd e = a) es) \<le> length (filter (probe_from a) ts) \<and>
    (r = Serving \<longleftrightarrow> Cancelled \<notin> set ts \<and> DeadlineRefused \<notin> set ts \<and> ReadBroken \<notin> set ts)"
  using assms
proof (induction ts arbitrary: es r rule: serve_probes.induct)
  case (6 d a' written ts)
  obtain es' r' where rest: "serve_probes ts = (es', r')" by fastforce
  show ?case
  proof (cases "unmarshal d")
    case None
    then have es: "es = es'" "r = r'" using "6.prems" rest by (simp_all add: unmarshal_1500)
    have "unmarshal (take 1500 d) = None" using None by (simp add: unmarshal_1500)
    note IH = "6.IH"(1) [OF refl this rest]
    have "\<forall>e \<in> set es. answers (Datagram d a' written # ts) e" using IH answers_Cons unfolding es by blast
    then show ?thesis using IH None by (simp add: es)
  next
    case (Some p)
    then have u: "unmarshal (take 1500 d) = Some p" by (simp add: unmarshal_1500)
    have es: "es = (if written then (take PacketSize d, a') # es' else es')" "r = r'"
      using "6.prems" rest u take_16_1500 [of d] by (auto simp del: take_take)
    note IH = "6.IH"(2) [OF refl u rest]
    have "\<forall>e \<in> set es'. answers (Datagram d a' written # ts) e" using IH answers_Cons by blast
    then have "\<forall>e \<in> set es. answers (Datagram d a' written # ts) e" using answers_new [OF Some] by (cases written) (simp_all add: es(1))
    moreover have "length (filter (\<lambda>e. snd e = a) es) \<le> length (filter (probe_from a) (Datagram d a' written # ts))"
      using IH Some by (simp add: es(1))
    moreover have "r = Serving \<longleftrightarrow> Cancelled \<notin> set (Datagram d a' written # ts) \<and> DeadlineRefused \<notin> set (Datagram d a' written # ts) \<and>
        ReadBroken \<notin> set (Datagram d a' written # ts)" using IH by (simp add: es(2))
    ultimately show ?thesis by blast
  qed
next
  case (4 ts)
  have "serve_probes ts = (es, r)" using "4.prems" by simp
  note IH = "4.IH" [OF this]
  then have "\<forall>e \<in> set es. answers (TimedOut # ts) e" using answers_Cons by blast
  then show ?case using IH by simp
qed auto

lemma echo_answers_probes_only_witness:
  "\<exists>es r. serve_probes [Datagram (marshal \<lparr>Seq = 7, SentUnixNano = 1000\<rparr> @ [1, 2]) ''vps'' True, TimedOut, Datagram (replicate 40 0) ''stranger'' True] = (es, r) \<and>
     es = [(marshal \<lparr>Seq = 7, SentUnixNano = 1000\<rparr>, ''vps'')] \<and> r = Serving"
proof -
  let ?ts = "[Datagram (marshal \<lparr>Seq = 7, SentUnixNano = 1000\<rparr> @ [1, 2]) ''vps'' True, TimedOut, Datagram (replicate 40 0) ''stranger'' True]"
  have none: "unmarshal (replicate 40 0) = None" by (simp add: unmarshal_def magic_def PacketSize_def)
  have "take PacketSize (marshal p @ xs) = marshal p" for p xs by simp
  then have run: "serve_probes ?ts = ([(marshal \<lparr>Seq = 7, SentUnixNano = 1000\<rparr>, ''vps'')], Serving)"
    by (simp only: serve_probes.simps Let_def unmarshal_1500 unmarshal_marshal none take_16_1500 option.case prod.case if_True)
  then show ?thesis using echo_answers_probes_only [OF run] by auto
qed

section \<open>The client\<close>

record client_config =
  Rate :: int
  Duration :: nanos
  Grace :: nanos

definition with_defaults :: "client_config \<Rightarrow> client_config" where
  "with_defaults c =
     (let c1 = (if Rate c \<le> 0 then c\<lparr>Rate := 20\<rparr> else c);
          c2 = (if Duration c1 \<le> 0 then c1\<lparr>Duration := 30 * second\<rparr> else c1);
          c3 = (if Grace c2 \<le> 0 then c2\<lparr>Grace := second\<rparr> else c2)
      in if Rate c3 > 1000 then c3\<lparr>Rate := 1000\<rparr> else c3)"

definition send_interval :: "client_config \<Rightarrow> nanos" where
  "send_interval c = second div Rate c"

text \<open>What the two goroutines of \<open>Run\<close> meet, in the order it takes effect: a tick with the clock and
  whether the write went through, the end of sending, the context cancelled; for the reader
  a datagram and the clock, a failing read, a closed socket, the end of the window.\<close>

datatype run_event = SendTick nanos bool | StopSending | RunCancelled | Reply "byte list" nanos | ReadFailed | SocketClosed | WindowOver

text \<open>\<open>rn_wire\<close> is what was written to the socket.\<close>

record run_state =
  rn_sent :: nat
  rn_writeErrs :: nat
  rn_rtts :: "nanos list"
  rn_wire :: "packet list"
  rn_sending :: bool
  rn_reading :: bool

definition run_start :: run_state where
  "run_start = \<lparr>rn_sent = 0, rn_writeErrs = 0, rn_rtts = [], rn_wire = [], rn_sending = True, rn_reading = True\<rparr>"

text \<open>The difference of two times as \<open>int64\<close>.\<close>

definition elapsed :: "nanos \<Rightarrow> 64 word \<Rightarrow> nanos" where
  "elapsed t sent = sint (word_of_int t - sent)"

fun probe_step :: "client_config \<Rightarrow> run_state \<Rightarrow> run_event \<Rightarrow> run_state" where
  "probe_step c s (SendTick t written) =
     (if \<not> rn_sending s then s
      else if written then
        s\<lparr>rn_sent := rn_sent s + 1, rn_wire := rn_wire s @ [\<lparr>Seq = of_nat (rn_sent s + rn_writeErrs s), SentUnixNano = word_of_int t\<rparr>]\<rparr>
      else s\<lparr>rn_writeErrs := rn_writeErrs s + 1\<rparr>)"
| "probe_step c s StopSending = s\<lparr>rn_sending := False\<rparr>"
| "probe_step c s RunCancelled = s\<lparr>rn_sending := False, rn_reading := False\<rparr>"
| "probe_step c s (Reply d t) =
     (if \<not> rn_reading s then s
      else case unmarshal (take 1500 d) of
        None \<Rightarrow> s
      | Some p \<Rightarrow>
          let rtt = elapsed t (SentUnixNano p) in
          if rtt < 0 \<or> rtt > Duration c + Grace c then s else s\<lparr>rn_rtts := rn_rtts s @ [rtt]\<rparr>)"
| "probe_step c s ReadFailed = s"
| "probe_step c s SocketClosed = s\<lparr>rn_reading := False\<rparr>"
| "probe_step c s WindowOver = s\<lparr>rn_reading := False\<rparr>"

datatype run_error = CannotResolve | CannotDial | NothingSent nat

definition run_result :: "run_state \<Rightarrow> run_error + summary \<times> nanos list" where
  "run_result s =
     (if rn_sent s = 0 \<and> rn_writeErrs s > 0 then Inl (NothingSent (rn_writeErrs s))
      else Inr (summarize (int (rn_sent s)) (rn_rtts s), rn_rtts s))"

definition run_client :: "client_config \<Rightarrow> bool \<Rightarrow> bool \<Rightarrow> run_event list \<Rightarrow> run_error + summary \<times> nanos list" where
  "run_client cfg resolves dials evs =
     (if \<not> resolves then Inl CannotResolve
      else if \<not> dials then Inl CannotDial
      else run_result (foldl (probe_step (with_defaults cfg)) run_start evs))"

section \<open>What a run accounts for\<close>

lemma with_defaults_bounds:
  "1 \<le> Rate (with_defaults c) \<and> Rate (with_defaults c) \<le> 1000 \<and> 0 < Duration (with_defaults c) \<and> 0 < Grace (with_defaults c)"
  by (simp add: with_defaults_def Let_def)

lemma send_interval_pos: "millisecond \<le> send_interval (with_defaults c)"
proof -
  have "1 \<le> Rate (with_defaults c)" "Rate (with_defaults c) \<le> 1000" using with_defaults_bounds by blast+
  then have "second div 1000 \<le> second div Rate (with_defaults c)" by (intro zdiv_mono2) simp_all
  then show ?thesis by (simp add: send_interval_def)
qed

lemma elapsed_exact:
  assumes "- (2 ^ 63) \<le> t - t0" "t - t0 < 2 ^ 63"
  shows "elapsed t (word_of_int t0) = t - t0"
  using assms by (simp add: elapsed_def signed_of_int signed_take_bit_int_eq_self flip: of_int_diff)

text \<open>The numbers of the packets on the wire: each write attempt takes the next one.\<close>

definition numbered :: "run_state \<Rightarrow> bool" where
  "numbered s \<longleftrightarrow> (\<exists>ns. map Seq (rn_wire s) = map of_nat ns \<and> distinct ns \<and> (\<forall>n \<in> set ns. n < rn_sent s + rn_writeErrs s))"

definition sample_of :: "client_config \<Rightarrow> run_event list \<Rightarrow> nanos \<Rightarrow> bool" where
  "sample_of c evs x \<longleftrightarrow> 0 \<le> x \<and> x \<le> Duration c + Grace c \<and>
     (\<exists>d t p. Reply d t \<in> set evs \<and> unmarshal d = Some p \<and> x = elapsed t (SentUnixNano p))"

definition sent_at :: "run_event list \<Rightarrow> packet \<Rightarrow> bool" where
  "sent_at evs p \<longleftrightarrow> (\<exists>t. SendTick t True \<in> set evs \<and> SentUnixNano p = word_of_int t)"

definition run_ok :: "client_config \<Rightarrow> run_event list \<Rightarrow> run_state \<Rightarrow> bool" where
  "run_ok c evs s \<longleftrightarrow> length (rn_wire s) = rn_sent s \<and> rn_sent s + rn_writeErrs s \<le> length evs \<and> numbered s \<and>
     (\<forall>x \<in> set (rn_rtts s). sample_of c evs x) \<and> (\<forall>p \<in> set (rn_wire s). sent_at evs p)"

lemma run_ok_more: "run_ok c evs s \<Longrightarrow> run_ok c (evs @ [ev]) s"
  unfolding run_ok_def sample_of_def sent_at_def by fastforce

lemma numbered_write:
  "numbered s \<Longrightarrow> numbered (s\<lparr>rn_sent := rn_sent s + 1, rn_wire := rn_wire s @ [\<lparr>Seq = of_nat (rn_sent s + rn_writeErrs s), SentUnixNano = x\<rparr>]\<rparr>)"
  "numbered s \<Longrightarrow> numbered (s\<lparr>rn_writeErrs := rn_writeErrs s + 1\<rparr>)"
proof -
  assume "numbered s"
  then obtain ns where ns: "map Seq (rn_wire s) = map of_nat ns" "distinct ns" "\<forall>n \<in> set ns. n < rn_sent s + rn_writeErrs s"
    unfolding numbered_def by blast
  show "numbered (s\<lparr>rn_sent := rn_sent s + 1, rn_wire := rn_wire s @ [\<lparr>Seq = of_nat (rn_sent s + rn_writeErrs s), SentUnixNano = x\<rparr>]\<rparr>)"
    unfolding numbered_def using ns by (intro exI [of _ "ns @ [rn_sent s + rn_writeErrs s]"]) auto
  show "numbered (s\<lparr>rn_writeErrs := rn_writeErrs s + 1\<rparr>)"
    unfolding numbered_def using ns by (intro exI [of _ ns]) auto
qed

lemma run_ok_step:
  assumes "run_ok c evs s"
  shows "run_ok c (evs @ [ev]) (probe_step c s ev)"
proof -
  note more = run_ok_more [OF assms, of ev]
  show ?thesis
  proof (cases ev)
    case (SendTick t w)
    have n: "numbered s" "rn_sent s + rn_writeErrs s \<le> length evs" using assms by (simp_all add: run_ok_def)
    have "sent_at (evs @ [ev]) \<lparr>Seq = i, SentUnixNano = word_of_int t\<rparr>" if w for i using SendTick that by (auto simp: sent_at_def)
    then show ?thesis using SendTick more n numbered_write [OF n(1)] by (auto simp: run_ok_def)
  next
    case (Reply d t)
    have "sample_of c (evs @ [ev]) (elapsed t (SentUnixNano p))"
      if "unmarshal (take 1500 d) = Some p" "\<not> (elapsed t (SentUnixNano p) < 0 \<or> elapsed t (SentUnixNano p) > Duration c + Grace c)" for p
      using that Reply unfolding sample_of_def unmarshal_1500 by force
    then show ?thesis using Reply more by (auto simp: run_ok_def numbered_def Let_def split: option.split)
  qed (use more in \<open>simp_all add: run_ok_def numbered_def\<close>)
qed

lemma run_ok_all: "run_ok c evs (foldl (probe_step c) run_start evs)"
proof (induction evs rule: rev_induct)
  case Nil
  show ?case by (simp add: run_ok_def run_start_def numbered_def)
next
  case (snoc ev evs)
  then show ?case using run_ok_step by simp
qed


definition sample_run :: "run_event list" where
  "sample_run = [SendTick 1000 False, SendTick 2000 True, Reply (marshal \<lparr>Seq = 1, SentUnixNano = 2000\<rparr>) 6002000,
     Reply (marshal \<lparr>Seq = 1, SentUnixNano = 9000\<rparr>) 8000, StopSending, WindowOver]"

lemma sample_run_result:
  "foldl (probe_step (with_defaults \<lparr>Rate = 0, Duration = 0, Grace = 0\<rparr>)) run_start sample_run =
     \<lparr>rn_sent = 1, rn_writeErrs = 1, rn_rtts = [6000000], rn_wire = [\<lparr>Seq = 1, SentUnixNano = 2000\<rparr>], rn_sending = False, rn_reading = False\<rparr>"
  "run_client \<lparr>Rate = 0, Duration = 0, Grace = 0\<rparr> True True sample_run = Inr (summarize 1 [6000000], [6000000])"
proof -
  let ?c = "\<lparr>Rate = 0, Duration = 0, Grace = 0\<rparr>"
  have u: "unmarshal (marshal p) = Some p" for p using unmarshal_marshal [of p "[]"] by simp
  have e: "elapsed 6002000 2000 = 6000000" "elapsed 8000 9000 = -1000" by (simp_all add: elapsed_def)
  show s: "foldl (probe_step (with_defaults ?c)) run_start sample_run =
      \<lparr>rn_sent = 1, rn_writeErrs = 1, rn_rtts = [6000000], rn_wire = [\<lparr>Seq = 1, SentUnixNano = 2000\<rparr>], rn_sending = False, rn_reading = False\<rparr>"
    by (simp add: sample_run_def run_start_def unmarshal_1500 u e with_defaults_def Let_def del: take_all_iff)
  then show "run_client ?c True True sample_run = Inr (summarize 1 [6000000], [6000000])"
    by (simp add: run_client_def run_result_def)
qed


end
