(* ===== verification/Results_File.thy ===== *)
theory Results_File
  imports Go_Strings
begin

text \<open>
  \<open>internal/probe/record.go\<close>: the file of results, one JSON object to a line, appended to by every run
  and read back by the analysis. The JSON codec is a parameter; a file is its bytes, what the
  operating system does to a call is part of its arguments.
\<close>

section \<open>Appending\<close>

text \<open>How the calls of one \<open>Append\<close> go: the directory is there or can be made, the file can be opened, so
  many bytes reach it, they can be synced.\<close>

record append_calls =
  dir_made :: bool
  file_opened :: bool
  bytes_written :: nat
  synced :: bool

datatype append_error = MkdirFailed | OpenFailed | EncodeFailed | WriteFailed | SyncFailed

definition append_record :: "('r \<Rightarrow> string option) \<Rightarrow> append_calls \<Rightarrow> 'r \<Rightarrow> string option \<Rightarrow> string option \<times> append_error option" where
  "append_record encode calls r file =
     (if \<not> dir_made calls then (file, Some MkdirFailed)
      else if \<not> file_opened calls then (file, Some OpenFailed)
      else
        let f = (case file of None \<Rightarrow> [] | Some c \<Rightarrow> c) in
        case encode r of
          None \<Rightarrow> (Some f, Some EncodeFailed)
        | Some b \<Rightarrow>
            let data = b @ [CHR 0x0A] in
            if bytes_written calls < length data then (Some (f @ take (bytes_written calls) data), Some WriteFailed)
            else (Some (f @ data), if synced calls then None else Some SyncFailed))"

section \<open>Loading\<close>

definition maxResultLine :: nat where "maxResultLine = 1024 * 1024"

datatype file_read = FileMissing | FileUnopened | FileRead string bool

datatype load_error = LoadOpenFailed | LineTooLong | ReadBroken

text \<open>What the scanner hands out, \<open>drop_cr\<close> for the carriage return it strips.\<close>

definition file_lines :: "string \<Rightarrow> string list" where
  "file_lines c = (let ls = split_on (CHR 0x0A) c in if last ls = [] then butlast ls else ls)"

fun load_lines :: "(string \<Rightarrow> 'r option) \<Rightarrow> string list \<Rightarrow> 'r list \<Rightarrow> nat \<Rightarrow> 'r list \<times> nat \<times> bool" where
  "load_lines decode [] out skipped = (out, skipped, False)"
| "load_lines decode (l # ls) out skipped =
     (if length l \<ge> maxResultLine then (out, skipped, True)
      else
        let line = trim_space (drop_cr l) in
        if line = [] then load_lines decode ls out skipped
        else case decode line of
          None \<Rightarrow> load_lines decode ls out (skipped + 1)
        | Some r \<Rightarrow> load_lines decode ls (out @ [r]) skipped)"

definition load_results :: "(string \<Rightarrow> 'r option) \<Rightarrow> file_read \<Rightarrow> 'r list \<times> nat \<times> load_error option" where
  "load_results decode f =
     (case f of
        FileMissing \<Rightarrow> ([], 0, None)
      | FileUnopened \<Rightarrow> ([], 0, Some LoadOpenFailed)
      | FileRead c ok \<Rightarrow>
          (case load_lines decode (file_lines c) [] 0 of (out, skipped, too_long) \<Rightarrow>
             (out, skipped, if too_long then Some LineTooLong else if \<not> ok then Some ReadBroken else None)))"

section \<open>What survives\<close>

text \<open>A record is encoded as one line that decodes to it, and no part of it cut short decodes.\<close>

definition codec_ok :: "('r \<Rightarrow> string option) \<Rightarrow> (string \<Rightarrow> 'r option) \<Rightarrow> bool" where
  "codec_ok encode decode \<longleftrightarrow> (\<forall>r b. encode r = Some b \<longrightarrow>
     decode b = Some r \<and> CHR 0x0A \<notin> set b \<and> b \<noteq> [] \<and> trim_space (drop_cr b) = b \<and> length b < maxResultLine \<and>
     (\<forall>n < length b. decode (trim_space (drop_cr (take n b))) = None))"

lemma load_lines_append:
  "load_lines decode ls out sk = (out', sk', False) \<Longrightarrow> load_lines decode (ls @ ms) out sk = load_lines decode ms out' sk'"
  by (induction ls arbitrary: out sk) (auto simp: Let_def split: if_splits option.splits)

lemma load_lines_good:
  assumes "codec_ok encode decode"
  shows "\<forall>r \<in> set rs. encode r \<noteq> None \<Longrightarrow> load_lines decode (map (\<lambda>r. the (encode r)) rs) out sk = (out @ rs, sk, False)"
proof (induction rs arbitrary: out)
  case (Cons r rs)
  obtain b where b: "encode r = Some b" using Cons.prems by auto
  then have "decode b = Some r" "b \<noteq> []" "trim_space (drop_cr b) = b" "length b < maxResultLine"
    using assms by (auto simp: codec_ok_def)
  then show ?case using Cons b by (simp add: Let_def)
qed simp

definition all_well :: "nat \<Rightarrow> append_calls" where
  "all_well n = \<lparr>dir_made = True, file_opened = True, bytes_written = n, synced = True\<rparr>"

text \<open>The file after a list of appends that went well.\<close>

definition append_all :: "('r \<Rightarrow> string option) \<Rightarrow> 'r list \<Rightarrow> string option" where
  "append_all encode rs = foldl (\<lambda>f r. fst (append_record encode (all_well (Suc (length (the (encode r))))) r f)) None rs"

lemma append_all_text:
  assumes "\<forall>r \<in> set rs. encode r \<noteq> None" "rs \<noteq> []"
  shows "append_all encode rs = Some (concat (map (\<lambda>r. the (encode r) @ [CHR 0x0A]) rs))"
  using assms
proof (induction rs rule: rev_induct)
  case (snoc r rs)
  obtain b where b: "encode r = Some b" using snoc.prems by auto
  show ?case
  proof (cases "rs = []")
    case True
    then show ?thesis using b by (simp add: append_all_def append_record_def all_well_def)
  next
    case False
    then show ?thesis using snoc b by (simp add: append_all_def append_record_def all_well_def)
  qed
qed simp

lemma split_lines:
  "\<forall>l \<in> set ls. CHR 0x0A \<notin> set l \<Longrightarrow> CHR 0x0A \<notin> set t \<Longrightarrow>
   split_on (CHR 0x0A) (concat (map (\<lambda>l. l @ [CHR 0x0A]) ls) @ t) = ls @ [t]"
proof (induction ls)
  case (Cons l ls)
  then show ?case using split_on_append [of "CHR 0x0A" l] by simp
qed (simp add: split_on_single)

lemma file_lines_torn:
  assumes "\<forall>l \<in> set ls. CHR 0x0A \<notin> set l" "CHR 0x0A \<notin> set t"
  shows "file_lines (concat (map (\<lambda>l. l @ [CHR 0x0A]) ls) @ t) = ls @ (if t = [] then [] else [t])"
  using split_lines [OF assms] by (simp add: file_lines_def Let_def)

lemma load_after_good:
  assumes "codec_ok encode decode" "\<forall>q \<in> set rs. encode q \<noteq> None" "CHR 0x0A \<notin> set t"
  shows "load_results decode (FileRead (concat (map (\<lambda>q. the (encode q) @ [CHR 0x0A]) rs) @ t) True) =
    (case load_lines decode (if t = [] then [] else [t]) rs 0 of (out, sk, long) \<Rightarrow> (out, sk, if long then Some LineTooLong else None))"
proof -
  let ?ls = "map (\<lambda>q. the (encode q)) rs"
  have "CHR 0x0A \<notin> set (the (encode q))" if "q \<in> set rs" for q
    using assms(1,2) that by (fastforce simp: codec_ok_def)
  then have "\<forall>l \<in> set ?ls. CHR 0x0A \<notin> set l" by simp
  from file_lines_torn [OF this assms(3)]
  have f: "file_lines (concat (map (\<lambda>q. the (encode q) @ [CHR 0x0A]) rs) @ t) = ?ls @ (if t = [] then [] else [t])"
    by (simp add: comp_def)
  have "load_lines decode ?ls [] 0 = (rs, 0, False)" using load_lines_good [OF assms(1,2), of "[]" 0] by simp
  from load_lines_append [OF this] show ?thesis by (simp add: load_results_def f)
qed

text \<open>A file of complete lines and then the first \<open>n\<close> bytes of one more.\<close>

lemma load_after_cut:
  assumes "codec_ok encode decode" "\<forall>q \<in> set rs. encode q \<noteq> None" "encode r = Some b"
  shows "\<exists>skipped. load_results decode (FileRead (concat (map (\<lambda>q. the (encode q) @ [CHR 0x0A]) rs) @ take n (b @ [CHR 0x0A])) True) =
      (rs @ (if length b \<le> n then [r] else []), skipped, None) \<and>
    skipped \<le> (if 0 < n \<and> n < length b then 1 else 0)"
proof -
  have B: "decode b = Some r" "CHR 0x0A \<notin> set b" "b \<noteq> []" "trim_space (drop_cr b) = b" "length b < maxResultLine"
    "\<And>n. n < length b \<Longrightarrow> decode (trim_space (drop_cr (take n b))) = None"
    using assms(1,3) by (auto simp: codec_ok_def)
  show ?thesis
  proof (cases "length b < n")
    case True
    have all: "\<forall>q \<in> set (rs @ [r]). encode q \<noteq> None" using assms(2,3) by simp
    show ?thesis using load_after_good [OF assms(1) all, of "[]"] True assms(3) by simp
  next
    case False
    then have t: "take n (b @ [CHR 0x0A]) = take n b" by simp
    have "CHR 0x0A \<notin> set (take n b)" using B(2) by (meson in_set_takeD)
    note L = load_after_good [OF assms(1,2) this]
    have n: "length (take n b) < maxResultLine" using B(5) by simp
    show ?thesis
    proof (cases "n = length b")
      case True
      then show ?thesis using L B n unfolding t by (simp add: Let_def)
    next
      case short: False
      then have "decode (trim_space (drop_cr (take n b))) = None" using B(6) False by simp
      then show ?thesis using L n short False unfolding t by (auto simp: Let_def)
    qed
  qed
qed

text \<open>C33. A crash costs at most the record being written. After any number of appends that went well and
  one that was cut short after \<open>n\<close> bytes, loading gives back every completed record, in order, and the last one
  too if all of it but the newline reached the file; at most one line is reported as skipped, and it is
  no error.\<close>

theorem results_survive_crash:
  assumes "codec_ok encode decode" "\<forall>q \<in> set rs. encode q \<noteq> None" "encode r = Some b"
    and "append_record encode (all_well n) r (append_all encode rs) = (file, err)"
  shows "\<exists>skipped. load_results decode (FileRead (the file) True) = (rs @ (if length b \<le> n then [r] else []), skipped, None) \<and>
    skipped \<le> (if 0 < n \<and> n < length b then 1 else 0) \<and> (err = None \<longleftrightarrow> length b < n)"
proof -
  let ?old = "concat (map (\<lambda>q. the (encode q) @ [CHR 0x0A]) rs)"
  have old: "(case append_all encode rs of None \<Rightarrow> [] | Some c \<Rightarrow> c) = ?old"
    using append_all_text [OF assms(2)] by (cases "rs = []") (simp_all add: append_all_def)
  have "the file = ?old @ take n (b @ [CHR 0x0A])" "err = None \<longleftrightarrow> length b < n"
    using assms(3,4) old by (auto simp: append_record_def all_well_def Let_def split: if_splits)
  then show ?thesis using load_after_cut [OF assms(1-3), of n] by simp
qed

text \<open>But the run after the crash pays, too: its line starts where the torn one stopped, so that a completed
  record is skipped with it.\<close>

theorem torn_line_swallows_next:
  assumes "codec_ok encode decode" "\<forall>q \<in> set rs. encode q \<noteq> None" "encode r = Some b" "encode r' = Some b'"
    and "0 < n" "n < length b" "length (take n b @ b') < maxResultLine" "decode (trim_space (drop_cr (take n b @ b'))) = None"
    and "append_record encode (all_well n) r (append_all encode rs) = (file, err)"
    and "append_record encode (all_well (Suc (length b'))) r' file = (file', err')"
  shows "err' = None \<and> fst (load_results decode (FileRead (the file') True)) = rs"
proof -
  let ?old = "concat (map (\<lambda>q. the (encode q) @ [CHR 0x0A]) rs)"
  have old: "(case append_all encode rs of None \<Rightarrow> [] | Some c \<Rightarrow> c) = ?old"
    using append_all_text [OF assms(2)] by (cases "rs = []") (simp_all add: append_all_def)
  have fl: "file = Some (?old @ take n b)"
    using assms(3,6,9) old by (auto simp: append_record_def all_well_def Let_def split: if_splits)
  have fl': "the file' = ?old @ (take n b @ b') @ [CHR 0x0A]" "err' = None"
    using assms(4,10) fl by (auto simp: append_record_def all_well_def Let_def)
  have nl: "CHR 0x0A \<notin> set (take n b @ b')" using assms(1,3,4) by (auto simp: codec_ok_def dest: in_set_takeD)
  let ?ls = "map (\<lambda>q. the (encode q)) rs @ [take n b @ b']"
  have "CHR 0x0A \<notin> set (the (encode q))" if "q \<in> set rs" for q using assms(1,2) that by (fastforce simp: codec_ok_def)
  then have "\<forall>l \<in> set ?ls. CHR 0x0A \<notin> set l" using nl by simp
  from file_lines_torn [OF this, of "[]"] have f: "file_lines (the file') = ?ls" by (simp add: fl' comp_def)
  have "load_lines decode (map (\<lambda>q. the (encode q)) rs) [] 0 = (rs, 0, False)" using load_lines_good [OF assms(1,2), of "[]" 0] by simp
  from load_lines_append [OF this] show ?thesis using assms(7,8) fl'(2) by (simp add: load_results_def f Let_def)
qed

text \<open>A codec of one bit.\<close>

definition sample_encode :: "bool \<Rightarrow> string option" where
  "sample_encode x = Some (if x then ''{1}'' else ''{0}'')"

definition sample_decode_line :: "string \<Rightarrow> bool option" where
  "sample_decode_line l = (if l = ''{1}'' then Some True else if l = ''{0}'' then Some False else None)"

lemma sample_codec: "codec_ok sample_encode sample_decode_line"
proof -
  have t: "trim_space (drop_cr ''{1}'') = ''{1}''" "trim_space (drop_cr ''{0}'') = ''{0}''" "trim_space (drop_cr ''{1'') = ''{1''"
    "trim_space (drop_cr ''{0'') = ''{0''" "trim_space (drop_cr ''{'') = ''{''" "trim_space (drop_cr []) = []"
    by code_simp+
  have n: "n < 3 \<Longrightarrow> n = 0 \<or> n = 1 \<or> n = 2" for n :: nat by linarith
  show ?thesis unfolding codec_ok_def
  proof (intro allI impI conjI)
    fix r b n assume e: "sample_encode r = Some b" and "n < length b"
    then have "n = 0 \<or> n = 1 \<or> n = 2" by (intro n) (auto simp: sample_encode_def split: if_splits)
    then show "sample_decode_line (trim_space (drop_cr (take n b))) = None"
      using e t by (cases r) (auto simp: sample_encode_def sample_decode_line_def numeral_2_eq_2)
  qed (auto simp: sample_encode_def sample_decode_line_def t maxResultLine_def)
qed

lemma results_survive_crash_witness:
  "\<exists>skipped. load_results sample_decode_line (FileRead (the (fst (append_record sample_encode (all_well 2) True (append_all sample_encode [True, False])))) True) =
     ([True, False], skipped, None) \<and> skipped \<le> 1"
proof -
  have b: "sample_encode True = Some ''{1}''" "\<forall>q \<in> set [True, False]. sample_encode q \<noteq> None" by (simp_all add: sample_encode_def)
  obtain fl err where run: "append_record sample_encode (all_well 2) True (append_all sample_encode [True, False]) = (fl, err)" by fastforce
  show ?thesis using results_survive_crash [OF sample_codec b(2,1) run] run by auto
qed

end
