(* ===== verification/Probe_Main.thy ===== *)
theory Probe_Main
  imports Probe Results_File Analyze
begin

text \<open>
  \<open>cmd/gnl-probe/main.go\<close>: the two subcommands around the probe, with their exit codes; a client run that ends
  well is one record more in the results file.
\<close>

section \<open>The subcommands\<close>

record client_args =
  ca_target :: string
  ca_leg :: string
  ca_from :: string
  ca_to :: string
  ca_rate :: int
  ca_duration :: nanos

datatype client_end = Missing string | BadLeg | ProbeFailed run_error | WriteRefused append_error | Measured probe_record

definition missing_flag :: "client_args \<Rightarrow> string" where
  "missing_flag a =
     (if ca_target a = [] then ''-target''
      else if ca_leg a = [] then ''-leg''
      else if ca_from a = [] then ''-from''
      else if ca_to a = [] then ''-to''
      else [])"

text \<open>\<open>evs\<close> is what happens during the run, \<open>t\<close> the time it ends, \<open>calls\<close> how the calls of \<open>Append\<close> go.\<close>

definition client_command ::
    "(probe_record \<Rightarrow> string option) \<Rightarrow> client_args \<Rightarrow> bool \<Rightarrow> bool \<Rightarrow> run_event list \<Rightarrow> nanos \<Rightarrow> append_calls \<Rightarrow>
      string option \<Rightarrow> string option \<times> client_end" where
  "client_command encode a resolves dials evs t calls results =
     (if missing_flag a \<noteq> [] then (results, Missing (missing_flag a))
      else if ca_leg a \<noteq> ''A'' \<and> ca_leg a \<noteq> ''B'' \<and> ca_leg a \<noteq> ''C'' then (results, BadLeg)
      else case run_client \<lparr>Rate = ca_rate a, Duration = ca_duration a, Grace = 0\<rparr> resolves dials evs of
        Inl e \<Rightarrow> (results, ProbeFailed e)
      | Inr (sm, _) \<Rightarrow>
          let r = \<lparr>TS = t, Leg = ca_leg a, From = ca_from a, To = ca_to a, Target = ca_target a, Summary = sm\<rparr> in
          (case append_record encode calls r results of
             (results', Some e) \<Rightarrow> (results', WriteRefused e)
           | (results', None) \<Rightarrow> (results', Measured r)))"

fun client_exit :: "client_end \<Rightarrow> nat" where
  "client_exit (Missing _) = 2"
| "client_exit BadLeg = 2"
| "client_exit (ProbeFailed _) = 1"
| "client_exit (WriteRefused _) = 1"
| "client_exit (Measured _) = 0"

text \<open>The server command: \<open>cancelled\<close> is whether the context had ended when \<open>Serve\<close> returned.\<close>

definition server_command :: "bool \<Rightarrow> 'a turn list \<Rightarrow> bool \<Rightarrow> nat option" where
  "server_command listens turns cancelled =
     (if \<not> listens then Some 1
      else case snd (serve_probes turns) of
        Serving \<Rightarrow> None
      | ServeCancelled \<Rightarrow> Some 0
      | ServeFailed \<Rightarrow> if cancelled then Some 0 else Some 1)"

datatype probe_main = ServerCommand | ClientCommand | UsageError

definition probe_command :: "string list \<Rightarrow> probe_main" where
  "probe_command args =
     (if length args < 2 then UsageError
      else if args ! 1 = ''server'' then ServerCommand
      else if args ! 1 = ''client'' then ClientCommand
      else UsageError)"

section \<open>A run is a record\<close>

definition read_of :: "string option \<Rightarrow> file_read" where
  "read_of results = (case results of None \<Rightarrow> FileMissing | Some c \<Rightarrow> FileRead c True)"

definition text_of :: "('r \<Rightarrow> string option) \<Rightarrow> 'r list \<Rightarrow> string" where
  "text_of encode rs = concat (map (\<lambda>q. the (encode q) @ [CHR 0x0A]) rs)"

lemma append_all_cases:
  assumes "\<forall>q \<in> set rs. encode q \<noteq> None"
  shows "(case append_all encode rs of None \<Rightarrow> [] | Some c \<Rightarrow> c) = text_of encode rs"
  using append_all_text [OF assms] by (cases "rs = []") (simp_all add: append_all_def text_of_def)

lemma load_kept:
  assumes "codec_ok encode decode" "\<forall>q \<in> set rs. encode q \<noteq> None"
  shows "load_results decode (read_of (append_all encode rs)) = (rs, 0, None)"
    "load_results decode (FileRead (text_of encode rs) True) = (rs, 0, None)"
proof -
  show "load_results decode (FileRead (text_of encode rs) True) = (rs, 0, None)"
    using load_after_good [OF assms, of "[]"] by (simp add: text_of_def)
  then show "load_results decode (read_of (append_all encode rs)) = (rs, 0, None)"
    using append_all_text [OF assms(2)] by (cases "rs = []") (simp_all add: append_all_def read_of_def load_results_def text_of_def)
qed

text \<open>However the calls of an append go, what was in the file stays, and at most this record comes after it.\<close>

lemma append_loads:
  assumes "codec_ok encode decode" "\<forall>q \<in> set rs. encode q \<noteq> None"
    and run: "append_record encode calls r (append_all encode rs) = (results', err)"
  shows "\<exists>extra skipped. load_results decode (read_of results') = (rs @ extra, skipped, None) \<and> skipped \<le> 1 \<and>
    extra \<in> {[], [r]} \<and> (err = None \<longrightarrow> extra = [r] \<and> skipped = 0)"
proof -
  note old = append_all_cases [OF assms(2)]
  consider (kept) "results' = append_all encode rs" "err \<noteq> None" | (none) "results' = Some (text_of encode rs)" "err \<noteq> None"
    | (cut) b n where "encode r = Some b" "results' = Some (text_of encode rs @ take n (b @ [CHR 0x0A]))" "err = None \<longrightarrow> length b < n"
  proof (cases "dir_made calls \<and> file_opened calls")
    case False
    then show thesis using run kept by (auto simp: append_record_def split: if_splits)
  next
    case True
    show thesis
    proof (cases "encode r")
      case None
      then show thesis using True run old none by (auto simp: append_record_def Let_def)
    next
      case (Some b)
      let ?n = "if bytes_written calls < Suc (length b) then bytes_written calls else Suc (length b)"
      have "results' = Some (text_of encode rs @ take ?n (b @ [CHR 0x0A]))" "err = None \<longrightarrow> length b < ?n"
        using True Some run old by (auto simp: append_record_def Let_def split: if_splits)
      then show thesis by (rule cut [OF Some])
    qed
  qed
  then show ?thesis
  proof cases
    case kept
    then show ?thesis using load_kept(1) [OF assms(1,2)] by simp
  next
    case none
    then show ?thesis using load_kept(2) [OF assms(1,2)] by (simp add: read_of_def)
  next
    case cut
    then obtain sk where "load_results decode (read_of results') = (rs @ (if length b \<le> n then [r] else []), sk, None)"
      "sk \<le> (if 0 < n \<and> n < length b then 1 else 0)"
      using load_after_cut [OF assms(1,2) cut(1), of n] by (auto simp: read_of_def text_of_def)
    then show ?thesis using cut(3) by (intro exI [of _ "if length b \<le> n then [r] else []"] exI [of _ sk]) (auto split: if_splits)
  qed
qed

text \<open>A client run leaves every record of the results file readable and adds at most its own. It exits with 0
  exactly when the record it measured is in the file and synced, on a leg the analysis knows, with the names
  given and the summary of what happened on the wire; bad arguments and a failed probe touch no file.\<close>

theorem probe_run_recorded:
  assumes "codec_ok encode decode" "\<forall>q \<in> set rs. encode q \<noteq> None"
    and "client_command encode a resolves dials evs t calls (append_all encode rs) = (results', e)"
  shows "\<exists>extra skipped. load_results decode (read_of results') = (rs @ extra, skipped, None) \<and> skipped \<le> 1 \<and>
    (client_exit e = 0 \<longrightarrow> skipped = 0 \<and> (\<exists>r rtts. e = Measured r \<and> extra = [r] \<and> Leg r \<in> {''A'', ''B'', ''C''} \<and>
       Leg r = ca_leg a \<and> From r = ca_from a \<and> To r = ca_to a \<and> From r \<noteq> [] \<and> To r \<noteq> [] \<and> TS r = t \<and>
       run_client \<lparr>Rate = ca_rate a, Duration = ca_duration a, Grace = 0\<rparr> resolves dials evs = Inr (Summary r, rtts))) \<and>
    (client_exit e = 2 \<or> (\<exists>err. e = ProbeFailed err) \<longrightarrow> extra = [] \<and> results' = append_all encode rs)"
proof -
  note kept = load_kept(1) [OF assms(1,2)]
  show ?thesis
  proof (cases "missing_flag a = [] \<and> ca_leg a \<in> {''A'', ''B'', ''C''}")
    case False
    then have "results' = append_all encode rs \<and> client_exit e = 2"
      using assms(3) by (auto simp: client_command_def split: if_splits)
    then show ?thesis using kept by simp
  next
    case args: True
    then have names: "ca_from a \<noteq> []" "ca_to a \<noteq> []" by (auto simp: missing_flag_def split: if_splits)
    show ?thesis
    proof (cases "run_client \<lparr>Rate = ca_rate a, Duration = ca_duration a, Grace = 0\<rparr> resolves dials evs")
      case (Inl err)
      then have "results' = append_all encode rs \<and> e = ProbeFailed err"
        using assms(3) args by (auto simp: client_command_def)
      then show ?thesis using kept by simp
    next
      case out: (Inr out)
      then obtain sm rtts where Inr: "run_client \<lparr>Rate = ca_rate a, Duration = ca_duration a, Grace = 0\<rparr> resolves dials evs = Inr (sm, rtts)"
        by (cases out) simp
      define r where "r = \<lparr>TS = t, Leg = ca_leg a, From = ca_from a, To = ca_to a, Target = ca_target a, Summary = sm\<rparr>"
      obtain res' oe where run: "append_record encode calls r (append_all encode rs) = (res', oe)" by fastforce
      have e: "results' = res' \<and> e = (case oe of None \<Rightarrow> Measured r | Some err \<Rightarrow> WriteRefused err)"
        using assms(3) args Inr run by (auto simp: client_command_def r_def split: option.splits prod.splits)
      show ?thesis using append_loads [OF assms(1,2) run] e args names Inr by (cases oe) (auto simp: r_def)
    qed
  qed
qed

text \<open>A run over the samples above, and a codec that knows one record.\<close>

definition sample_args :: client_args where
  "sample_args = \<lparr>ca_target = ''192.0.2.9:51830'', ca_leg = ''B'', ca_from = ''vn'', ca_to = ''sgp'', ca_rate = 0, ca_duration = 0\<rparr>"

definition sample_record :: probe_record where
  "sample_record = \<lparr>TS = 0, Leg = ''B'', From = ''vn'', To = ''sgp'', Target = ''192.0.2.9:51830'', Summary = summarize 1 [6000000]\<rparr>"

definition one_encode :: "probe_record \<Rightarrow> string option" where
  "one_encode r = (if r = sample_record then Some ''{1}'' else None)"

definition one_decode :: "string \<Rightarrow> probe_record option" where
  "one_decode l = (if l = ''{1}'' then Some sample_record else None)"

lemma one_codec: "codec_ok one_encode one_decode"
proof -
  have t: "trim_space (drop_cr ''{1}'') = ''{1}''" "trim_space (drop_cr ''{1'') = ''{1''" "trim_space (drop_cr ''{'') = ''{''"
    "trim_space (drop_cr []) = []"
    by code_simp+
  have n: "n < 3 \<Longrightarrow> n = 0 \<or> n = 1 \<or> n = 2" for n :: nat by linarith
  show ?thesis unfolding codec_ok_def
  proof (intro allI impI conjI)
    fix r b n assume e: "one_encode r = Some b" and "n < length b"
    then have "n = 0 \<or> n = 1 \<or> n = 2" by (intro n) (auto simp: one_encode_def split: if_splits)
    then show "one_decode (trim_space (drop_cr (take n b))) = None"
      using e t by (auto simp: one_encode_def one_decode_def numeral_2_eq_2 split: if_splits)
  qed (auto simp: one_encode_def one_decode_def t maxResultLine_def split: if_splits)
qed

theorem probe_run_recorded_witness:
  "client_exit (snd (client_command one_encode sample_args True True sample_run 0 (all_well 4) None)) = 0 \<and>
   fst (load_results one_decode (read_of (fst (client_command one_encode sample_args True True sample_run 0 (all_well 4) None)))) =
     [sample_record]"
proof -
  let ?run = "client_command one_encode sample_args True True sample_run 0 (all_well 4) None"
  have "?run = (Some (''{1}'' @ [CHR 0x0A]), Measured sample_record)"
    using sample_run_result(2)
    by (simp add: client_command_def sample_args_def missing_flag_def append_record_def all_well_def one_encode_def
        sample_record_def)
  then obtain res where run: "client_command one_encode sample_args True True sample_run 0 (all_well 4) (append_all one_encode []) =
      (res, Measured sample_record)" "?run = (res, Measured sample_record)"
    by (simp add: append_all_def)
  have "\<forall>q \<in> set []. one_encode q \<noteq> None" by simp
  from probe_run_recorded [OF one_codec this run(1)] show ?thesis using run(2) by auto
qed

end
