(* ===== verification/Winproc.thy ===== *)
theory Winproc
  imports Gamewatch
begin

text \<open>
  \<open>internal/client/winproc/list_windows.go\<close>: the names of the running processes through a toolhelp snapshot. What
  the calls return, in order, is an argument.
\<close>

datatype next_entry = NextName string | NoMoreFiles | NextFailed

datatype list_error = SnapshotFailed | FirstFailed | NextEntryFailed

text \<open>\<open>None\<close> is an enumeration still going on.\<close>

fun list_rest :: "string list \<Rightarrow> next_entry list \<Rightarrow> (list_error + string list) option" where
  "list_rest out [] = None"
| "list_rest out (NextName n # es) = list_rest (out @ [n]) es"
| "list_rest out (NoMoreFiles # es) = Some (Inr out)"
| "list_rest out (NextFailed # es) = Some (Inl NextEntryFailed)"

definition list_processes :: "bool \<Rightarrow> string option \<Rightarrow> next_entry list \<Rightarrow> (list_error + string list) option" where
  "list_processes snap first es =
     (if \<not> snap then Some (Inl SnapshotFailed)
      else case first of
        None \<Rightarrow> Some (Inl FirstFailed)
      | Some n \<Rightarrow> list_rest [n] es)"

lemma list_rest_iff:
  "list_rest out es = Some (Inr ns) \<longleftrightarrow> (\<exists>ms rest. ns = out @ ms \<and> es = map NextName ms @ NoMoreFiles # rest)"
proof (induction out es rule: list_rest.induct)
  case (2 out n es)
  have "(\<exists>ms rest. ns = (out @ [n]) @ ms \<and> es = map NextName ms @ NoMoreFiles # rest) \<longleftrightarrow>
      (\<exists>ms rest. ns = out @ ms \<and> NextName n # es = map NextName ms @ NoMoreFiles # rest)"
    by (auto simp: Cons_eq_append_conv Cons_eq_map_conv)
  then show ?case using 2 by simp
qed (auto simp: Cons_eq_append_conv)

text \<open>A list is returned only when the enumeration came to its end, and then it is all of it: one that broke off
  is never mistaken for a machine where the game has stopped.\<close>

lemma list_is_whole:
  "list_processes snap first es = Some (Inr ns) \<longleftrightarrow>
     snap \<and> (\<exists>n ms rest. first = Some n \<and> ns = n # ms \<and> es = map NextName ms @ NoMoreFiles # rest)"
  by (auto simp: list_processes_def list_rest_iff split: option.splits)

end
