(* ===== verification/Ui_View.thy ===== *)
theory Ui_View
  imports Ipc
begin

text \<open>
  \<open>cmd/gnl-ui/status.go\<close> and \<open>view.go\<close>: what the tray and the window say about one answer of the service.
  Strings are their UTF-8 bytes; \<open>fmt\<close> stands for the verbs \<open>%.0f\<close> and \<open>%.1f\<close>.
\<close>

section \<open>Answers\<close>

datatype ask_error = NoService | DeadlineExceeded | OtherError string

type_synonym answer = "ask_error + string ipc_response"

text \<open>Over the pipe an error is a string, empty when there is none.\<close>

definition error_text :: "string ipc_response \<Rightarrow> string" where
  "error_text r = (case rs_Error r of None \<Rightarrow> [] | Some e \<Rightarrow> e)"

definition says_connected :: "string ipc_response \<Rightarrow> bool" where
  "says_connected r \<longleftrightarrow> rs_State r = ''connected''"

datatype icon = StateOff | StateOn | StateFault

definition icon_for :: "answer \<Rightarrow> icon" where
  "icon_for ans =
     (case ans of
        Inl _ \<Rightarrow> StateOff
      | Inr r \<Rightarrow> if \<not> says_connected r then StateOff else if error_text r \<noteq> [] then StateFault else StateOn)"

definition friendly :: "ask_error \<Rightarrow> string" where
  "friendly e =
     (case e of
        NoService \<Rightarrow> ''The GameNoLag service is not running''
      | DeadlineExceeded \<Rightarrow> ''The service is not answering''
      | OtherError s \<Rightarrow> s)"

section \<open>One line\<close>

definition middle_dot :: string where "middle_dot = '' '' @ bytes [0xC2, 0xB7] @ '' ''"
definition em_dash :: string where "em_dash = '' '' @ bytes [0xE2, 0x80, 0x94] @ '' ''"
definition right_arrow :: string where "right_arrow = '' '' @ bytes [0xE2, 0x86, 0x92] @ '' ''"
definition ellipsis :: string where "ellipsis = bytes [0xE2, 0x80, 0xA6]"

definition summary_line :: "(nat \<Rightarrow> real \<Rightarrow> string) \<Rightarrow> answer \<Rightarrow> string" where
  "summary_line fmt ans =
     (case ans of
        Inl e \<Rightarrow> friendly e
      | Inr r \<Rightarrow>
          if \<not> says_connected r then
            (if error_text r \<noteq> [] then ''Not connected'' @ em_dash @ error_text r else ''Not connected'')
          else ''Connected'' @ (if rs_RelayID r \<noteq> [] then middle_dot @ rs_RelayID r else []) @
            (if rs_TunnelRTTms r > 0 then middle_dot @ fmt 0 (rs_TunnelRTTms r) @ '' ms'' else []))"

section \<open>Runes\<close>

text \<open>The bytes a rune may begin with: how many follow, and the bounds of the first of them.\<close>

definition rune_lead :: "nat \<Rightarrow> (nat \<times> nat \<times> nat) option" where
  "rune_lead b =
     (if b < 0x80 then Some (0, 0x80, 0xBF)
      else if b < 0xC2 then None
      else if b \<le> 0xDF then Some (1, 0x80, 0xBF)
      else if b = 0xE0 then Some (2, 0xA0, 0xBF)
      else if b = 0xED then Some (2, 0x80, 0x9F)
      else if b \<le> 0xEF then Some (2, 0x80, 0xBF)
      else if b = 0xF0 then Some (3, 0x90, 0xBF)
      else if b \<le> 0xF3 then Some (3, 0x80, 0xBF)
      else if b = 0xF4 then Some (3, 0x80, 0x8F)
      else None)"

definition rune_tail :: "nat \<times> nat \<times> nat \<Rightarrow> string \<Rightarrow> bool" where
  "rune_tail l cs \<longleftrightarrow>
     (case l of (n, lo, hi) \<Rightarrow> n = 0 \<or>
        n \<le> length cs \<and> lo \<le> byte_of (hd cs) \<and> byte_of (hd cs) \<le> hi \<and>
        list_all (\<lambda>c. 0x80 \<le> byte_of c \<and> byte_of c \<le> 0xBF) (take (n - 1) (tl cs)))"

definition rune_width :: "string \<Rightarrow> nat option" where
  "rune_width s =
     (case s of
        [] \<Rightarrow> None
      | c # cs \<Rightarrow>
          (case rune_lead (byte_of c) of
             None \<Rightarrow> None
           | Some l \<Rightarrow> if rune_tail l cs then Some (Suc (fst l)) else None))"

definition rune_error :: string where "rune_error = bytes [0xEF, 0xBF, 0xBD]"

text \<open>The conversion to \<open>[]rune\<close>, each rune as the bytes it is written back as; a byte that begins no rune
  becomes U+FFFD.\<close>

function runes :: "string \<Rightarrow> string list" where
  "runes [] = []"
| "runes (c # cs) =
     (case rune_width (c # cs) of
        Some (Suc n) \<Rightarrow> (c # take n cs) # runes (drop n cs)
      | _ \<Rightarrow> rune_error # runes cs)"
  by pat_completeness auto
termination by (relation "measure length") auto

definition maxTooltip :: nat where "maxTooltip = 127"

definition tooltip_text :: "(nat \<Rightarrow> real \<Rightarrow> string) \<Rightarrow> answer \<Rightarrow> string" where
  "tooltip_text fmt ans =
     ''GameNoLag'' @ em_dash @ summary_line fmt ans @
     (case ans of
        Inl _ \<Rightarrow> []
      | Inr r \<Rightarrow>
          if \<not> says_connected r then []
          else if rs_GameRunning r \<noteq> [] then CHR 0x0A # rs_GameRunning r @ '' is running; its traffic is on the relay''
          else CHR 0x0A # ''No game running; nothing is being routed'')"

definition tooltip :: "(nat \<Rightarrow> real \<Rightarrow> string) \<Rightarrow> answer \<Rightarrow> string" where
  "tooltip fmt ans =
     (let s = tooltip_text fmt ans; r = runes s in
      if length r > maxTooltip then concat (take (maxTooltip - 1) r) @ ellipsis else s)"

section \<open>The view\<close>

record rgb = rgb_R :: "8 word" rgb_G :: "8 word" rgb_B :: "8 word"

definition accentOn :: rgb where "accentOn = \<lparr>rgb_R = 0x4F, rgb_G = 0xD1, rgb_B = 0xE8\<rparr>"
definition accentFault :: rgb where "accentFault = \<lparr>rgb_R = 0xFF, rgb_G = 0x7A, rgb_B = 0x45\<rparr>"
definition accentOff :: rgb where "accentOff = \<lparr>rgb_R = 0x7B, rgb_G = 0x87, rgb_B = 0x94\<rparr>"

record view =
  vw_state :: icon
  vw_tag :: string
  vw_accent :: rgb
  vw_line :: string
  vw_rtt :: string
  vw_loss :: string
  vw_relay :: string
  vw_game :: string
  vw_routes :: string
  vw_problem :: string
  vw_button :: string
  vw_verb :: verb
  vw_canAct :: bool

definition view_of :: "(nat \<Rightarrow> real \<Rightarrow> string) \<Rightarrow> answer \<Rightarrow> view" where
  "view_of fmt ans =
     (let st = icon_for ans;
          v = \<lparr>vw_state = st,
               vw_tag = (case st of StateOn \<Rightarrow> ''UP'' | StateFault \<Rightarrow> ''FAULT'' | StateOff \<Rightarrow> ''OFF''),
               vw_accent = (case st of StateOn \<Rightarrow> accentOn | StateFault \<Rightarrow> accentFault | StateOff \<Rightarrow> accentOff),
               vw_line = summary_line fmt ans, vw_rtt = ''--'', vw_loss = ''--'', vw_relay = ''--'', vw_game = ''none'',
               vw_routes = ''0'',
               vw_problem = (case ans of Inr r \<Rightarrow> if st = StateFault then error_text r else [] | Inl _ \<Rightarrow> []),
               vw_button = ''Connect'', vw_verb = VerbConnect, vw_canAct = (case ans of Inl _ \<Rightarrow> False | Inr _ \<Rightarrow> True)\<rparr>
      in case ans of
           Inl _ \<Rightarrow> v
         | Inr r \<Rightarrow>
             let connected = says_connected r;
                 v1 = (if connected then
                         v\<lparr>vw_rtt := (if rs_TunnelRTTms r > 0 then fmt 0 (rs_TunnelRTTms r) else vw_rtt v),
                           vw_loss := fmt 1 (rs_LossPct r) @ ''%'',
                           vw_relay := (if rs_RelayID r \<noteq> [] then rs_RelayID r else vw_relay v),
                           vw_routes := dec (rs_ActiveRoutes r),
                           vw_button := ''Disconnect'', vw_verb := VerbDisconnect\<rparr>
                       else v)
             in if rs_GameRunning r \<noteq> [] then
                  v1\<lparr>vw_game := rs_GameRunning r @ (if connected then right_arrow @ ''relay'' else [])\<rparr>
                else v1)"

definition footnote :: "view \<Rightarrow> string" where
  "footnote v =
     (if vw_problem v \<noteq> [] then ''! '' @ vw_problem v
      else if vw_state v = StateOn then [] else vw_line v)"

section \<open>Cutting by runes\<close>

definition is_rune :: "string \<Rightarrow> bool" where
  "is_rune r \<longleftrightarrow> rune_width r = Some (length r)"

lemma rune_width_append:
  assumes "is_rune r"
  shows "rune_width (r @ s) = Some (length r)"
proof (cases r)
  case Nil
  then show ?thesis using assms by (simp add: is_rune_def rune_width_def)
next
  case (Cons c cs)
  then obtain n lo hi where l: "rune_lead (byte_of c) = Some (n, lo, hi)" "rune_tail (n, lo, hi) cs" "n = length cs"
    using assms by (auto simp: is_rune_def rune_width_def split: option.splits if_splits)
  have "rune_tail (n, lo, hi) (cs @ s)"
    using l(2,3) by (cases cs) (simp_all add: rune_tail_def)
  then show ?thesis using l(1,3) Cons by (simp add: rune_width_def)
qed

lemma runes_Cons: "is_rune r \<Longrightarrow> runes (r @ s) = r # runes s"
  using rune_width_append [of r s] by (cases r) (simp_all add: is_rune_def rune_width_def)

lemma runes_concat: "\<forall>r \<in> set rs. is_rune r \<Longrightarrow> runes (concat rs @ s) = rs @ runes s"
  by (induction rs) (simp_all add: runes_Cons)

lemma rune_error_ok: "is_rune rune_error"
  by code_simp

lemma ellipsis_ok: "is_rune ellipsis"
  by code_simp

lemma rune_width_take:
  assumes "rune_width (c # cs) = Some (Suc n)"
  shows "is_rune (c # take n cs)"
proof -
  obtain lo hi where l: "rune_lead (byte_of c) = Some (n, lo, hi)" "rune_tail (n, lo, hi) cs"
    using assms by (auto simp: rune_width_def split: option.splits if_splits)
  have "n \<le> length cs" using l(2) by (auto simp: rune_tail_def)
  moreover have "rune_tail (n, lo, hi) (take n cs)"
    using l(2) by (cases cs; cases n) (simp_all add: rune_tail_def)
  ultimately show ?thesis using l(1) by (simp add: is_rune_def rune_width_def)
qed

lemma runes_ok: "\<forall>r \<in> set (runes s). is_rune r"
proof (induction s rule: runes.induct)
  case (2 c cs)
  then show ?case
    using rune_width_take [of c cs] rune_error_ok by (auto split: option.split nat.split)
qed simp

text \<open>However long the names are, the tooltip has at most 127 characters: all of the text when it fits,
  otherwise its first 126 followed by an ellipsis. A cut never splits a character: what is shown decodes to
  whole runes.\<close>

theorem tooltip_fits:
  "length (runes (tooltip fmt ans)) \<le> maxTooltip \<and>
   (if length (runes (tooltip_text fmt ans)) \<le> maxTooltip then tooltip fmt ans = tooltip_text fmt ans
    else runes (tooltip fmt ans) = take (maxTooltip - 1) (runes (tooltip_text fmt ans)) @ [ellipsis])"
proof -
  let ?r = "runes (tooltip_text fmt ans)"
  have "\<forall>r \<in> set (take (maxTooltip - 1) ?r). is_rune r" using runes_ok [of "tooltip_text fmt ans"] by (meson in_set_takeD)
  from runes_concat [OF this, of ellipsis]
  have "runes (concat (take (maxTooltip - 1) ?r) @ ellipsis) = take (maxTooltip - 1) ?r @ [ellipsis]"
    using runes_Cons [OF ellipsis_ok, of "[]"] by simp
  then show ?thesis by (auto simp: tooltip_def Let_def maxTooltip_def)
qed

end
