(* ===== verification/Bounded_Queue.thy ===== *)
theory Bounded_Queue
  imports Prelude
begin

text \<open>
  What a buffer of limited size promises: after any number of additions it holds the newest ones, in order.
  The tray's ring of polls and its event log keep this contract.
\<close>

definition last_n :: "nat \<Rightarrow> 'a list \<Rightarrow> 'a list" where
  "last_n n xs = drop (length xs - n) xs"

lemma length_last_n [simp]: "length (last_n n xs) = min n (length xs)"
  by (simp add: last_n_def)

lemma last_n_short: "length xs \<le> n \<Longrightarrow> last_n n xs = xs"
  by (simp add: last_n_def)

text \<open>\<open>holds xs s\<close>: the state \<open>s\<close> is one reached by adding \<open>xs\<close>.\<close>

locale bounded_queue =
  fixes push :: "'x \<Rightarrow> 's \<Rightarrow> 's"
    and contents :: "'s \<Rightarrow> 'x list"
    and cap :: nat
    and holds :: "'x list \<Rightarrow> 's \<Rightarrow> bool"
  assumes holds_push: "holds xs s \<Longrightarrow> holds (xs @ [x]) (push x s)"
    and holds_contents: "holds xs s \<Longrightarrow> contents s = last_n cap xs"
begin

lemma holds_all: "holds xs s \<Longrightarrow> holds (xs @ map f ys) (foldl (\<lambda>s y. push (f y) s) s ys)"
proof (induction ys arbitrary: xs s)
  case (Cons y ys)
  from Cons.IH [OF holds_push [OF Cons.prems, of "f y"]] show ?case by simp
qed simp

lemma contents_all: "holds xs s \<Longrightarrow> contents (foldl (\<lambda>s y. push (f y) s) s ys) = last_n cap (xs @ map f ys)"
  by (rule holds_contents [OF holds_all])

lemma contents_bounded: "holds xs s \<Longrightarrow> length (contents s) \<le> cap"
  by (simp add: holds_contents)

lemma contents_push: "holds xs s \<Longrightarrow> contents (push x s) = last_n cap (last_n cap xs @ [x])"
  using holds_contents [OF holds_push, of xs s x] by (simp add: last_n_def drop_drop Suc_diff_le split: nat_diff_split)

end

end
