(* ===== verification/Ui_History.thy ===== *)
theory Ui_History
  imports Ui_View Bounded_Queue
begin

text \<open>
  \<open>cmd/gnl-ui/history.go\<close>: the ring of the last three minutes of polls and what the chart and the
  sparkline make of it. Floating point numbers are read as reals.
\<close>

section \<open>The ring\<close>

definition historyLen :: nat where "historyLen = 60"

record sample =
  sm_at :: nanos
  sm_rtt :: real
  sm_loss :: real
  sm_ok :: bool

definition sample_from :: "nanos \<Rightarrow> answer \<Rightarrow> sample" where
  "sample_from t ans =
     (let s = \<lparr>sm_at = t, sm_rtt = 0, sm_loss = 0, sm_ok = False\<rparr> in
      case ans of
        Inl _ \<Rightarrow> s
      | Inr r \<Rightarrow>
          if says_connected r \<and> rs_TunnelRTTms r > 0
          then s\<lparr>sm_rtt := rs_TunnelRTTms r, sm_loss := rs_LossPct r, sm_ok := True\<rparr> else s)"

definition zero_sample :: sample where
  "zero_sample = \<lparr>sm_at = - 62135596800 * second, sm_rtt = 0, sm_loss = 0, sm_ok = False\<rparr>"

record history =
  hs_buf :: "sample list"
  hs_next :: nat
  hs_n :: nat

definition new_history :: history where
  "new_history = \<lparr>hs_buf = replicate historyLen zero_sample, hs_next = 0, hs_n = 0\<rparr>"

definition add_sample :: "sample \<Rightarrow> history \<Rightarrow> history" where
  "add_sample s h =
     h\<lparr>hs_buf := (hs_buf h)[hs_next h := s], hs_next := (hs_next h + 1) mod historyLen,
       hs_n := (if hs_n h < historyLen then hs_n h + 1 else hs_n h)\<rparr>"

definition samples :: "history \<Rightarrow> sample list" where
  "samples h =
     (let start = (hs_next h + historyLen - hs_n h) mod historyLen
      in map (\<lambda>i. hs_buf h ! ((start + i) mod historyLen)) [0..<hs_n h])"

section \<open>Scales\<close>

fun rtt_span :: "(real \<times> real) option \<Rightarrow> sample list \<Rightarrow> (real \<times> real) option" where
  "rtt_span sp [] = sp"
| "rtt_span sp (s # ss) =
     (if \<not> sm_ok s then rtt_span sp ss
      else case sp of
        None \<Rightarrow> rtt_span (Some (sm_rtt s, sm_rtt s)) ss
      | Some (lo, hi) \<Rightarrow> rtt_span (Some (min lo (sm_rtt s), max hi (sm_rtt s))) ss)"

definition rtt_range :: "sample list \<Rightarrow> (real \<times> real) option" where
  "rtt_range ss =
     (case rtt_span None ss of
        None \<Rightarrow> None
      | Some (lo, hi) \<Rightarrow>
          let mid = (lo + hi) / 2; half = max ((hi - lo) / 2 * (12 / 10)) 5;
              lo' = mid - half; hi' = mid + half
          in Some (if lo' < 0 then (0, hi' - lo') else (lo', hi')))"

text \<open>\<open>math.Round\<close> rounds half away from zero; a conversion to \<open>int\<close> drops the fraction.\<close>

definition go_round :: "real \<Rightarrow> int" where
  "go_round x = (if x < 0 then - \<lfloor>- x + 1 / 2\<rfloor> else \<lfloor>x + 1 / 2\<rfloor>)"

definition go_int :: "real \<Rightarrow> int" where
  "go_int x = (if x < 0 then \<lceil>x\<rceil> else \<lfloor>x\<rfloor>)"

section \<open>The chart\<close>

type_synonym point = "int \<times> int"

text \<open>The runs of joined points: \<open>run\<close> is the one being drawn, \<open>i\<close> the slot of the next sample.\<close>

fun chart_runs :: "int \<Rightarrow> int \<Rightarrow> real \<Rightarrow> real \<Rightarrow> nat \<Rightarrow> point list \<Rightarrow> sample list \<Rightarrow> point list list" where
  "chart_runs w ht lo hi i run [] = (if run \<noteq> [] then [run] else [])"
| "chart_runs w ht lo hi i run (s # ss) =
     (if \<not> sm_ok s then
        (if run \<noteq> [] then run # chart_runs w ht lo hi (Suc i) [] ss else chart_runs w ht lo hi (Suc i) run ss)
      else
        let x = int i * (w - 1) div (int historyLen - 1);
            y = go_round (of_int (ht - 1) * (hi - sm_rtt s) / (hi - lo))
        in chart_runs w ht lo hi (Suc i) (run @ [(x, y)]) ss)"

definition chart :: "history \<Rightarrow> int \<Rightarrow> int \<Rightarrow> point list list" where
  "chart h w ht =
     (let ss = samples h in
      case rtt_range ss of
        None \<Rightarrow> []
      | Some (lo, hi) \<Rightarrow>
          if w < 2 \<or> ht < 2 then [] else chart_runs w ht lo hi (historyLen - length ss) [] ss)"

section \<open>The sparkline\<close>

definition sparkLevels :: int where "sparkLevels = 8"

definition spark_level :: "real \<Rightarrow> real \<Rightarrow> sample \<Rightarrow> int" where
  "spark_level lo hi s =
     (if \<not> sm_ok s then - 1
      else min (max (go_int ((sm_rtt s - lo) / (hi - lo) * of_int sparkLevels)) 0) (sparkLevels - 1))"

definition spark :: "history \<Rightarrow> nat \<Rightarrow> int list" where
  "spark h n =
     (let ss0 = samples h;
          ss = (if length ss0 > n then drop (length ss0 - n) ss0 else ss0);
          (lo, hi) = (case rtt_range ss of None \<Rightarrow> (0, 0) | Some r \<Rightarrow> r)
      in replicate (n - length ss) (- 1) @ map (spark_level lo hi) ss)"

section \<open>The ring holds the newest samples\<close>

text \<open>After the samples \<open>ss\<close>, sample \<open>k\<close> of them, if not overwritten since, is in slot \<open>k mod 60\<close>.\<close>

definition ring_of :: "sample list \<Rightarrow> history \<Rightarrow> bool" where
  "ring_of ss h \<longleftrightarrow> length (hs_buf h) = historyLen \<and> hs_next h = length ss mod historyLen \<and>
     hs_n h = min historyLen (length ss) \<and>
     (\<forall>k < length ss. length ss \<le> k + historyLen \<longrightarrow> hs_buf h ! (k mod historyLen) = ss ! k)"

lemma historyLen_pos [simp]: "0 < historyLen" "historyLen \<noteq> 0"
  by (simp_all add: historyLen_def)

lemma ring_new: "ring_of [] new_history"
  by (simp add: ring_of_def new_history_def)

lemma mod_apart:
  assumes "k < n" "n < k + m"
  shows "(k :: nat) mod m \<noteq> n mod m"
proof
  assume "k mod m = n mod m"
  then have "m dvd n - k" using assms(1) by (metis less_imp_le mod_eq_dvd_iff_nat)
  then show False using assms by (auto dest: dvd_imp_le)
qed

lemma ring_add:
  assumes "ring_of ss h"
  shows "ring_of (ss @ [s]) (add_sample s h)"
proof -
  have len: "length (hs_buf h) = historyLen" and nx: "hs_next h = length ss mod historyLen"
    and n: "hs_n h = min historyLen (length ss)"
    and old: "\<And>k. k < length ss \<Longrightarrow> length ss \<le> k + historyLen \<Longrightarrow> hs_buf h ! (k mod historyLen) = ss ! k"
    using assms by (auto simp: ring_of_def)
  have "hs_buf (add_sample s h) ! (k mod historyLen) = (ss @ [s]) ! k"
    if k: "k < length (ss @ [s])" "length (ss @ [s]) \<le> k + historyLen" for k
  proof (cases "k = length ss")
    case True
    then show ?thesis using nx len by (simp add: add_sample_def)
  next
    case False
    then have "k < length ss" "k mod historyLen \<noteq> length ss mod historyLen"
      using k mod_apart [of k "length ss" historyLen] by auto
    then show ?thesis using nx old [of k] k by (simp add: add_sample_def nth_append)
  qed
  then show ?thesis using len nx n by (auto simp: ring_of_def add_sample_def mod_Suc_eq)
qed

lemma ring_samples:
  assumes "ring_of ss h"
  shows "samples h = last_n historyLen ss"
proof (rule nth_equalityI)
  have n: "hs_n h = min historyLen (length ss)" using assms by (simp add: ring_of_def)
  show len: "length (samples h) = length (last_n historyLen ss)" using n by (simp add: samples_def last_n_def)
  fix i assume "i < length (samples h)"
  then have i: "i < min historyLen (length ss)" using n by (simp add: samples_def)
  let ?d = "length ss - historyLen"
  have "(length ss mod historyLen + historyLen - hs_n h) mod historyLen = ?d mod historyLen"
  proof (cases "length ss < historyLen")
    case False
    then have "length ss mod historyLen = ?d mod historyLen" by (simp add: le_mod_geq)
    then show ?thesis using n False by simp
  qed (simp add: n)
  then have "((length ss mod historyLen + historyLen - hs_n h) mod historyLen + i) mod historyLen = (?d + i) mod historyLen"
    by (metis mod_add_left_eq)
  then have "samples h ! i = hs_buf h ! ((?d + i) mod historyLen)"
    using assms i n by (simp add: samples_def ring_of_def)
  also have "\<dots> = ss ! (?d + i)"
  proof -
    have "?d + i < length ss" "length ss \<le> ?d + i + historyLen" using i by auto
    then show ?thesis using assms unfolding ring_of_def by blast
  qed
  finally show "samples h ! i = last_n historyLen ss ! i" using i by (simp add: last_n_def)
qed

interpretation ring: bounded_queue add_sample samples historyLen ring_of
  by unfold_locales (rule ring_add, assumption, rule ring_samples)

section \<open>The chart stays in its box\<close>

lemma rtt_span_bounds:
  "rtt_span sp ss = Some (lo, hi) \<Longrightarrow>
     (\<forall>l h. sp = Some (l, h) \<longrightarrow> l \<le> h \<and> lo \<le> l \<and> h \<le> hi \<or> h < l) \<and>
     (\<forall>s \<in> set ss. sm_ok s \<longrightarrow> lo \<le> sm_rtt s \<and> sm_rtt s \<le> hi)"
proof (induction ss arbitrary: sp)
  case (Cons s ss)
  show ?case
  proof (cases "sm_ok s")
    case False
    then show ?thesis using Cons by auto
  next
    case True
    then show ?thesis
    proof (cases sp)
      case None
      then have "rtt_span (Some (sm_rtt s, sm_rtt s)) ss = Some (lo, hi)" using Cons.prems True by simp
      from Cons.IH [OF this] show ?thesis using None by auto
    next
      case (Some r)
      then obtain l h where r: "sp = Some (l, h)" by (cases r) auto
      then have "rtt_span (Some (min l (sm_rtt s), max h (sm_rtt s))) ss = Some (lo, hi)" using Cons.prems True by simp
      from Cons.IH [OF this] show ?thesis using r by (auto simp: min_def max_def split: if_splits)
    qed
  qed
qed auto

lemma rtt_span_None: "rtt_span sp ss = None \<longleftrightarrow> sp = None \<and> (\<forall>s \<in> set ss. \<not> sm_ok s)"
  by (induction ss arbitrary: sp) (auto simp del: not_None_eq split: option.split)

lemma rtt_range_bounds:
  assumes "rtt_range ss = Some (lo, hi)" "\<forall>s \<in> set ss. sm_ok s \<longrightarrow> 0 \<le> sm_rtt s"
  shows "10 \<le> hi - lo" "0 \<le> lo" "\<forall>s \<in> set ss. sm_ok s \<longrightarrow> lo \<le> sm_rtt s \<and> sm_rtt s \<le> hi"
proof -
  obtain l h where sp: "rtt_span None ss = Some (l, h)"
    using assms(1) by (auto simp: rtt_range_def split: option.splits)
  define half where "half = max ((h - l) / 2 * (12 / 10)) 5"
  define m where "m = (l + h) / 2"
  have half: "5 \<le> half" "(h - l) / 2 * (12 / 10) \<le> half" by (simp_all add: half_def)
  have r: "(lo, hi) = (if (l + h) / 2 - half < 0 then (0, (l + h) / 2 + half - ((l + h) / 2 - half)) else ((l + h) / 2 - half, (l + h) / 2 + half))"
    using assms(1) unfolding rtt_range_def sp option.case prod.case Let_def half_def option.inject by (rule sym)
  show "10 \<le> hi - lo" "0 \<le> lo" using r half by (auto split: if_splits)
  have in_span: "l \<le> sm_rtt s \<and> sm_rtt s \<le> h" if "s \<in> set ss" "sm_ok s" for s
    using rtt_span_bounds [OF sp] that by blast
  show "\<forall>s \<in> set ss. sm_ok s \<longrightarrow> lo \<le> sm_rtt s \<and> sm_rtt s \<le> hi"
  proof (intro ballI impI)
    fix s assume s: "s \<in> set ss" "sm_ok s"
    have b: "l \<le> sm_rtt s" "sm_rtt s \<le> h" "0 \<le> sm_rtt s" using in_span [OF s] assms(2) s by auto
    then have "(l + h) / 2 - half \<le> sm_rtt s" "sm_rtt s \<le> (l + h) / 2 + half" using half by (simp_all add: field_simps)
    then have m: "m - half \<le> sm_rtt s" "sm_rtt s \<le> m + half" by (simp_all only: m_def)
    have "(lo, hi) = (if m - half < 0 then (0, m + half - (m - half)) else (m - half, m + half))"
      using r unfolding m_def .
    then have "(m < half \<and> lo = 0 \<and> hi = half + half) \<or> (lo = m - half \<and> hi = m + half)" by (auto split: if_splits)
    then show "lo \<le> sm_rtt s \<and> sm_rtt s \<le> hi" using m b(3) by (elim disjE conjE) linarith+
  qed
qed

definition in_box :: "int \<Rightarrow> int \<Rightarrow> point \<Rightarrow> bool" where
  "in_box w ht p \<longleftrightarrow> 0 \<le> fst p \<and> fst p < w \<and> 0 \<le> snd p \<and> snd p < ht"

lemma chart_x:
  assumes "i < historyLen" "2 \<le> w"
  shows "0 \<le> int i * (w - 1) div (int historyLen - 1)" "int i * (w - 1) div (int historyLen - 1) < w"
proof -
  have p: "0 < int historyLen - 1" "int i \<le> int historyLen - 1" using assms(1) by (simp_all add: historyLen_def)
  then show "0 \<le> int i * (w - 1) div (int historyLen - 1)" using assms(2) by (simp add: pos_imp_zdiv_nonneg_iff)
  have "int i * (w - 1) \<le> (int historyLen - 1) * (w - 1)" using p assms(2) by (intro mult_right_mono) auto
  then have "int i * (w - 1) div (int historyLen - 1) \<le> (int historyLen - 1) * (w - 1) div (int historyLen - 1)"
    using p by (intro zdiv_mono1) auto
  then show "int i * (w - 1) div (int historyLen - 1) < w" using p by simp
qed

lemma chart_y:
  assumes "lo < hi" "lo \<le> r" "r \<le> hi" "1 \<le> ht"
  shows "0 \<le> go_round (of_int (ht - 1) * (hi - r) / (hi - lo))" "go_round (of_int (ht - 1) * (hi - r) / (hi - lo)) < ht"
proof -
  let ?v = "of_int (ht - 1) * (hi - r) / (hi - lo)"
  have v0: "0 \<le> ?v" using assms by (intro divide_nonneg_pos mult_nonneg_nonneg) auto
  have "(hi - r) / (hi - lo) \<le> 1" using assms by simp
  then have "of_int (ht - 1) * ((hi - r) / (hi - lo)) \<le> of_int (ht - 1) * 1" using assms(4) by (intro mult_left_mono) auto
  then have "?v \<le> of_int (ht - 1)" by simp
  then have v1: "?v + 1 / 2 < of_int ht" by simp
  have "0 \<le> \<lfloor>?v + 1 / 2\<rfloor>" using v0 by (simp add: le_floor_iff)
  moreover have "\<lfloor>?v + 1 / 2\<rfloor> < ht" using v1 by (simp only: floor_less_iff)
  moreover have "go_round ?v = \<lfloor>?v + 1 / 2\<rfloor>" using v0 by (simp only: go_round_def not_less [symmetric] if_False)
  ultimately show "0 \<le> go_round ?v" "go_round ?v < ht" by simp_all
qed

lemma chart_runs_in_box:
  assumes "2 \<le> w" "2 \<le> ht" "lo < hi"
  shows "i + length ss \<le> historyLen \<Longrightarrow> \<forall>s \<in> set ss. sm_ok s \<longrightarrow> lo \<le> sm_rtt s \<and> sm_rtt s \<le> hi \<Longrightarrow>
     \<forall>p \<in> set run. in_box w ht p \<Longrightarrow>
     (\<forall>r \<in> set (chart_runs w ht lo hi i run ss). r \<noteq> [] \<and> (\<forall>p \<in> set r. in_box w ht p)) \<and>
     length (concat (chart_runs w ht lo hi i run ss)) = length run + length (filter sm_ok ss)"
proof (induction ss arbitrary: i run)
  case (Cons s ss)
  show ?case
  proof (cases "sm_ok s")
    case False
    have p: "Suc i + length ss \<le> historyLen" "\<forall>s \<in> set ss. sm_ok s \<longrightarrow> lo \<le> sm_rtt s \<and> sm_rtt s \<le> hi"
      using Cons.prems by simp_all
    show ?thesis
    proof (cases "run = []")
      case True
      then show ?thesis using Cons.IH [OF p, of run] Cons.prems(3) False by simp
    next
      case nonempty: False
      have "\<forall>p \<in> set []. in_box w ht p" by simp
      from Cons.IH [OF p this] show ?thesis using Cons.prems(3) False nonempty by simp
    qed
  next
    case True
    let ?p = "(int i * (w - 1) div (int historyLen - 1), go_round (of_int (ht - 1) * (hi - sm_rtt s) / (hi - lo)))"
    have "in_box w ht ?p"
      using chart_x [of i w] chart_y [OF assms(3), of "sm_rtt s" ht] assms Cons.prems True by (simp add: in_box_def)
    then have "\<forall>p \<in> set (run @ [?p]). in_box w ht p" using Cons.prems(3) by simp
    then show ?thesis using Cons.IH [of "Suc i" "run @ [?p]"] Cons.prems True by (simp add: Let_def)
  qed
qed simp

section \<open>Properties\<close>

text \<open>The ring after the polls \<open>ps\<close>.\<close>

definition after_polls :: "(nanos \<times> answer) list \<Rightarrow> history" where
  "after_polls ps = foldl (\<lambda>h p. add_sample (sample_from (fst p) (snd p)) h) new_history ps"

lemma samples_after_polls:
  "samples (after_polls ps) = last_n historyLen (map (\<lambda>p. sample_from (fst p) (snd p)) ps)"
  using ring.contents_all [OF ring_new, of "\<lambda>p. sample_from (fst p) (snd p)" ps] by (simp add: after_polls_def)

lemma sample_from_rtt: "sm_ok (sample_from t ans) \<Longrightarrow> 0 < sm_rtt (sample_from t ans)"
  by (auto simp: sample_from_def Let_def split: sum.splits if_splits)

lemma samples_rtt: "s \<in> set (samples (after_polls ps)) \<Longrightarrow> sm_ok s \<Longrightarrow> 0 \<le> sm_rtt s"
proof -
  assume "s \<in> set (samples (after_polls ps))" "sm_ok s"
  then obtain p where "s = sample_from (fst p) (snd p)" by (auto simp: samples_after_polls last_n_def dest!: in_set_dropD)
  then show "0 \<le> sm_rtt s" using sample_from_rtt \<open>sm_ok s\<close> by (simp add: less_imp_le)
qed

lemma spark_level_bounds: "- 1 \<le> spark_level lo hi s \<and> spark_level lo hi s < sparkLevels"
  "spark_level lo hi s = - 1 \<longleftrightarrow> \<not> sm_ok s"
  by (auto simp: spark_level_def sparkLevels_def)

text \<open>C36. However many polls went by, the ring is the abstract queue of the newest sixty, oldest first. The
  chart draws every one of them that carries a measurement, and no other, as a point inside its box, and
  leaves no run empty; the sparkline is as long as asked, its bars are of the eight levels, and it is blank
  exactly where a poll has no measurement or there was none yet.\<close>

theorem history_is_last_polls:
  assumes "h = after_polls ps"
  shows "samples h = last_n historyLen (map (\<lambda>p. sample_from (fst p) (snd p)) ps) \<and>
    (2 \<le> w \<and> 2 \<le> ht \<longrightarrow>
       (\<forall>run \<in> set (chart h w ht). run \<noteq> [] \<and> (\<forall>p \<in> set run. in_box w ht p)) \<and>
       length (concat (chart h w ht)) = length (filter sm_ok (samples h))) \<and>
    (\<exists>levels. spark h n = replicate (n - length (samples h)) (- 1) @ levels \<and>
       list_all2 (\<lambda>l s. - 1 \<le> l \<and> l < sparkLevels \<and> (l = - 1 \<longleftrightarrow> \<not> sm_ok s)) levels (last_n n (samples h)))"
proof (intro conjI impI)
  show "samples h = last_n historyLen (map (\<lambda>p. sample_from (fst p) (snd p)) ps)"
    using samples_after_polls assms by simp
  have pos: "\<forall>s \<in> set (samples h). sm_ok s \<longrightarrow> 0 \<le> sm_rtt s" using samples_rtt assms by blast
  have len: "length (samples h) \<le> historyLen" by (simp add: assms samples_after_polls last_n_def)
  assume box: "2 \<le> w \<and> 2 \<le> ht"
  have *: "(\<forall>run \<in> set (chart h w ht). run \<noteq> [] \<and> (\<forall>p \<in> set run. in_box w ht p)) \<and>
       length (concat (chart h w ht)) = length (filter sm_ok (samples h))"
  proof (cases "rtt_range (samples h)")
    case None
    then have "\<forall>s \<in> set (samples h). \<not> sm_ok s"
      using rtt_span_None [of None "samples h"] by (auto simp: rtt_range_def Let_def split: option.splits)
    then show ?thesis using None by (simp add: chart_def filter_empty_conv)
  next
    case (Some r)
    obtain lo hi where r: "r = (lo, hi)" by (cases r)
    note b = rtt_range_bounds [OF Some [unfolded r] pos]
    have lt: "lo < hi" using b(1) by simp
    have "historyLen - length (samples h) + length (samples h) \<le> historyLen" using len by simp
    moreover have "chart h w ht = chart_runs w ht lo hi (historyLen - length (samples h)) [] (samples h)"
      using Some r box by (simp add: chart_def Let_def)
    moreover have "\<forall>p \<in> set []. in_box w ht p" by simp
    ultimately show ?thesis
      using chart_runs_in_box [OF conjunct1 [OF box] conjunct2 [OF box] lt _ b(3), of "historyLen - length (samples h)" "[]"]
      by (metis add_0 list.size(3))
  qed
  then show "\<forall>run \<in> set (chart h w ht). run \<noteq> [] \<and> (\<forall>p \<in> set run. in_box w ht p)"
    "length (concat (chart h w ht)) = length (filter sm_ok (samples h))" by blast+
next
  let ?ss = "last_n n (samples h)"
  obtain lo hi where "(case rtt_range ?ss of None \<Rightarrow> (0, 0) | Some r \<Rightarrow> r) = (lo, hi)" by fastforce
  moreover have "(if length (samples h) > n then drop (length (samples h) - n) (samples h) else samples h) = ?ss"
    by (simp add: last_n_def)
  ultimately have "spark h n = replicate (n - length ?ss) (- 1) @ map (spark_level lo hi) ?ss"
    by (simp add: spark_def Let_def)
  moreover have "n - length ?ss = n - length (samples h)" by (simp add: last_n_def)
  moreover have "list_all2 (\<lambda>l s. - 1 \<le> l \<and> l < sparkLevels \<and> (l = - 1 \<longleftrightarrow> \<not> sm_ok s)) (map (spark_level lo hi) ?ss) ?ss"
    using spark_level_bounds by (simp add: list_all2_map1 list_all2_same)
  ultimately show "\<exists>levels. spark h n = replicate (n - length (samples h)) (- 1) @ levels \<and>
       list_all2 (\<lambda>l s. - 1 \<le> l \<and> l < sparkLevels \<and> (l = - 1 \<longleftrightarrow> \<not> sm_ok s)) levels ?ss"
    by (intro exI [of _ "map (spark_level lo hi) ?ss"] conjI) (simp_all only:)
qed

text \<open>Three polls: no service, then 40 and 60 milliseconds.\<close>

definition sample_polls :: "(nanos \<times> answer) list" where
  "sample_polls =
     [(0, Inl NoService),
      (3 * second, Inr (no_status\<lparr>rs_State := ''connected'', rs_TunnelRTTms := 40\<rparr>)),
      (6 * second, Inr (no_status\<lparr>rs_State := ''connected'', rs_TunnelRTTms := 60\<rparr>))]"

theorem history_is_last_polls_witness:
  "length (concat (chart (after_polls sample_polls) 100 50)) = 2 \<and> length (samples (after_polls sample_polls)) = 3"
proof -
  have s: "map (\<lambda>p. sample_from (fst p) (snd p)) sample_polls =
      [\<lparr>sm_at = 0, sm_rtt = 0, sm_loss = 0, sm_ok = False\<rparr>, \<lparr>sm_at = 3 * second, sm_rtt = 40, sm_loss = 0, sm_ok = True\<rparr>,
       \<lparr>sm_at = 6 * second, sm_rtt = 60, sm_loss = 0, sm_ok = True\<rparr>]"
    by (simp add: sample_polls_def sample_from_def says_connected_def no_status_def)
  show ?thesis
    using history_is_last_polls [of "after_polls sample_polls" sample_polls 100 50 0] s
    by (simp add: last_n_def historyLen_def)
qed

end
