(* ===== verification/Ui_Events.thy ===== *)
theory Ui_Events
  imports Ui_View Bounded_Queue
begin

text \<open>
  \<open>cmd/gnl-ui/events.go\<close>: the log of changes the window shows, from one poll to the next.
\<close>

section \<open>Polls compared\<close>

datatype level = LevelInfo | LevelWarn | LevelErr

record log_event =
  ev_at :: nanos
  ev_text :: string
  ev_level :: level

definition maxEvents :: nat where "maxEvents = 50"

record observed =
  ob_reachable :: bool
  ob_why :: string
  ob_connected :: bool
  ob_relay :: string
  ob_game :: string
  ob_problem :: string

definition nothing_observed :: observed where
  "nothing_observed = \<lparr>ob_reachable = False, ob_why = [], ob_connected = False, ob_relay = [], ob_game = [], ob_problem = []\<rparr>"

definition observe :: "answer \<Rightarrow> observed" where
  "observe ans =
     (case ans of
        Inl e \<Rightarrow> nothing_observed\<lparr>ob_why := friendly e\<rparr>
      | Inr r \<Rightarrow> \<lparr>ob_reachable = True, ob_why = [], ob_connected = says_connected r, ob_relay = rs_RelayID r,
          ob_game = rs_GameRunning r, ob_problem = error_text r\<rparr>)"

definition or_dash :: "string \<Rightarrow> string" where
  "or_dash s = (if s = [] then ''--'' else s)"

text \<open>The lines of one comparison with their levels; the time is filled in by \<open>record\<close>.\<close>

definition link_changes :: "observed \<Rightarrow> observed \<Rightarrow> (level \<times> string) list" where
  "link_changes prev cur =
     (if ob_connected cur \<and> \<not> ob_connected prev then
        [(LevelInfo, ''connected'' @ middle_dot @ ''relay '' @ or_dash (ob_relay cur))]
      else if \<not> ob_connected cur \<and> ob_connected prev \<and> ob_problem cur \<noteq> [] then
        [(LevelWarn, ''disconnected: '' @ ob_problem cur)]
      else if \<not> ob_connected cur \<and> ob_connected prev then
        [(LevelInfo, ''disconnected'' @ middle_dot @ ''traffic on the ordinary path'')]
      else if ob_connected cur \<and> ob_relay cur \<noteq> ob_relay prev then
        [(LevelWarn, ''relay '' @ or_dash (ob_relay prev) @ right_arrow @ or_dash (ob_relay cur))]
      else [])"

definition game_changes :: "observed \<Rightarrow> observed \<Rightarrow> (level \<times> string) list" where
  "game_changes prev cur =
     (if ob_game cur \<noteq> ob_game prev then
        (if ob_game prev \<noteq> [] then [(LevelInfo, ob_game prev @ '' stopped'')] else []) @
        (if ob_game cur \<noteq> [] then [(LevelInfo, ob_game cur @ '' running'')] else [])
      else [])"

definition fault_changes :: "observed \<Rightarrow> observed \<Rightarrow> (level \<times> string) list" where
  "fault_changes prev cur =
     (if \<not> ob_connected cur then []
      else if ob_problem cur \<noteq> [] \<and> ob_problem cur \<noteq> ob_problem prev then [(LevelErr, ''fault: '' @ ob_problem cur)]
      else if ob_problem cur = [] \<and> ob_problem prev \<noteq> [] \<and> ob_connected prev then [(LevelInfo, ''fault cleared'')]
      else [])"

definition changes :: "observed \<Rightarrow> observed \<Rightarrow> (level \<times> string) list" where
  "changes prev cur =
     (if \<not> ob_reachable cur then
        (if ob_reachable prev then [(LevelErr, ''service lost: '' @ ob_why cur)] else [])
      else
        let back = (if \<not> ob_reachable prev then [(LevelInfo, ''service answering'')] else []);
            prev' = (if \<not> ob_reachable prev then nothing_observed\<lparr>ob_reachable := True\<rparr> else prev)
        in back @ link_changes prev' cur @ game_changes prev' cur @ fault_changes prev' cur)"

section \<open>The log\<close>

record event_log =
  lg_items :: "log_event list"
  lg_prev :: observed
  lg_started :: bool

definition new_log :: event_log where
  "new_log = \<lparr>lg_items = [], lg_prev = nothing_observed, lg_started = False\<rparr>"

definition push_event :: "log_event \<Rightarrow> log_event list \<Rightarrow> log_event list" where
  "push_event e items = (if length items = maxEvents then take (maxEvents - 1) (tl items) else items) @ [e]"

definition note_event :: "nanos \<Rightarrow> level \<Rightarrow> string \<Rightarrow> event_log \<Rightarrow> event_log" where
  "note_event t lv s l = l\<lparr>lg_items := push_event \<lparr>ev_at = t, ev_text = s, ev_level = lv\<rparr> (lg_items l)\<rparr>"

text \<open>A reply that names no state is no poll. The first poll is compared with a service that answered and was
  idle.\<close>

definition names_no_state :: "answer \<Rightarrow> bool" where
  "names_no_state ans = (case ans of Inr r \<Rightarrow> rs_State r = [] | Inl _ \<Rightarrow> False)"

definition idle_service :: observed where
  "idle_service = nothing_observed\<lparr>ob_reachable := True\<rparr>"

definition event_of :: "nanos \<Rightarrow> level \<times> string \<Rightarrow> log_event" where
  "event_of t c = \<lparr>ev_at = t, ev_text = snd c, ev_level = fst c\<rparr>"

definition record_poll :: "nanos \<Rightarrow> answer \<Rightarrow> event_log \<Rightarrow> event_log" where
  "record_poll t ans l =
     (if names_no_state ans then l
      else
        let cur = observe ans; prev = (if lg_started l then lg_prev l else idle_service) in
        l\<lparr>lg_items := foldl (\<lambda>is c. push_event (event_of t c) is) (lg_items l) (changes prev cur),
          lg_prev := cur, lg_started := True\<rparr>)"

definition recent :: "nat \<Rightarrow> event_log \<Rightarrow> log_event list" where
  "recent n l = drop (length (lg_items l) - min n (length (lg_items l))) (lg_items l)"

section \<open>What the log tells\<close>

definition last_events :: "log_event list \<Rightarrow> log_event list" where
  "last_events es = last_n maxEvents es"

lemma push_last: "push_event e (last_events es) = last_events (es @ [e])"
proof (cases "length es < maxEvents")
  case True
  then show ?thesis by (simp add: push_event_def last_events_def last_n_def)
next
  case False
  then obtain k where k: "length es = maxEvents + k" by (auto simp: not_less le_iff_add)
  then have l: "last_events es = drop k es" "length (drop k es) = maxEvents" by (simp_all add: last_events_def last_n_def)
  have "take (maxEvents - 1) (tl (drop k es)) = drop (Suc k) es"
    using k by (simp add: tl_drop drop_Suc)
  moreover have "last_events (es @ [e]) = drop (Suc k) es @ [e]"
    using k by (simp add: last_events_def last_n_def maxEvents_def)
  ultimately show ?thesis using l by (simp add: push_event_def)
qed

interpretation events: bounded_queue push_event id maxEvents "\<lambda>es items. items = last_events es"
  by unfold_locales (simp_all add: push_last, simp add: last_events_def)

lemmas push_all_last = events.contents_all [OF refl, unfolded id_apply, folded last_events_def]

lemma length_last_events: "length (last_events es) \<le> maxEvents"
  using events.contents_bounded [OF refl] by simp

text \<open>The facts a log is about: whether the service answers, whether it is connected, the game, and the relay and
  the fault of a connection.\<close>

definition same_facts :: "observed \<Rightarrow> observed \<Rightarrow> bool" where
  "same_facts p c \<longleftrightarrow> ob_reachable p = ob_reachable c \<and>
     (ob_reachable c \<longrightarrow> ob_connected p = ob_connected c \<and> ob_game p = ob_game c \<and>
        (ob_connected c \<longrightarrow> ob_relay p = ob_relay c \<and> ob_problem p = ob_problem c))"

lemma changes_Nil_iff: "changes p c = [] \<longleftrightarrow> same_facts p c"
  by (auto simp: changes_def link_changes_def game_changes_def fault_changes_def same_facts_def Let_def)

text \<open>What the log is given, and the log without bound: what happened between each poll and the one before it.\<close>

datatype log_input = Polled nanos answer | Noted nanos level string

fun log_step :: "event_log \<Rightarrow> log_input \<Rightarrow> event_log" where
  "log_step l (Polled t ans) = record_poll t ans l"
| "log_step l (Noted t lv s) = note_event t lv s l"

fun full_story :: "observed \<Rightarrow> log_input list \<Rightarrow> log_event list" where
  "full_story prev [] = []"
| "full_story prev (Noted t lv s # ins) = event_of t (lv, s) # full_story prev ins"
| "full_story prev (Polled t ans # ins) =
     (if names_no_state ans then full_story prev ins
      else map (event_of t) (changes prev (observe ans)) @ full_story (observe ans) ins)"

definition compared_with :: "event_log \<Rightarrow> observed" where
  "compared_with l = (if lg_started l then lg_prev l else idle_service)"

lemma log_story:
  "lg_items l = last_events es \<Longrightarrow>
     lg_items (foldl log_step l ins) = last_events (es @ full_story (compared_with l) ins)"
proof (induction ins arbitrary: l es)
  case (Cons i ins)
  show ?case
  proof (cases i)
    case (Noted t lv s)
    let ?l = "log_step l i"
    have "lg_items ?l = last_events (es @ [event_of t (lv, s)])"
      using Cons.prems by (simp add: Noted note_event_def event_of_def push_last)
    from Cons.IH [OF this] show ?thesis by (simp add: Noted note_event_def compared_with_def)
  next
    case (Polled t ans)
    let ?l = "log_step l i"
    show ?thesis
    proof (cases "names_no_state ans")
      case True
      then show ?thesis using Cons.IH [OF Cons.prems] by (simp add: Polled record_poll_def)
    next
      case False
      then have "lg_items ?l = last_events (es @ map (event_of t) (changes (compared_with l) (observe ans)))"
        using Cons.prems by (simp add: Polled record_poll_def compared_with_def push_all_last Let_def)
      from Cons.IH [OF this] show ?thesis using False
        by (simp add: Polled record_poll_def compared_with_def Let_def)
    qed
  qed
qed simp

text \<open>C37. The log shows the newest fifty lines of the whole story: every difference between one poll and the
  last, in order, with the lines of failed buttons between them. Between two polls it tells something exactly
  when the service was lost or found, the tunnel came or went, the game changed, or, while connected, the relay
  or the fault did; a service that keeps saying the same is silent.\<close>

theorem log_tells_changes:
  "lg_items (foldl log_step new_log ins) = last_events (full_story idle_service ins) \<and>
   length (lg_items (foldl log_step new_log ins)) \<le> maxEvents \<and>
   (full_story p [Polled t ans] = [] \<longleftrightarrow> names_no_state ans \<or> same_facts p (observe ans))"
proof -
  have "lg_items new_log = last_events []" by (simp add: new_log_def last_events_def last_n_def)
  from log_story [OF this, of ins] show ?thesis
    using length_last_events by (auto simp: new_log_def compared_with_def changes_Nil_iff)
qed

end
