(* ===== verification/Ui.thy ===== *)
theory Ui
  imports Ui_History Ui_Events
begin

text \<open>
  \<open>cmd/gnl-ui/main_windows.go\<close> and the windows' side of \<open>window_windows.go\<close>: the tray as a state machine on the
  GUI thread, over polls, the answers to verbs and clicks in any order. The widgets are what they show and
  whether they are enabled; drawing is not part of it.
\<close>

section \<open>State\<close>

definition pollEvery :: nanos where "pollEvery = 3 * second"
definition doubleClick :: nanos where "doubleClick = 500 * millisecond"

datatype notice = ShowError string | ShowWarning string

record panels =
  pn_mini :: bool
  pn_full :: bool
  pn_lastToggle :: nanos
  pn_label :: string
  pn_actOn :: bool
  pn_reloadOn :: bool

text \<open>\<open>ui_flights\<close> are the goroutines of \<open>send\<close> waiting for their answer; \<open>ui_win\<close> is nil when the window
  could not be built.\<close>

record ui =
  ui_status :: string
  ui_tip :: string
  ui_icon :: icon
  ui_connectOn :: bool
  ui_disconOn :: bool
  ui_reloadOn :: bool
  ui_busy :: bool
  ui_pending :: string
  ui_shown :: icon
  ui_view :: view
  ui_hist :: history
  ui_log :: event_log
  ui_win :: "panels option"
  ui_flights :: "verb list"
  ui_notices :: "notice list"

section \<open>Operations\<close>

definition refresh_panels :: "ui \<Rightarrow> panels \<Rightarrow> panels" where
  "refresh_panels u p =
     (let v = ui_view u; enabled = vw_canAct v \<and> \<not> ui_busy u;
          label = (if ui_busy u then ui_pending u else vw_button v)
      in p\<lparr>pn_label := label, pn_actOn := enabled, pn_reloadOn := enabled\<rparr>)"

definition refresh :: "ui \<Rightarrow> ui" where
  "refresh u = u\<lparr>ui_win := map_option (refresh_panels u) (ui_win u)\<rparr>"

definition new_panels :: "ui \<Rightarrow> panels" where
  "new_panels u = refresh_panels u \<lparr>pn_mini = False, pn_full = False, pn_lastToggle = - 62135596800 * second,
     pn_label = ''Connect'', pn_actOn = True, pn_reloadOn = True\<rparr>"

text \<open>\<open>failed\<close> is why the window could not be built, if it could not.\<close>

definition ui_build :: "(nat \<Rightarrow> real \<Rightarrow> string) \<Rightarrow> string option \<Rightarrow> ui" where
  "ui_build fmt failed =
     (let u = \<lparr>ui_status = ''Not connected'', ui_tip = ''GameNoLag'' @ em_dash @ ''not connected'', ui_icon = StateOff,
               ui_connectOn = True, ui_disconOn = False, ui_reloadOn = True, ui_busy = False, ui_pending = [],
               ui_shown = StateOff, ui_view = view_of fmt (Inr no_status), ui_hist = new_history, ui_log = new_log,
               ui_win = None, ui_flights = [], ui_notices = []\<rparr>
      in case failed of
           None \<Rightarrow> u\<lparr>ui_win := Some (new_panels u)\<rparr>
         | Some err \<Rightarrow> u\<lparr>ui_notices := [ShowError (''Could not create the window: '' @ err)]\<rparr>)"

definition set_busy :: "string \<Rightarrow> ui \<Rightarrow> ui" where
  "set_busy text u =
     refresh (u\<lparr>ui_status := text, ui_connectOn := False, ui_disconOn := False, ui_reloadOn := False\<rparr>)"

definition send :: "verb \<Rightarrow> string \<Rightarrow> ui \<Rightarrow> ui" where
  "send v pending u =
     (if ui_busy u then u
      else (set_busy pending (u\<lparr>ui_busy := True, ui_pending := pending\<rparr>))\<lparr>ui_flights := ui_flights u @ [v]\<rparr>)"

definition answers_connected :: "answer \<Rightarrow> bool" where
  "answers_connected ans = (case ans of Inl _ \<Rightarrow> False | Inr r \<Rightarrow> says_connected r)"

definition answered :: "answer \<Rightarrow> bool" where
  "answered ans = (case ans of Inl _ \<Rightarrow> False | Inr _ \<Rightarrow> True)"

definition fault_text :: "answer \<Rightarrow> string" where
  "fault_text ans = (case ans of Inl _ \<Rightarrow> [] | Inr r \<Rightarrow> error_text r)"

definition show_answer :: "(nat \<Rightarrow> real \<Rightarrow> string) \<Rightarrow> answer \<Rightarrow> ui \<Rightarrow> ui" where
  "show_answer fmt ans u =
     (let connected = answers_connected ans; next = icon_for ans;
          u1 = u\<lparr>ui_connectOn := answered ans \<and> \<not> connected, ui_disconOn := connected, ui_reloadOn := answered ans,
                 ui_status := summary_line fmt ans, ui_tip := tooltip fmt ans\<rparr>;
          u2 = (if next \<noteq> ui_shown u then
                  u1\<lparr>ui_icon := next,
                     ui_notices := ui_notices u @ (if next = StateFault then [ShowWarning (fault_text ans)] else []),
                     ui_shown := next\<rparr>
                else u1)
      in refresh u2)"

definition verb_answer :: "(nat \<Rightarrow> real \<Rightarrow> string) \<Rightarrow> nanos \<Rightarrow> verb \<Rightarrow> answer \<Rightarrow> ui \<Rightarrow> ui" where
  "verb_answer fmt t v ans u =
     (let u0 = u\<lparr>ui_busy := False\<rparr> in
      case ans of
        Inl e \<Rightarrow>
          let u1 = show_answer fmt (Inl e) (u0\<lparr>ui_log := note_event t LevelErr (v @ '' failed: '' @ friendly e) (ui_log u)\<rparr>)
          in u1\<lparr>ui_notices := ui_notices u1 @ [ShowError (friendly e)]\<rparr>
      | Inr r \<Rightarrow>
          let u1 = (if \<not> rs_OK r \<and> error_text r \<noteq> [] then
                      u0\<lparr>ui_log := note_event t LevelErr (v @ '' failed: '' @ error_text r) (ui_log u),
                         ui_notices := ui_notices u @ [ShowError (error_text r)]\<rparr>
                    else u0)
          in show_answer fmt (Inr r) u1)"

definition poll_answer :: "(nat \<Rightarrow> real \<Rightarrow> string) \<Rightarrow> nanos \<Rightarrow> nanos \<Rightarrow> answer \<Rightarrow> ui \<Rightarrow> ui" where
  "poll_answer fmt t t' ans u =
     (let u1 = u\<lparr>ui_hist := add_sample (sample_from t ans) (ui_hist u), ui_view := view_of fmt ans,
                 ui_log := record_poll t' ans (ui_log u)\<rparr>
      in if ui_busy u then u1 else show_answer fmt ans u1)"

section \<open>The windows\<close>

definition on_panels :: "(panels \<Rightarrow> panels) \<Rightarrow> ui \<Rightarrow> ui" where
  "on_panels f u = (case ui_win u of None \<Rightarrow> u | Some p \<Rightarrow> u\<lparr>ui_win := Some (f p)\<rparr>)"

definition show_mini :: "ui \<Rightarrow> ui" where
  "show_mini u = refresh (on_panels (\<lambda>p. p\<lparr>pn_mini := True\<rparr>) u)"

definition toggle_mini :: "nanos \<Rightarrow> ui \<Rightarrow> ui" where
  "toggle_mini t u =
     (case ui_win u of
        None \<Rightarrow> u
      | Some p \<Rightarrow>
          if t - pn_lastToggle p < doubleClick then u
          else
            let u1 = on_panels (\<lambda>p. p\<lparr>pn_lastToggle := t\<rparr>) u in
            if pn_mini p then on_panels (\<lambda>p. p\<lparr>pn_mini := False\<rparr>) u1 else show_mini u1)"

definition show_full :: "ui \<Rightarrow> ui" where
  "show_full u = refresh (on_panels (\<lambda>p. p\<lparr>pn_mini := False, pn_full := True\<rparr>) u)"

definition collapse :: "ui \<Rightarrow> ui" where
  "collapse u = show_mini (on_panels (\<lambda>p. p\<lparr>pn_full := False\<rparr>) u)"

text \<open>The text with an ellipsis that a control shows while its verb is in flight.\<close>

definition pending_text :: "verb \<Rightarrow> string" where
  "pending_text v =
     (if v = VerbDisconnect then ''Disconnecting'' else if v = VerbReloadProfile then ''Refreshing'' else ''Connecting'') @ ellipsis"

definition act :: "ui \<Rightarrow> ui" where
  "act u = (let v = ui_view u in send (vw_verb v) (pending_text (if vw_verb v = VerbDisconnect then VerbDisconnect else VerbConnect)) u)"

section \<open>The GUI thread\<close>

datatype ui_event =
    PollAnswered nanos nanos answer
  | VerbAnswered nanos answer
  | ClickConnect | ClickDisconnect | ClickReload | ClickAct
  | TrayClick nanos | OpenWindow | CollapseWindow | HideMini | CloseFull

fun ui_step :: "(nat \<Rightarrow> real \<Rightarrow> string) \<Rightarrow> ui \<Rightarrow> ui_event \<Rightarrow> ui" where
  "ui_step fmt u (PollAnswered t t' ans) = poll_answer fmt t t' ans u"
| "ui_step fmt u (VerbAnswered t ans) =
     (case ui_flights u of
        [] \<Rightarrow> u
      | v # vs \<Rightarrow> verb_answer fmt t v ans (u\<lparr>ui_flights := vs\<rparr>))"
| "ui_step fmt u ClickConnect = send VerbConnect (pending_text VerbConnect) u"
| "ui_step fmt u ClickDisconnect = send VerbDisconnect (pending_text VerbDisconnect) u"
| "ui_step fmt u ClickReload = send VerbReloadProfile (pending_text VerbReloadProfile) u"
| "ui_step fmt u ClickAct = act u"
| "ui_step fmt u (TrayClick t) = toggle_mini t u"
| "ui_step fmt u OpenWindow = show_full u"
| "ui_step fmt u CollapseWindow = collapse u"
| "ui_step fmt u HideMini = on_panels (\<lambda>p. p\<lparr>pn_mini := False\<rparr>) u"
| "ui_step fmt u CloseFull = on_panels (\<lambda>p. p\<lparr>pn_full := False\<rparr>) u"

definition ui_run :: "(nat \<Rightarrow> real \<Rightarrow> string) \<Rightarrow> string option \<Rightarrow> ui_event list \<Rightarrow> ui" where
  "ui_run fmt failed evs = foldl (ui_step fmt) (ui_build fmt failed) evs"

end
