(* ===== verification/Ui_Paint.thy ===== *)
theory Ui_Paint
  imports Ui "HOL-Library.Signed_Division"
begin

text \<open>
  The drawing of \<open>cmd/gnl-ui/window_windows.go\<close>: what each part of the windows puts where, as a list of drawing
  commands in pixels. \<open>s\<close> scales a length at 96 dpi to the monitor's (\<open>walk.IntFrom96DPI\<close>); the GDI objects a
  command needs are taken to be there.
\<close>

section \<open>Commands\<close>

record rect = rX :: int rY :: int rW :: int rH :: int

definition rectangle :: "int \<Rightarrow> int \<Rightarrow> int \<Rightarrow> int \<Rightarrow> rect" where
  "rectangle x y w h = \<lparr>rX = x, rY = y, rW = w, rH = h\<rparr>"

datatype font = Plain | Big | Huge
datatype align = TextLeft | TextRight

datatype draw =
    Fill rect rgb | Frame rect rgb | Text string font rgb rect align | Mark icon rect
  | Line point point rgb | Polyline "point list" int rgb

definition cBackground :: rgb where "cBackground = \<lparr>rgb_R = 0x08, rgb_G = 0x0B, rgb_B = 0x10\<rparr>"
definition cPanel :: rgb where "cPanel = \<lparr>rgb_R = 0x05, rgb_G = 0x07, rgb_B = 0x0A\<rparr>"
definition cRule :: rgb where "cRule = \<lparr>rgb_R = 0x16, rgb_G = 0x20, rgb_B = 0x2B\<rparr>"
definition cText :: rgb where "cText = \<lparr>rgb_R = 0xC9, rgb_G = 0xD4, rgb_B = 0xE0\<rparr>"
definition cBright :: rgb where "cBright = \<lparr>rgb_R = 0xE8, rgb_G = 0xEE, rgb_B = 0xF5\<rparr>"
definition cDim :: rgb where "cDim = \<lparr>rgb_R = 0x6E, rgb_G = 0x7C, rgb_B = 0x8C\<rparr>"
definition cWarn :: rgb where "cWarn = \<lparr>rgb_R = 0xF2, rgb_G = 0xB8, rgb_B = 0x4B\<rparr>"

definition level_colour :: "level \<Rightarrow> rgb" where
  "level_colour l = (case l of LevelErr \<Rightarrow> accentFault | LevelWarn \<Rightarrow> cWarn | LevelInfo \<Rightarrow> cText)"

definition rtt_colour :: "view \<Rightarrow> rgb" where
  "rtt_colour v = (if vw_rtt v = ''--'' then cDim else cBright)"

definition inset :: "rect \<Rightarrow> int \<Rightarrow> rect" where
  "inset r d = rectangle (rX r + d) (rY r + d) (rW r - 2 * d) (rH r - 2 * d)"

section \<open>Chart and sparkline\<close>

definition paint_chart :: "(int \<Rightarrow> int) \<Rightarrow> history \<Rightarrow> rect \<Rightarrow> rgb \<Rightarrow> draw list" where
  "paint_chart s h r accent =
     (let b = inset r (s 10) in
      [Fill r cPanel, Frame r cRule] @
      map (\<lambda>i. let gy = rY b + (rH b * int i) sdiv 4 in Line (rX b, gy) (rX b + rW b, gy) cRule) [1..<4] @
      map (\<lambda>run. let pts = map (\<lambda>q. (rX b + fst q, rY b + snd q)) run in
             if length pts = 1 then Fill (rectangle (fst (hd pts) - s 1) (snd (hd pts) - s 1) (s 3) (s 3)) accent
             else Polyline pts (s 2) accent)
        (chart h (rW b) (rH b)))"

definition sparkBars :: nat where "sparkBars = 12"

definition paint_spark :: "(int \<Rightarrow> int) \<Rightarrow> history \<Rightarrow> rect \<Rightarrow> rgb \<Rightarrow> draw list" where
  "paint_spark s h r accent =
     (let levels = spark h sparkBars;
          step = rW r sdiv int (length levels);
          bar = max (step - s 2) 1
      in map (\<lambda>(i, l).
           let bx = rX r + int i * step in
           if l < 0 then Fill (rectangle bx (rY r + rH r - s 2) bar (s 2)) cRule
           else let ht = ((l + 1) * rH r) sdiv sparkLevels in Fill (rectangle bx (rY r + rH r - ht) bar ht) accent)
         (enumerate 0 levels))"

section \<open>The panels\<close>

definition paint_head :: "(int \<Rightarrow> int) \<Rightarrow> string \<Rightarrow> view \<Rightarrow> rect \<Rightarrow> draw list" where
  "paint_head s title v b =
     (let size = s 16; y = rY b + (rH b - size) sdiv 2; x = rX b + size + s 8 in
      [Mark (vw_state v) (rectangle (rX b) y size size),
       Text title Plain cBright (rectangle x (rY b) (rW b - x) (rH b)) TextLeft,
       Text (vw_tag v) Plain (vw_accent v) (rectangle x (rY b) (rW b - x - s 4) (rH b)) TextRight])"

definition paint_mini_head :: "(int \<Rightarrow> int) \<Rightarrow> view \<Rightarrow> rect \<Rightarrow> draw list" where
  "paint_mini_head s = paint_head s ''gnl''"

definition paint_full_head :: "(int \<Rightarrow> int) \<Rightarrow> view \<Rightarrow> rect \<Rightarrow> draw list" where
  "paint_full_head s = paint_head s ''gamenolag ~/status''"

definition paint_mini_body :: "(int \<Rightarrow> int) \<Rightarrow> view \<Rightarrow> history \<Rightarrow> rect \<Rightarrow> draw list" where
  "paint_mini_body s v h b =
     (let x = rX b; y = rY b; wd = rW b;
          rows = [(''loss'', vw_loss v), (''relay'', vw_relay v), (''game'', vw_game v)];
          y0 = y + s 40; y1 = y0 + int (length rows) * s 20
      in [Text ''rtt'' Plain cDim (rectangle x y (s 40) (s 34)) TextLeft,
          Text (vw_rtt v @ '' ms'') Big (rtt_colour v) (rectangle (x + s 40) y (s 140) (s 34)) TextLeft] @
         paint_spark s h (rectangle (x + wd - s 96) (y + s 8) (s 96) (s 20)) (vw_accent v) @
         concat (map (\<lambda>(i, kv). let ry = y0 + int i * s 20 in
           [Text (fst kv) Plain cDim (rectangle x ry (s 60) (s 20)) TextLeft,
            Text (snd kv) Plain cText (rectangle (x + s 60) ry (wd - s 60) (s 20)) TextRight]) (enumerate 0 rows)) @
         (let note = footnote v in
          if note \<noteq> [] then
            [Text note Plain (if vw_problem v \<noteq> [] then accentFault else cDim) (rectangle x (y1 + s 4) wd (s 20)) TextLeft]
          else []))"

text \<open>\<open>clock\<close> writes a time as \<open>15:04:05\<close>.\<close>

definition event_rows :: "(int \<Rightarrow> int) \<Rightarrow> rect \<Rightarrow> int" where
  "event_rows s panel = (rH (inset panel (s 10)) - s 20) sdiv s 18"

text \<open>\<open>recent\<close> slices its list; with a negative number the slice is out of range and Go panics.\<close>

definition recent_go :: "int \<Rightarrow> event_log \<Rightarrow> log_event list option" where
  "recent_go n l = (if n < 0 then None else Some (recent (nat n) l))"

definition paint_events :: "(int \<Rightarrow> int) \<Rightarrow> (nanos \<Rightarrow> string) \<Rightarrow> event_log \<Rightarrow> rect \<Rightarrow> draw list option" where
  "paint_events s clock l panel =
     (let b = inset panel (s 10); line = s 18; ly = rY b + s 20 in
      map_option (\<lambda>es.
        [Fill panel cPanel, Frame panel cRule,
         Text ''EVENTS'' Plain cDim (rectangle (rX b) (rY b) (rW b) (s 16)) TextLeft] @
        concat (map (\<lambda>(i, e). let y = ly + int i * line in
          [Text (clock (ev_at e)) Plain cDim (rectangle (rX b) y (s 80) line) TextLeft,
           Text (ev_text e) Plain (level_colour (ev_level e)) (rectangle (rX b + s 84) y (rW b - s 84) line) TextLeft])
          (enumerate 0 es)))
        (recent_go (event_rows s panel) l))"

definition full_chart_rect :: "(int \<Rightarrow> int) \<Rightarrow> rect \<Rightarrow> rect" where
  "full_chart_rect s b = rectangle (rX b) (rY b + s 90) ((rW b * 2) sdiv 3 - s 14 sdiv 2) (s 200)"

definition full_events_rect :: "(int \<Rightarrow> int) \<Rightarrow> rect \<Rightarrow> rect" where
  "full_events_rect s b =
     (let ch = full_chart_rect s b; ey = rY ch + rH ch + s 14 + s 22
      in rectangle (rX b) ey (rW b) (rY b + rH b - ey))"

definition paint_full_body ::
    "(int \<Rightarrow> int) \<Rightarrow> (nanos \<Rightarrow> string) \<Rightarrow> view \<Rightarrow> history \<Rightarrow> event_log \<Rightarrow> rect \<Rightarrow> draw list option" where
  "paint_full_body s clock v h l b =
     (let gap = s 14; x = rX b; y = rY b; wd = rW b;
          left = (wd * 2) sdiv 3 - gap sdiv 2; right = x + left + gap; rightW = wd - left - gap;
          ch = full_chart_rect s b;
          tiles = [(''LOSS'', vw_loss v), (''ROUTES'', vw_routes v), (''RELAY'', vw_relay v), (''GAME'', vw_game v)];
          status = (if vw_problem v \<noteq> [] then footnote v else vw_line v);
          colour = (if vw_problem v \<noteq> [] then accentFault else cDim);
          panel = full_events_rect s b;
          top =
            [Text (''TUNNEL RTT'' @ middle_dot @ ''3 min'') Plain cDim (rectangle x y left (s 18)) TextLeft,
             Text (vw_rtt v @ '' ms'') Huge (rtt_colour v) (rectangle x (y + s 18) left (s 64)) TextLeft] @
            paint_chart s h ch (vw_accent v) @
            concat (map (\<lambda>(i, kv).
              let tile = rectangle right (y + int i * (s 62 + s 10)) rightW (s 62); t = inset tile (s 12) in
              [Fill tile cPanel, Frame tile cRule,
               Text (fst kv) Plain cDim (rectangle (rX t) (rY t) (rW t) (s 16)) TextLeft,
               Text (snd kv) Big cBright (rectangle (rX t) (rY t + s 16) (rW t) (s 24)) TextLeft]) (enumerate 0 tiles)) @
            [Text status Plain colour (rectangle x (rY ch + rH ch + gap) wd (s 18)) TextLeft]
      in if rH panel < s 40 then Some top
         else map_option (\<lambda>es. top @ es) (paint_events s clock l panel))"

section \<open>Everything in its place\<close>

text \<open>\<open>IntFrom96DPI\<close> multiplies and rounds to the nearest integer.\<close>

definition scales :: "(int \<Rightarrow> int) \<Rightarrow> int \<Rightarrow> bool" where
  "scales s dpi \<longleftrightarrow> 96 \<le> dpi \<and> (\<forall>v. \<bar>real_of_int (s v) - real_of_int (v * dpi) / 96\<bar> \<le> 1 / 2)"

lemma scalesD:
  assumes "scales s dpi"
  shows "96 \<le> dpi" "v * dpi - 48 \<le> 96 * s v" "96 * s v \<le> v * dpi + 48"
proof -
  show "96 \<le> dpi" using assms by (simp add: scales_def)
  have a: "\<bar>real_of_int (s v) - real_of_int (v * dpi) / 96\<bar> \<le> 1 / 2" using assms unfolding scales_def by blast
  then have "real_of_int (v * dpi - 48) \<le> real_of_int (96 * s v)" "real_of_int (96 * s v) \<le> real_of_int (v * dpi + 48)"
    unfolding of_int_diff of_int_add by (simp_all add: abs_le_iff field_simps)
  then show "v * dpi - 48 \<le> 96 * s v" "96 * s v \<le> v * dpi + 48" by (simp_all only: of_int_le_iff)
qed

lemma scales_ge:
  assumes "scales s dpi" "0 \<le> v"
  shows "v \<le> s v"
proof -
  have "v * 96 \<le> v * dpi" using scalesD(1) [OF assms(1)] assms(2) by (rule mult_left_mono)
  then show ?thesis using scalesD(2) [OF assms(1), of v] by linarith
qed

lemma scales_sum:
  assumes "scales s dpi"
  shows "- 2 \<le> s 40 - 2 * s 10 - s 20"
  using scalesD(2) [OF assms, of 40] scalesD(3) [OF assms, of 10] scalesD(3) [OF assms, of 20] by linarith

definition rect_inside :: "rect \<Rightarrow> rect \<Rightarrow> bool" where
  "rect_inside q r \<longleftrightarrow> rX r \<le> rX q \<and> rX q + rW q \<le> rX r + rW r \<and> rY r \<le> rY q \<and> rY q + rH q \<le> rY r + rH r"

definition point_inside :: "point \<Rightarrow> rect \<Rightarrow> bool" where
  "point_inside p r \<longleftrightarrow> rX r \<le> fst p \<and> fst p < rX r + rW r \<and> rY r \<le> snd p \<and> snd p < rY r + rH r"

lemma rectangle_simps [simp]:
  "rX (rectangle x y w h) = x" "rY (rectangle x y w h) = y" "rW (rectangle x y w h) = w" "rH (rectangle x y w h) = h"
  by (simp_all add: rectangle_def)

lemma inset_simps [simp]:
  "rX (inset r d) = rX r + d" "rY (inset r d) = rY r + d" "rW (inset r d) = rW r - 2 * d" "rH (inset r d) = rH r - 2 * d"
  by (simp_all add: inset_def)

text \<open>The chart of the polls, in any box.\<close>

lemma chart_in_box:
  assumes "run \<in> set (chart (after_polls ps) w ht)" "q \<in> set run"
  shows "in_box w ht q"
proof -
  have box: "2 \<le> w" "2 \<le> ht" using assms(1) by (auto simp: chart_def Let_def split: option.splits if_splits)
  let ?ss = "samples (after_polls ps)"
  obtain lo hi where r: "rtt_range ?ss = Some (lo, hi)"
    using assms(1) by (cases "rtt_range ?ss") (auto simp: chart_def Let_def)
  have pos: "\<forall>s \<in> set ?ss. sm_ok s \<longrightarrow> 0 \<le> sm_rtt s" using samples_rtt by blast
  note b = rtt_range_bounds [OF r pos]
  have lt: "lo < hi" using b(1) by simp
  have "length ?ss \<le> historyLen" by (simp add: samples_after_polls last_n_def)
  then have len: "historyLen - length ?ss + length ?ss \<le> historyLen" by simp
  have none: "\<forall>p \<in> set []. in_box w ht p" by simp
  have "chart (after_polls ps) w ht = chart_runs w ht lo hi (historyLen - length ?ss) [] ?ss"
    using r box by (simp add: chart_def Let_def)
  then show ?thesis using chart_runs_in_box [OF box lt len b(3) none] assms by auto
qed

lemma chart_points:
  assumes "Polyline pts w c \<in> set (paint_chart s (after_polls ps) r accent)" "0 \<le> s 10" "p \<in> set pts"
  shows "point_inside p r"
proof -
  obtain run q where "run \<in> set (chart (after_polls ps) (rW r - 2 * s 10) (rH r - 2 * s 10))" "q \<in> set run"
    "p = (rX r + s 10 + fst q, rY r + s 10 + snd q)"
    using assms(1,3) by (auto simp: paint_chart_def Let_def split: if_splits)
  then show ?thesis using chart_in_box assms(2) by (fastforce simp: in_box_def point_inside_def)
qed

lemma sdiv_pos: "0 \<le> (a :: int) \<Longrightarrow> 0 < b \<Longrightarrow> a sdiv b = a div b"
  by (simp add: signed_divide_int_def sgn_if)

text \<open>The bars of the sparkline.\<close>

lemma spark_bars:
  assumes "scales s dpi" "d \<in> set (paint_spark s h (rectangle x y (s 96) (s 20)) accent)"
  shows "\<exists>q c. d = Fill q c \<and> rect_inside q (rectangle x y (s 96) (s 20)) \<and> 0 < rW q"
proof -
  let ?ls = "spark h sparkBars" and ?step = "s 96 sdiv 12" and ?bar = "max (s 96 sdiv 12 - s 2) 1"
  have len: "length ?ls = 12" by (simp add: spark_def Let_def sparkBars_def split: prod.split)
  have ge: "96 \<le> s 96" "20 \<le> s 20" "2 \<le> s 2" using scales_ge [OF assms(1)] by simp_all
  have s2: "s 2 \<le> s 20"
    using scalesD(3) [OF assms(1), of 2] scalesD(2) [OF assms(1), of 20] scalesD(1) [OF assms(1)] by linarith
  have step: "?step = s 96 div 12" "8 \<le> ?step" "12 * ?step \<le> s 96" using ge by (simp_all add: sdiv_pos)
  have bar: "?bar \<le> ?step" "0 < ?bar" using step(2) ge by simp_all
  obtain i l where il: "i < 12" "l = ?ls ! i" "d =
      (if l < 0 then Fill (rectangle (x + int i * ?step) (y + s 20 - s 2) ?bar (s 2)) cRule
       else Fill (rectangle (x + int i * ?step) (y + s 20 - ((l + 1) * s 20) sdiv sparkLevels) ?bar (((l + 1) * s 20) sdiv sparkLevels)) accent)"
    using assms(2) len by (auto simp: paint_spark_def Let_def in_set_enumerate_eq)
  have l: "- 1 \<le> l" "l < sparkLevels"
  proof -
    have "l \<in> set ?ls" using il len by simp
    then show "- 1 \<le> l" "l < sparkLevels"
      using spark_level_bounds(1) by (auto simp: spark_def Let_def sparkLevels_def split: prod.splits)
  qed
  have col: "0 \<le> int i * ?step" "int i * ?step + ?bar \<le> s 96"
  proof -
    have "int i * ?step + ?step \<le> 12 * ?step" using il(1) step(2) mult_right_mono [of "int i + 1" 12 ?step] by (simp add: algebra_simps)
    then show "int i * ?step + ?bar \<le> s 96" using bar step(3) by linarith
    show "0 \<le> int i * ?step" using step(2) by simp
  qed
  show ?thesis
  proof (cases "l < 0")
    case True
    then show ?thesis using il(3) col bar s2 ge by (auto simp: rect_inside_def)
  next
    case False
    have "((l + 1) * s 20) sdiv sparkLevels = (l + 1) * s 20 div 8" using False ge by (simp add: sdiv_pos sparkLevels_def)
    moreover have "(l + 1) * s 20 \<le> 8 * s 20" using l ge by (intro mult_right_mono) (simp_all add: sparkLevels_def)
    then have "(l + 1) * s 20 div 8 \<le> 8 * s 20 div 8" by (rule zdiv_mono1) simp
    then have "(l + 1) * s 20 div 8 \<le> s 20" by simp
    moreover have "0 \<le> (l + 1) * s 20 div 8" using False ge by (simp add: pos_imp_zdiv_nonneg_iff)
    ultimately show ?thesis using il(3) False col bar by (auto simp: rect_inside_def)
  qed
qed

text \<open>The event panel: the rows asked for fit, and their number is never negative.\<close>

lemma event_rows_fit:
  assumes "scales s dpi" "s 40 \<le> rH panel"
  shows "0 \<le> event_rows s panel" "0 < event_rows s panel \<Longrightarrow> event_rows s panel * s 18 \<le> rH (inset panel (s 10)) - s 20"
proof -
  let ?a = "rH (inset panel (s 10)) - s 20"
  have a: "- 2 \<le> ?a" using scales_sum [OF assms(1)] assms(2) by simp
  have l: "18 \<le> s 18" using scales_ge [OF assms(1), of 18] by simp
  have rows: "event_rows s panel = (if 0 \<le> ?a then ?a div s 18 else 0)"
  proof (cases "0 \<le> ?a")
    case True
    then show ?thesis using l sdiv_pos [of ?a "s 18"] by (simp add: event_rows_def)
  next
    case False
    then have "\<bar>?a\<bar> < \<bar>s 18\<bar>" using a l by linarith
    then show ?thesis using False by (simp add: event_rows_def signed_divide_int_def)
  qed
  show "0 \<le> event_rows s panel" using rows l by (simp add: pos_imp_zdiv_nonneg_iff)
  assume "0 < event_rows s panel"
  then have "event_rows s panel = ?a div s 18" using rows by (simp split: if_splits)
  moreover have "?a div s 18 * s 18 \<le> ?a"
    using l pos_mod_sign [of "s 18" ?a] by (simp add: minus_mod_eq_div_mult [symmetric])
  ultimately show "event_rows s panel * s 18 \<le> ?a" by simp
qed

lemma event_texts:
  assumes sc: "scales s dpi" and h: "s 40 \<le> rH panel"
    and es: "paint_events s clock l panel = Some es" and d: "Text t f c q al \<in> set es"
  shows "rY panel \<le> rY q \<and> rY q + rH q \<le> rY panel + rH panel"
proof -
  let ?n = "event_rows s panel"
  note ge = scales_ge [OF sc]
  have n: "0 \<le> ?n" by (rule event_rows_fit(1) [OF sc h])
  have es': "es = [Fill panel cPanel, Frame panel cRule,
         Text ''EVENTS'' Plain cDim (rectangle (rX panel + s 10) (rY panel + s 10) (rW panel - 2 * s 10) (s 16)) TextLeft] @
        concat (map (\<lambda>(i, e). let y = rY panel + s 10 + s 20 + int i * s 18 in
          [Text (clock (ev_at e)) Plain cDim (rectangle (rX panel + s 10) y (s 80) (s 18)) TextLeft,
           Text (ev_text e) Plain (level_colour (ev_level e)) (rectangle (rX panel + s 10 + s 84) y (rW panel - 2 * s 10 - s 84) (s 18)) TextLeft])
          (enumerate 0 (recent (nat ?n) l)))"
    using es n by (simp add: paint_events_def recent_go_def Let_def)
  consider (head) "rY q = rY panel + s 10" "rH q = s 16"
    | (row) i where "i < length (recent (nat ?n) l)" "rY q = rY panel + s 10 + s 20 + int i * s 18" "rH q = s 18"
    using d unfolding es' by (auto simp: Let_def in_set_enumerate_eq)
  then show ?thesis
  proof cases
    case head
    have "s 10 + s 16 \<le> s 40"
      using scalesD(3) [OF sc, of 10] scalesD(3) [OF sc, of 16] scalesD(2) [OF sc, of 40] scalesD(1) [OF sc] by linarith
    then show ?thesis using head h ge [of 10] by simp
  next
    case row
    have "length (recent (nat ?n) l) \<le> nat ?n" by (simp add: recent_def)
    then have i: "int i + 1 \<le> ?n" using row(1) by linarith
    then have "(int i + 1) * s 18 \<le> ?n * s 18" using ge [of 18] by (intro mult_right_mono) simp_all
    also have "\<dots> \<le> rH panel - 2 * s 10 - s 20" using event_rows_fit(2) [OF sc h] i by simp
    finally have "int i * s 18 + s 18 \<le> rH panel - 2 * s 10 - s 20" by (simp add: algebra_simps)
    moreover have "0 \<le> int i * s 18" using ge [of 18] by simp
    ultimately show ?thesis using row(2,3) ge [of 10] ge [of 20] by simp
  qed
qed

text \<open>On a monitor of any scale, the windows draw inside their parts: every point of the chart lies in the
  chart's box, every bar of the sparkline in its strip and none is too thin to see, the lines of the event
  panel between its edges. And drawing never panics: the number of events asked for is never negative.\<close>

theorem window_draws_in_place:
  assumes "scales s dpi"
  shows "(\<forall>pts w c ps r accent. Polyline pts w c \<in> set (paint_chart s (after_polls ps) r accent) \<longrightarrow> (\<forall>p \<in> set pts. point_inside p r)) \<and>
    (\<forall>h x y accent. \<forall>d \<in> set (paint_spark s h (rectangle x y (s 96) (s 20)) accent).
       \<exists>q c. d = Fill q c \<and> rect_inside q (rectangle x y (s 96) (s 20)) \<and> 0 < rW q) \<and>
    (\<forall>clock l panel es t f c q al. s 40 \<le> rH panel \<and> paint_events s clock l panel = Some es \<and> Text t f c q al \<in> set es \<longrightarrow>
       rY panel \<le> rY q \<and> rY q + rH q \<le> rY panel + rH panel) \<and>
    (\<forall>clock v h l b. paint_full_body s clock v h l b \<noteq> None)"
proof (intro conjI allI impI ballI)
  fix pts w c ps r accent p
  assume "Polyline pts w c \<in> set (paint_chart s (after_polls ps) r accent)" "p \<in> set pts"
  moreover have "0 \<le> s 10" using scales_ge [OF assms, of 10] by simp
  ultimately show "point_inside p r" using chart_points by blast
next
  fix h x y accent d assume "d \<in> set (paint_spark s h (rectangle x y (s 96) (s 20)) accent)"
  then show "\<exists>q c. d = Fill q c \<and> rect_inside q (rectangle x y (s 96) (s 20)) \<and> 0 < rW q" by (rule spark_bars [OF assms])
next
  fix clock :: "nanos \<Rightarrow> string" and v h l b
  have "rH (full_events_rect s b) < s 40 \<or> \<not> event_rows s (full_events_rect s b) < 0"
    using event_rows_fit(1) [OF assms] by (meson not_less)
  then show "paint_full_body s clock v h l b \<noteq> None"
    by (auto simp add: paint_full_body_def paint_events_def recent_go_def Let_def)
qed (use event_texts [OF assms] in blast)+

text \<open>At 150 per cent.\<close>

definition scale_144 :: "int \<Rightarrow> int" where
  "scale_144 v = (3 * v + 1) div 2"

lemma scale_144_ok: "scales scale_144 144"
proof -
  have "\<bar>real_of_int ((3 * v + 1) div 2) - real_of_int (v * 144) / 96\<bar> \<le> 1 / 2" for v
  proof -
    have "2 * ((3 * v + 1) div 2) \<le> 3 * v + 1" "3 * v \<le> 2 * ((3 * v + 1) div 2)" by presburger+
    then have "real_of_int (2 * ((3 * v + 1) div 2)) \<le> real_of_int (3 * v + 1)"
      "real_of_int (3 * v) \<le> real_of_int (2 * ((3 * v + 1) div 2))" by (simp_all only: of_int_le_iff)
    then show ?thesis by (simp add: abs_le_iff)
  qed
  then show ?thesis by (simp add: scales_def scale_144_def)
qed

theorem window_draws_in_place_witness:
  "event_rows scale_144 (rectangle 0 0 800 60) = 0 \<and>
   paint_full_body scale_144 dec_int (view_of (\<lambda>_ _. []) (Inl NoService)) new_history new_log (rectangle 0 0 1500 900) \<noteq> None"
  using window_draws_in_place [OF scale_144_ok, THEN conjunct2, THEN conjunct2, THEN conjunct2]
  by (simp add: event_rows_def scale_144_def signed_divide_int_def)

end
