(* ===== verification/Ui_Icon.thy ===== *)
theory Ui_Icon
  imports Ui_View
begin

text \<open>
  \<open>cmd/gnl-ui/icon.go\<close>: the tray icon, pixel by pixel. Floating point numbers are read as reals, and a distance is
  compared by its square.
\<close>

record rgba = rgba_R :: "8 word" rgba_G :: "8 word" rgba_B :: "8 word" rgba_A :: "8 word"

definition icon_colour :: "icon \<Rightarrow> rgba" where
  "icon_colour st =
     (case st of
        StateOff \<Rightarrow> \<lparr>rgba_R = 0x8A, rgba_G = 0x8E, rgba_B = 0x93, rgba_A = 0xFF\<rparr>
      | StateOn \<Rightarrow> \<lparr>rgba_R = 0x2E, rgba_G = 0x9E, rgba_B = 0x4F, rgba_A = 0xFF\<rparr>
      | StateFault \<Rightarrow> \<lparr>rgba_R = 0xD1, rgba_G = 0x43, rgba_B = 0x43, rgba_A = 0xFF\<rparr>)"

definition icon_size :: "int \<Rightarrow> int" where
  "icon_size sz = (if sz < 8 then 8 else sz)"

text \<open>Whether the state's mark covers the point \<open>(px, py)\<close> of an icon of this size.\<close>

definition mark_covers :: "icon \<Rightarrow> int \<Rightarrow> real \<Rightarrow> real \<Rightarrow> bool" where
  "mark_covers st sz px py =
     (let centre = of_int (sz - 1) / 2; rim = of_int sz * 46 / 100; hole = of_int sz * 30 / 100;
          disc = of_int sz * 20 / 100; bar = of_int sz * 9 / 100;
          dx = px - centre; dy = py - centre; d2 = dx * dx + dy * dy
      in if d2 \<le> rim * rim \<and> d2 \<ge> hole * hole then True
         else if st = StateOn \<and> d2 \<le> disc * disc then True
         else st = StateFault \<and> d2 < hole * hole \<and> \<bar>dy\<bar> \<le> bar)"

definition icon_sub :: nat where "icon_sub = 4"

definition sub_point :: "int \<Rightarrow> nat \<Rightarrow> real" where
  "sub_point x sx = of_int x + (real sx + 1 / 2) / real icon_sub - 1 / 2"

definition covered_samples :: "icon \<Rightarrow> int \<Rightarrow> int \<Rightarrow> int \<Rightarrow> nat" where
  "covered_samples st sz x y =
     length (filter (\<lambda>(sy, sx). mark_covers st sz (sub_point x sx) (sub_point y sy))
       (concat (map (\<lambda>sy. map (\<lambda>sx. (sy, sx)) [0..<icon_sub]) [0..<icon_sub])))"

text \<open>The pixel, transparent where nothing is covered.\<close>

definition icon_pixel :: "icon \<Rightarrow> int \<Rightarrow> int \<Rightarrow> int \<Rightarrow> rgba" where
  "icon_pixel st sz0 x y =
     (let sz = icon_size sz0; n = covered_samples st sz x y in
      if n = 0 then \<lparr>rgba_R = 0, rgba_G = 0, rgba_B = 0, rgba_A = 0\<rparr>
      else (icon_colour st)\<lparr>rgba_A := word_of_int \<lfloor>real n / real (icon_sub * icon_sub) * 255 + 1 / 2\<rfloor>\<rparr>)"

lemma sub_points:
  "map (\<lambda>(sy, sx). (sub_point y sy, sub_point x sx))
     (concat (map (\<lambda>sy. map (\<lambda>sx. (sy, sx)) [0..<icon_sub]) [0..<icon_sub])) =
   [(of_int y + b, of_int x + a). b \<leftarrow> [- 3 / 8, - 1 / 8, 1 / 8, 3 / 8], a \<leftarrow> [- 3 / 8, - 1 / 8, 1 / 8, 3 / 8]]"
  by (simp add: sub_point_def icon_sub_def numeral_eq_Suc)

text \<open>The three states differ in shape and not in colour alone: at the size in use the middle is filled when
  connected and empty when not, and the bar of a fault reaches where the dot does not.\<close>

lemma icon_shapes_differ:
  "covered_samples StateOn 64 32 32 = 16" "covered_samples StateOff 64 32 32 = 0"
  "covered_samples StateFault 64 48 32 = 16" "covered_samples StateOn 64 48 32 = 0" "covered_samples StateOff 64 48 32 = 0"
  by (simp_all add: covered_samples_def mark_covers_def sub_point_def icon_sub_def upt_rec Let_def numeral_eq_Suc)

end
