(* ===== verification/Ui_Props.thy ===== *)
theory Ui_Props
  imports Ui
begin

text \<open>
  What the tray keeps to: one verb at a time, controls that agree with the last answer, and a window that
  shows the polls.
\<close>

section \<open>Frames\<close>

lemma on_panels_simps [simp]:
  "ui_busy (on_panels f u) = ui_busy u" "ui_flights (on_panels f u) = ui_flights u" "ui_view (on_panels f u) = ui_view u"
  "ui_pending (on_panels f u) = ui_pending u"
  "ui_connectOn (on_panels f u) = ui_connectOn u" "ui_disconOn (on_panels f u) = ui_disconOn u"
  "ui_reloadOn (on_panels f u) = ui_reloadOn u" "ui_icon (on_panels f u) = ui_icon u" "ui_shown (on_panels f u) = ui_shown u"
  "ui_hist (on_panels f u) = ui_hist u" "ui_log (on_panels f u) = ui_log u"
  "ui_win (on_panels f u) = map_option f (ui_win u)"
  by (simp_all add: on_panels_def split: option.split)

lemma refresh_simps [simp]:
  "ui_busy (refresh u) = ui_busy u" "ui_flights (refresh u) = ui_flights u" "ui_view (refresh u) = ui_view u"
  "ui_connectOn (refresh u) = ui_connectOn u" "ui_disconOn (refresh u) = ui_disconOn u"
  "ui_reloadOn (refresh u) = ui_reloadOn u" "ui_icon (refresh u) = ui_icon u" "ui_shown (refresh u) = ui_shown u"
  "ui_hist (refresh u) = ui_hist u" "ui_log (refresh u) = ui_log u" "ui_status (refresh u) = ui_status u"
  "ui_tip (refresh u) = ui_tip u" "ui_notices (refresh u) = ui_notices u"
  "ui_win (refresh u) = map_option (refresh_panels u) (ui_win u)"
  by (simp_all add: refresh_def)

lemma set_busy_simps [simp]:
  "ui_busy (set_busy s u) = ui_busy u" "ui_view (set_busy s u) = ui_view u" "ui_hist (set_busy s u) = ui_hist u"
  "ui_log (set_busy s u) = ui_log u" "ui_icon (set_busy s u) = ui_icon u" "ui_shown (set_busy s u) = ui_shown u"
  "ui_connectOn (set_busy s u) = False" "ui_disconOn (set_busy s u) = False" "ui_reloadOn (set_busy s u) = False"
  by (simp_all add: set_busy_def)

lemma show_answer_simps [simp]:
  "ui_busy (show_answer fmt ans u) = ui_busy u" "ui_flights (show_answer fmt ans u) = ui_flights u"
  "ui_view (show_answer fmt ans u) = ui_view u" "ui_hist (show_answer fmt ans u) = ui_hist u"
  "ui_log (show_answer fmt ans u) = ui_log u" "ui_status (show_answer fmt ans u) = summary_line fmt ans"
  "ui_tip (show_answer fmt ans u) = tooltip fmt ans" "ui_shown (show_answer fmt ans u) = icon_for ans"
  "ui_connectOn (show_answer fmt ans u) = (answered ans \<and> \<not> answers_connected ans)"
  "ui_disconOn (show_answer fmt ans u) = answers_connected ans" "ui_reloadOn (show_answer fmt ans u) = answered ans"
  by (simp_all add: show_answer_def Let_def)

lemma show_answer_icon [simp]: "ui_icon u = ui_shown u \<Longrightarrow> ui_icon (show_answer fmt ans u) = icon_for ans"
  by (simp add: show_answer_def Let_def)

section \<open>The invariant\<close>

text \<open>Whether the buttons of the windows are off.\<close>

definition panel_off :: "ui \<Rightarrow> bool" where
  "panel_off u \<longleftrightarrow> (case ui_win u of None \<Rightarrow> True | Some p \<Rightarrow> \<not> pn_actOn p \<and> \<not> pn_reloadOn p)"

definition ui_ok :: "ui \<Rightarrow> bool" where
  "ui_ok u \<longleftrightarrow> length (ui_flights u) \<le> 1 \<and> set (ui_flights u) \<subseteq> verbs \<and> (ui_busy u \<longleftrightarrow> ui_flights u \<noteq> []) \<and>
     (ui_busy u \<longrightarrow> \<not> ui_connectOn u \<and> \<not> ui_disconOn u \<and> \<not> ui_reloadOn u \<and> panel_off u) \<and>
     \<not> (ui_connectOn u \<and> ui_disconOn u) \<and> ui_icon u = ui_shown u \<and>
     (\<exists>ans fmt. ui_view u = view_of fmt ans)"

lemma view_verb: "vw_verb (view_of fmt ans) \<in> verbs"
  by (auto simp: view_of_def Let_def verbs_def split: sum.split)

lemma refresh_panel_off: "ui_busy u \<Longrightarrow> panel_off (refresh u)"
  by (simp add: panel_off_def refresh_panels_def Let_def split: option.split)

lemma send_ok:
  assumes "ui_ok u" "v \<in> verbs"
  shows "ui_ok (send v s u)"
proof (cases "ui_busy u")
  case True
  then show ?thesis using assms(1) by (simp add: send_def)
next
  case False
  let ?u = "set_busy s (u\<lparr>ui_busy := True, ui_pending := s\<rparr>)"
  have "panel_off ?u" unfolding set_busy_def by (rule refresh_panel_off) simp
  then have "panel_off (?u\<lparr>ui_flights := ui_flights u @ [v]\<rparr>)" by (simp add: panel_off_def)
  then show ?thesis using assms False by (simp add: send_def ui_ok_def)
qed

lemma poll_ok: "ui_ok u \<Longrightarrow> ui_ok (poll_answer fmt t t' ans u)"
  by (auto simp: poll_answer_def Let_def ui_ok_def panel_off_def)

lemma verb_ok:
  assumes "ui_ok u" "ui_flights u = v # vs"
  shows "ui_ok (verb_answer fmt t v ans (u\<lparr>ui_flights := vs\<rparr>))"
  using assms by (auto simp: verb_answer_def Let_def ui_ok_def split: sum.split)

lemma panels_ok:
  assumes "ui_ok u" "\<And>p. pn_actOn (f p) = pn_actOn p" "\<And>p. pn_reloadOn (f p) = pn_reloadOn p"
  shows "ui_ok (on_panels f u)" "ui_ok (refresh (on_panels f u))"
proof -
  have "panel_off (on_panels f u) = panel_off u"
    using assms(2,3) by (simp add: panel_off_def split: option.split)
  then show "ui_ok (on_panels f u)" using assms(1) by (simp add: ui_ok_def)
  then show "ui_ok (refresh (on_panels f u))"
    using refresh_panel_off [of "on_panels f u"] by (simp add: ui_ok_def)
qed

lemma window_ok:
  assumes "ui_ok u"
  shows "ui_ok (show_mini u)" "ui_ok (show_full u)" "ui_ok (collapse u)" "ui_ok (toggle_mini t u)"
proof -
  note p = panels_ok [OF assms]
  show m: "ui_ok (show_mini u)" unfolding show_mini_def by (rule p(2)) simp_all
  show "ui_ok (show_full u)" unfolding show_full_def by (rule p(2)) simp_all
  show "ui_ok (collapse u)" unfolding collapse_def show_mini_def
    by (rule panels_ok(2) [OF p(1)]) simp_all
  have t: "ui_ok (on_panels (\<lambda>p. p\<lparr>pn_lastToggle := t\<rparr>) u)" by (rule p(1)) simp_all
  have "ui_ok (show_mini (on_panels (\<lambda>p. p\<lparr>pn_lastToggle := t\<rparr>) u))"
    unfolding show_mini_def by (rule panels_ok(2) [OF t]) simp_all
  moreover have "ui_ok (on_panels (\<lambda>p. p\<lparr>pn_mini := False\<rparr>) (on_panels (\<lambda>p. p\<lparr>pn_lastToggle := t\<rparr>) u))"
    by (rule panels_ok(1) [OF t]) simp_all
  ultimately show "ui_ok (toggle_mini t u)" using assms by (simp add: toggle_mini_def Let_def split: option.split)
qed

lemma build_ok: "ui_ok (ui_build fmt failed)"
  by (auto simp: ui_build_def Let_def ui_ok_def split: option.split)

lemma step_ok: "ui_ok u \<Longrightarrow> ui_ok (ui_step fmt u ev)"
proof (induction fmt u ev rule: ui_step.induct)
  case (2 fmt u t ans)
  then show ?case using verb_ok by (auto split: list.split)
next
  case (6 fmt u)
  then have "vw_verb (ui_view u) \<in> verbs" using view_verb by (auto simp: ui_ok_def)
  then show ?case using 6 send_ok by (simp add: act_def Let_def)
qed (simp_all add: poll_ok send_ok window_ok panels_ok verbs_def)

lemma run_ok: "ui_ok (ui_run fmt failed evs)"
  by (induction evs rule: rev_induct) (simp_all add: ui_run_def build_ok step_ok)

section \<open>What the window draws\<close>

fun polls_of :: "ui_event list \<Rightarrow> (nanos \<times> answer) list" where
  "polls_of [] = []"
| "polls_of (PollAnswered t t' ans # evs) = (t, ans) # polls_of evs"
| "polls_of (_ # evs) = polls_of evs"

lemma polls_of_append: "polls_of (evs @ evs') = polls_of evs @ polls_of evs'"
  by (induction evs rule: polls_of.induct) simp_all

definition last_answer :: "(nanos \<times> answer) list \<Rightarrow> answer" where
  "last_answer ps = (if ps = [] then Inr no_status else snd (last ps))"

lemma send_draws [simp]: "ui_hist (send v s u) = ui_hist u" "ui_view (send v s u) = ui_view u"
  by (simp_all add: send_def)

lemma windows_draw [simp]:
  "ui_hist (toggle_mini t u) = ui_hist u" "ui_view (toggle_mini t u) = ui_view u"
  "ui_hist (show_mini u) = ui_hist u" "ui_view (show_mini u) = ui_view u"
  "ui_hist (show_full u) = ui_hist u" "ui_view (show_full u) = ui_view u"
  "ui_hist (collapse u) = ui_hist u" "ui_view (collapse u) = ui_view u"
  by (simp_all add: toggle_mini_def show_mini_def show_full_def collapse_def Let_def split: option.split)

lemma verb_draws [simp]: "ui_hist (verb_answer fmt t v ans u) = ui_hist u" "ui_view (verb_answer fmt t v ans u) = ui_view u"
  by (simp_all add: verb_answer_def Let_def split: sum.split)

lemma poll_draws [simp]:
  "ui_hist (poll_answer fmt t t' ans u) = add_sample (sample_from t ans) (ui_hist u)"
  "ui_view (poll_answer fmt t t' ans u) = view_of fmt ans"
  by (simp_all add: poll_answer_def Let_def)

definition draws_polls :: "(nat \<Rightarrow> real \<Rightarrow> string) \<Rightarrow> (nanos \<times> answer) list \<Rightarrow> ui \<Rightarrow> bool" where
  "draws_polls fmt ps u \<longleftrightarrow> ui_hist u = after_polls ps \<and> ui_view u = view_of fmt (last_answer ps)"

lemma step_draws:
  assumes "draws_polls fmt ps u"
  shows "draws_polls fmt (ps @ polls_of [ev]) (ui_step fmt u ev)"
  using assms
  by (cases ev) (auto simp: draws_polls_def act_def Let_def after_polls_def last_answer_def split: list.split)

lemma run_draws: "draws_polls fmt (polls_of evs) (ui_run fmt failed evs)"
proof (induction evs rule: rev_induct)
  case Nil
  then show ?case by (simp add: draws_polls_def ui_run_def ui_build_def Let_def after_polls_def last_answer_def split: option.split)
next
  case (snoc ev evs)
  then show ?case using step_draws by (simp add: ui_run_def polls_of_append)
qed

section \<open>Properties\<close>

text \<open>C38. Whatever is clicked and in whatever order answers come, at most one verb is in flight and it is one of
  the four; while it is, no control of the menu or the windows is enabled; Connect and Disconnect are never
  enabled together; the icon is the one the state remembers; and the windows draw the polls: the chart all of
  them and the view the last.\<close>

theorem one_verb_at_a_time:
  assumes "u = ui_run fmt failed evs"
  shows "length (ui_flights u) \<le> 1 \<and> set (ui_flights u) \<subseteq> verbs \<and> (ui_busy u \<longleftrightarrow> ui_flights u \<noteq> []) \<and>
    (ui_busy u \<longrightarrow> \<not> ui_connectOn u \<and> \<not> ui_disconOn u \<and> \<not> ui_reloadOn u \<and> panel_off u) \<and>
    \<not> (ui_connectOn u \<and> ui_disconOn u) \<and> ui_icon u = ui_shown u \<and>
    ui_hist u = after_polls (polls_of evs) \<and> ui_view u = view_of fmt (last_answer (polls_of evs))"
  using run_ok [of fmt failed evs] run_draws [of fmt evs failed] assms by (simp add: ui_ok_def draws_polls_def)

definition sample_fmt :: "nat \<Rightarrow> real \<Rightarrow> string" where
  "sample_fmt n x = dec_int \<lfloor>x\<rfloor>"

theorem one_verb_at_a_time_witness:
  "ui_flights (ui_run sample_fmt None [ClickConnect, ClickReload, TrayClick second]) = [VerbConnect] \<and>
   \<not> ui_connectOn (ui_run sample_fmt None [ClickConnect, ClickReload, TrayClick second]) \<and>
   panel_off (ui_run sample_fmt None [ClickConnect, ClickReload, TrayClick second])"
proof -
  let ?u = "ui_run sample_fmt None [ClickConnect, ClickReload, TrayClick second]"
  have f: "ui_flights ?u = [VerbConnect]" by code_simp
  then show ?thesis using one_verb_at_a_time [of ?u sample_fmt None "[ClickConnect, ClickReload, TrayClick second]"] by simp
qed

text \<open>The tray and its menu say what an answer says.\<close>

definition shows_answer :: "(nat \<Rightarrow> real \<Rightarrow> string) \<Rightarrow> answer \<Rightarrow> ui \<Rightarrow> bool" where
  "shows_answer fmt ans u \<longleftrightarrow> ui_icon u = icon_for ans \<and> ui_status u = summary_line fmt ans \<and> ui_tip u = tooltip fmt ans \<and>
     (ui_connectOn u \<longleftrightarrow> answered ans \<and> \<not> answers_connected ans) \<and> (ui_disconOn u \<longleftrightarrow> answers_connected ans) \<and>
     (ui_reloadOn u \<longleftrightarrow> answered ans)"

lemma show_answer_shows: "ui_icon u = ui_shown u \<Longrightarrow> shows_answer fmt ans (show_answer fmt ans u)"
  by (simp add: shows_answer_def)

lemma show_answer_notices:
  "ui_icon u = ui_shown u \<Longrightarrow> ui_notices (show_answer fmt ans u) =
     ui_notices u @ (if icon_for ans = StateFault \<and> ui_icon u \<noteq> StateFault then [ShowWarning (fault_text ans)] else [])"
  by (auto simp: show_answer_def Let_def)

text \<open>When no verb is in flight, the tray shows each poll as it comes, and warns of a fault exactly when it
  turns to one. While a verb is in flight polls change neither icon nor text nor controls, and the verb's own
  answer is shown when it comes, frees the controls, and is reported if it failed.\<close>

theorem tray_shows_answers:
  assumes "u = ui_run fmt failed evs"
  shows "(\<not> ui_busy u \<longrightarrow> (\<forall>t t' ans u'. u' = ui_step fmt u (PollAnswered t t' ans) \<longrightarrow>
       shows_answer fmt ans u' \<and> \<not> ui_busy u' \<and> ui_notices u' = ui_notices u @
         (if icon_for ans = StateFault \<and> ui_icon u \<noteq> StateFault then [ShowWarning (fault_text ans)] else []))) \<and>
    (ui_busy u \<longrightarrow> (\<forall>t t' ans u'. u' = ui_step fmt u (PollAnswered t t' ans) \<longrightarrow>
       ui_icon u' = ui_icon u \<and> ui_status u' = ui_status u \<and> ui_tip u' = ui_tip u \<and> ui_flights u' = ui_flights u \<and>
       ui_notices u' = ui_notices u \<and> \<not> ui_connectOn u' \<and> \<not> ui_disconOn u' \<and> \<not> ui_reloadOn u')) \<and>
    (ui_busy u \<longrightarrow> (\<forall>t ans u'. u' = ui_step fmt u (VerbAnswered t ans) \<longrightarrow>
       shows_answer fmt ans u' \<and> \<not> ui_busy u' \<and> ui_flights u' = [] \<and>
       (\<forall>e. ans = Inl e \<longrightarrow> ShowError (friendly e) \<in> set (ui_notices u')) \<and>
       (\<forall>r. ans = Inr r \<and> \<not> rs_OK r \<and> error_text r \<noteq> [] \<longrightarrow> ShowError (error_text r) \<in> set (ui_notices u'))))"
proof -
  have ok: "ui_ok u" using run_ok assms by simp
  then have icon: "ui_icon u = ui_shown u" by (simp add: ui_ok_def)
  have idle: "shows_answer fmt ans u' \<and> \<not> ui_busy u' \<and> ui_notices u' = ui_notices u @
         (if icon_for ans = StateFault \<and> ui_icon u \<noteq> StateFault then [ShowWarning (fault_text ans)] else [])"
    if "\<not> ui_busy u" "u' = ui_step fmt u (PollAnswered t t' ans)" for t t' ans u'
    using that icon by (simp add: poll_answer_def Let_def show_answer_shows show_answer_notices)
  have busy: "ui_icon u' = ui_icon u \<and> ui_status u' = ui_status u \<and> ui_tip u' = ui_tip u \<and> ui_flights u' = ui_flights u \<and>
       ui_notices u' = ui_notices u \<and> \<not> ui_connectOn u' \<and> \<not> ui_disconOn u' \<and> \<not> ui_reloadOn u'"
    if "ui_busy u" "u' = ui_step fmt u (PollAnswered t t' ans)" for t t' ans u'
    using that ok by (simp add: poll_answer_def Let_def ui_ok_def)
  have reply: "shows_answer fmt ans u' \<and> \<not> ui_busy u' \<and> ui_flights u' = [] \<and>
       (\<forall>e. ans = Inl e \<longrightarrow> ShowError (friendly e) \<in> set (ui_notices u')) \<and>
       (\<forall>r. ans = Inr r \<and> \<not> rs_OK r \<and> error_text r \<noteq> [] \<longrightarrow> ShowError (error_text r) \<in> set (ui_notices u'))"
    if b: "ui_busy u" and u': "u' = ui_step fmt u (VerbAnswered t ans)" for t ans u'
  proof -
    obtain v where v: "ui_flights u = [v]" using ok b by (cases "ui_flights u") (auto simp: ui_ok_def)
    show ?thesis
    proof (cases ans)
      case (Inl e)
      then show ?thesis using u' v icon show_answer_shows
        by (simp add: verb_answer_def Let_def shows_answer_def)
    next
      case (Inr r)
      then show ?thesis using u' v icon
        by (simp add: verb_answer_def Let_def show_answer_shows show_answer_notices)
    qed
  qed
  show ?thesis using idle busy reply by blast
qed

theorem tray_shows_answers_witness:
  "ui_icon (ui_step sample_fmt (ui_run sample_fmt None [ClickConnect])
     (VerbAnswered 0 (Inr (no_status\<lparr>rs_OK := True, rs_State := ''connected''\<rparr>)))) = StateOn"
proof -
  have b: "ui_busy (ui_run sample_fmt None [ClickConnect])" by code_simp
  have "icon_for (Inr (no_status\<lparr>rs_OK := True, rs_State := ''connected''\<rparr>)) = StateOn"
    by (simp add: icon_for_def says_connected_def error_text_def no_status_def)
  then show ?thesis
    using tray_shows_answers [of "ui_run sample_fmt None [ClickConnect]" sample_fmt None "[ClickConnect]"] b
    by (auto simp: shows_answer_def)
qed

end
