(* ===== verification/Ui_Service.thy ===== *)
theory Ui_Service
  imports Ui_Props Engine
begin

text \<open>
  The tray and the service together: what the tray makes of the replies the engine gives.
\<close>

text \<open>A response of the engine as it arrives, with its error as text.\<close>

definition as_received :: "('e \<Rightarrow> string) \<Rightarrow> 'e ipc_response \<Rightarrow> string ipc_response" where
  "as_received text r =
     \<lparr>rs_OK = rs_OK r, rs_Error = map_option text (rs_Error r), rs_State = rs_State r, rs_RelayID = rs_RelayID r,
      rs_GameRunning = rs_GameRunning r, rs_ActiveRoutes = rs_ActiveRoutes r, rs_TunnelRTTms = rs_TunnelRTTms r,
      rs_LossPct = rs_LossPct r\<rparr>"

text \<open>The engine's status and the tray agree: the tray shows a connection exactly while the engine has a tunnel, and
  a fault exactly when the engine holds an error beside it.\<close>

lemma tray_matches_engine:
  assumes "\<And>e. text e \<noteq> []" "ui_icon u = ui_shown u"
  shows "shows_answer fmt (Inr (as_received text (status e))) (show_answer fmt (Inr (as_received text (status e))) u) \<and>
    icon_for (Inr (as_received text (status e))) =
      (if en_tun e = None then StateOff else if en_lastErr e = None then StateOn else StateFault)"
  using assms
  by (auto simp: show_answer_shows icon_for_def as_received_def status_def says_connected_def error_text_def split: option.split)

text \<open>But a reply to a verb is shown like a status. When refreshing the game list fails, the reply names no state: the
  tray then shows no connection, offers Connect and disables Disconnect although the tunnel is up, until the next
  poll.\<close>

theorem failed_reload_looks_disconnected:
  assumes "handle_verb m VerbReloadProfile st = (st', r)" "rs_Error r = Some err" "rs_State r = []"
    and "en_tun (fst st') \<noteq> None" "u = ui_run fmt failed evs" "ui_flights u = [VerbReloadProfile]"
    and "u' = ui_step fmt u (VerbAnswered t (Inr (as_received text r)))"
  shows "rs_State (status (fst st')) = ''connected'' \<and> ui_icon u' = StateOff \<and> ui_connectOn u' \<and> \<not> ui_disconOn u'"
proof -
  have "ui_icon u = ui_shown u" using run_ok [of fmt failed evs] assms(5) by (simp add: ui_ok_def)
  moreover have "\<not> says_connected (as_received text r)" using assms(3) by (simp add: says_connected_def as_received_def)
  ultimately show ?thesis using assms(4,6,7)
    by (simp add: verb_answer_def Let_def icon_for_def answered_def answers_connected_def status_def)
qed

end
