(* ===== verification/Service_Main.thy ===== *)
theory Service_Main
  imports Engine_Props Device
begin

text \<open>
  \<open>cmd/gnl-service/main_windows.go\<close>: starting the service, its log, and the service as a process. The engine's
  loop, the requests still in flight on the pipe and the service control manager's requests are steps in any
  order.
\<close>

section \<open>Starting\<close>

text \<open>\<open>join_path\<close> is \<open>filepath.Join\<close>; an unset variable reads as the empty string.\<close>

definition data_dir :: "(string \<Rightarrow> string \<Rightarrow> string) \<Rightarrow> string \<Rightarrow> string" where
  "data_dir join_path program_data =
     join_path (if program_data = [] then ''C:'' @ [CHR 0x5C] @ ''ProgramData'' else program_data) ''GameNoLag''"

definition maxLogBytes :: nat where "maxLogBytes = 8388608"

datatype log_target = ConsoleLog | FileLog

record log_calls =
  lc_mkdir :: bool
  lc_stat :: bool
  lc_rename :: bool
  lc_open :: bool

text \<open>The log and the previous one kept beside it, each with its contents if it is there; \<open>os.Rename\<close> replaces
  its target.\<close>

definition open_log :: "log_calls \<Rightarrow> string option \<times> string option \<Rightarrow> (string option \<times> string option) \<times> log_target" where
  "open_log c files =
     (if \<not> lc_mkdir c then (files, ConsoleLog)
      else
        let files1 =
          (case fst files of
             None \<Rightarrow> files
           | Some lg \<Rightarrow>
               if lc_stat c \<and> length lg > maxLogBytes \<and> lc_rename c then (None, Some lg) else files)
        in if \<not> lc_open c then (files1, ConsoleLog)
           else ((Some (case fst files1 of None \<Rightarrow> [] | Some lg \<Rightarrow> lg), snd files1), FileLog))"

text \<open>Rolling over loses nothing that was in the log, and bounds it.\<close>

lemma open_log_rolls:
  assumes "open_log c (lg, old) = ((lg', old'), t)"
  shows "lg' = lg \<and> old' = old \<or> lg = None \<and> lg' = Some [] \<and> old' = old \<or>
      old' = lg \<and> (lg' = None \<or> lg' = Some [])"
    and "lc_mkdir c \<Longrightarrow> lc_stat c \<Longrightarrow> lc_rename c \<Longrightarrow> lc_open c \<Longrightarrow>
      t = FileLog \<and> (\<exists>s. lg' = Some s \<and> length s \<le> maxLogBytes)"
  using assms by (auto simp: open_log_def Let_def maxLogBytes_def split: option.splits if_splits)

datatype start_failure = ConfigFailed config_error | KeyFailed load_error | ModeUnknown

text \<open>Every failure is logged and the process exits with 1. \<open>is_service\<close> is what \<open>svc.IsWindowsService\<close> says.\<close>

definition service_start ::
    "(string \<Rightarrow> device_config option) \<Rightarrow> string option \<Rightarrow> (8 word list \<Rightarrow> 8 word list option) \<Rightarrow> 8 word list option \<Rightarrow>
      bool \<Rightarrow> (string \<Rightarrow> key_file \<times> bool) \<Rightarrow> bool option \<Rightarrow> key_file \<Rightarrow>
      key_file \<times> (start_failure + 'l engine \<times> bool)" where
  "service_start decode config x25519 rand mkdir write is_service f =
     (case load_config decode config of
        Inl e \<Rightarrow> (f, Inl (ConfigFailed e))
      | Inr cfg \<Rightarrow>
          (case load_or_create_key x25519 rand mkdir write f of
             (f', Inl e) \<Rightarrow> (f', Inl (KeyFailed e))
           | (f', Inr k) \<Rightarrow>
               (case is_service of
                  None \<Rightarrow> (f', Inl ModeUnknown)
                | Some b \<Rightarrow> (f', Inr (new_engine cfg k, b)))))"

section \<open>The process\<close>

datatype svc_state = StartPending | Running | StopPending | Stopped

record svc_status =
  sv_State :: svc_state
  sv_AcceptsStop :: bool
  sv_WaitHint :: nat

datatype control = Interrogate svc_status | StopRequest | ShutdownRequest | OtherRequest nat

text \<open>What \<open>Execute\<close> sends: a status of its own, or the current one back to the manager.\<close>

datatype sent = Reports svc_status | Echoes svc_status

definition plain_status :: "svc_state \<Rightarrow> svc_status" where
  "plain_status s = \<lparr>sv_State = s, sv_AcceptsStop = False, sv_WaitHint = 0\<rparr>"

definition running_status :: svc_status where
  "running_status = (plain_status Running)\<lparr>sv_AcceptsStop := True\<rparr>"

definition stop_pending_status :: svc_status where
  "stop_pending_status = (plain_status StopPending)\<lparr>sv_WaitHint := 20000\<rparr>"

text \<open>Where \<open>run\<close> is (serving, waiting for the pipe, returned) and where \<open>Execute\<close> is. \<open>Console\<close> is a run
  without a service manager; \<open>AwaitingStop\<close> and \<open>AwaitingClose\<close> wait for \<open>run\<close> to return.\<close>

datatype run_phase = Serving | Draining | Finished

datatype exec_phase = Console | Launching | Listening | AwaitingStop | AwaitingClose | Returned

record ('l, 's) service =
  sv_st :: "'l engine \<times> 's"
  sv_run :: run_phase
  sv_pipeDone :: bool
  sv_cancelled :: bool
  sv_exec :: exec_phase
  sv_sent :: "sent list"

definition service_begins :: "'l engine \<times> 's \<Rightarrow> bool \<Rightarrow> ('l, 's) service" where
  "service_begins st in_service =
     \<lparr>sv_st = st, sv_run = Serving, sv_pipeDone = False, sv_cancelled = False,
      sv_exec = (if in_service then Launching else Console),
      sv_sent = (if in_service then [Reports (plain_status StartPending)] else [])\<rparr>"

fun on_control :: "control \<Rightarrow> ('l, 's) service \<Rightarrow> ('l, 's) service" where
  "on_control (Interrogate c) s = s\<lparr>sv_sent := sv_sent s @ [Echoes c]\<rparr>"
| "on_control StopRequest s = s\<lparr>sv_sent := sv_sent s @ [Reports stop_pending_status], sv_cancelled := True, sv_exec := AwaitingStop\<rparr>"
| "on_control ShutdownRequest s = s\<lparr>sv_sent := sv_sent s @ [Reports stop_pending_status], sv_cancelled := True, sv_exec := AwaitingStop\<rparr>"
| "on_control (OtherRequest n) s = s"

text \<open>\<open>done\<close> is closed: a stop is reported, a closed channel is not.\<close>

definition execute_returns :: "('l, 's) service \<Rightarrow> ('l, 's) service" where
  "execute_returns s =
     (if sv_exec s = AwaitingStop then s\<lparr>sv_sent := sv_sent s @ [Reports (plain_status Stopped)], sv_exec := Returned\<rparr>
      else s\<lparr>sv_exec := Returned\<rparr>)"

text \<open>A request's context descends from the one that is cancelled: from then on no call to the control plane
  and no lookup gets an answer.\<close>

definition cancelled_machine :: "('l, 's, 'b) machine \<Rightarrow> ('l, 's, 'b) machine" where
  "cancelled_machine m = m\<lparr>mc_http := (\<lambda>q k. (k, NoAnswer)), mc_resolve := (\<lambda>k h. None)\<rparr>"

text \<open>\<open>Serve\<close> does not wait for the connections it has accepted: a request can take the engine's mutex at any
  time, after the teardown too, until the process ends.\<close>

definition on_request :: "(string \<Rightarrow> verb option) \<Rightarrow> ('l, 's, 'b) machine \<Rightarrow> string \<Rightarrow> ('l, 's) service \<Rightarrow> ('l, 's) service" where
  "on_request decode m line s =
     s\<lparr>sv_st := on_event decode (if sv_cancelled s then cancelled_machine m else m) (Pipe line) (sv_st s)\<rparr>"

inductive svc_step :: "(string \<Rightarrow> verb option) \<Rightarrow> ('l, 's, 'b) machine \<Rightarrow> ('s \<Rightarrow> ('l \<times> prefix \<times> addr) set) \<Rightarrow>
    ('l, 's) service \<Rightarrow> ('l, 's) service \<Rightarrow> bool" for decode m routes where
  announces: "sv_exec s = Launching \<Longrightarrow>
     svc_step decode m routes s (s\<lparr>sv_sent := sv_sent s @ [Reports running_status], sv_exec := Listening\<rparr>)"
| asked: "sv_exec s = Listening \<Longrightarrow> svc_step decode m routes s (on_control c s)"
| channel_closed: "sv_exec s = Listening \<Longrightarrow>
     svc_step decode m routes s (s\<lparr>sv_cancelled := True, sv_exec := AwaitingClose\<rparr>)"
| returns: "sv_exec s \<in> {AwaitingStop, AwaitingClose} \<Longrightarrow> sv_run s = Finished \<Longrightarrow>
     svc_step decode m routes s (execute_returns s)"
| ticks: "sv_run s = Serving \<Longrightarrow> svc_step decode m routes s (s\<lparr>sv_st := on_event decode m Tick (sv_st s)\<rparr>)"
| request: "svc_step decode m routes s (on_request decode m line s)"
| pipe_ends: "svc_step decode m routes s (s\<lparr>sv_pipeDone := True\<rparr>)"
| sees_done: "sv_run s = Serving \<Longrightarrow> sv_cancelled s \<Longrightarrow> svc_step decode m routes s (s\<lparr>sv_run := Draining\<rparr>)"
| leaves: "sv_run s = Draining \<Longrightarrow> sv_pipeDone s \<Longrightarrow>
     svc_step decode m routes s (s\<lparr>sv_st := teardown m (sv_st s), sv_run := Finished\<rparr>)"
| world: "sv_st s = (e, k) \<Longrightarrow> routes k' = routes k \<Longrightarrow> svc_step decode m routes s (s\<lparr>sv_st := (e, k')\<rparr>)"

text \<open>The states of a process that starts on the routing table \<open>R\<close>.\<close>

inductive svc_reach :: "(string \<Rightarrow> verb option) \<Rightarrow> ('l, 's, 'b) machine \<Rightarrow> ('s \<Rightarrow> ('l \<times> prefix \<times> addr) set) \<Rightarrow>
    device_config \<Rightarrow> key \<Rightarrow> ('l \<times> prefix \<times> addr) set \<Rightarrow> bool \<Rightarrow> ('l, 's) service \<Rightarrow> bool"
  for decode m routes cfg key R in_service where
  begins: "routes k = R \<Longrightarrow> svc_reach decode m routes cfg key R in_service (service_begins (new_engine cfg key, k) in_service)"
| goes_on: "svc_reach decode m routes cfg key R in_service s \<Longrightarrow> svc_step decode m routes s s' \<Longrightarrow>
     svc_reach decode m routes cfg key R in_service s'"

section \<open>Requests after the teardown\<close>

lemma no_answer: "\<exists>err. cloud_do u d (\<lambda>q k. (k, NoAnswer)) c path body out auth k = (k, Inl err)"
  by (auto simp: cloud_do_def Let_def split: option.split)

lemma cancelled_session: "\<exists>err. snd (engine_session (cancelled_machine m) c k) = Inl err"
proof -
  have s: "\<exists>err. cloud_session (mc_url m) (mc_dec m) (\<lambda>q k. (k, NoAnswer)) c k = (k, Inl err)"
    unfolding cloud_session_def by (rule no_answer)
  have a: "\<exists>err. cloud_activate (mc_url m) (mc_dec m) (\<lambda>q k. (k, NoAnswer)) c (mc_hostname m k) k = (k, Inl err)"
    unfolding cloud_activate_def by (rule no_answer)
  from s a show ?thesis by (auto simp: engine_session_def cancelled_machine_def)
qed

lemma fetch_keeps_tun: "fetch_profile m (e, k) = ((e', k'), r) \<Longrightarrow> en_tun e' = en_tun e"
  by (auto simp: fetch_profile_def Let_def split: prod.splits sum.splits if_splits)

lemma cancelled_connect:
  assumes "en_tun e = None" "connect (cancelled_machine m) (e, k) = (st, r)"
  shows "r \<noteq> None"
proof -
  obtain e1 k1 r1 where f: "fetch_profile (cancelled_machine m) (e, k) = ((e1, k1), r1)" by (metis prod.exhaust)
  obtain k2 err where "engine_session (cancelled_machine m) (en_client e1) k1 = (k2, Inl err)"
    using cancelled_session [of m "en_client e1" k1] by (metis prod.collapse)
  then show ?thesis using assms f by (cases r1) (auto simp: connect_def)
qed

lemma cancelled_verb:
  assumes "en_tun e = None"
  shows "en_tun (fst (fst (handle_verb (cancelled_machine m) v (e, k)))) = None"
proof -
  let ?m = "cancelled_machine m"
  obtain e1 k1 r1 where c: "connect ?m (e, k) = ((e1, k1), r1)" by (metis prod.exhaust)
  obtain e2 k2 r2 where f: "fetch_profile ?m (e, k) = ((e2, k2), r2)" by (metis prod.exhaust)
  have "en_tun e2 = None" using fetch_keeps_tun [OF f] assms by simp
  moreover obtain err where "r1 = Some err" using cancelled_connect [OF assms c] by blast
  ultimately show ?thesis using c f assms teardown_tun by (cases r2) (auto simp: handle_verb_def reload_profile_def)
qed

lemma cancelled_documented: "machine_documented m routes \<Longrightarrow> machine_documented (cancelled_machine m) routes"
  by (simp add: machine_documented_def cancelled_machine_def)

lemma cancelled_reliable: "machine_reliable m \<Longrightarrow> machine_reliable (cancelled_machine m)"
  by (simp add: machine_reliable_def cancelled_machine_def)

lemma late_request:
  assumes "en_tun (fst st) = None"
  shows "en_tun (fst (on_event decode (cancelled_machine m) (Pipe line) st)) = None"
proof -
  have "en_tun (fst (fst (handle_verb (cancelled_machine m) v st))) = None" for v using cancelled_verb assms by (cases st) simp
  then show ?thesis using assms
    by (cases "scan_first line"; cases "parse_request decode (the (scan_first line))") (simp_all add: pipe_handle_def split_def Let_def)
qed

section \<open>Stopping\<close>

definition reported :: "sent list \<Rightarrow> svc_status list" where
  "reported ss = concat (map (\<lambda>x. case x of Reports st \<Rightarrow> [st] | Echoes _ \<Rightarrow> []) ss)"

lemma reported_append [simp]: "reported (xs @ ys) = reported xs @ reported ys" "reported [] = []"
  "reported (Reports st # xs) = st # reported xs" "reported (Echoes st # xs) = reported xs"
  by (simp_all add: reported_def)

definition started_statuses :: "svc_status list" where
  "started_statuses = [plain_status StartPending, running_status]"

definition stopped_statuses :: "svc_status list" where
  "stopped_statuses = started_statuses @ [stop_pending_status, plain_status Stopped]"

fun exec_ok :: "exec_phase \<Rightarrow> svc_status list \<Rightarrow> bool \<Rightarrow> run_phase \<Rightarrow> bool" where
  "exec_ok Console rs c p \<longleftrightarrow> rs = [] \<and> \<not> c"
| "exec_ok Launching rs c p \<longleftrightarrow> rs = [plain_status StartPending] \<and> \<not> c"
| "exec_ok Listening rs c p \<longleftrightarrow> rs = started_statuses \<and> \<not> c"
| "exec_ok AwaitingStop rs c p \<longleftrightarrow> rs = started_statuses @ [stop_pending_status] \<and> c"
| "exec_ok AwaitingClose rs c p \<longleftrightarrow> rs = started_statuses \<and> c"
| "exec_ok Returned rs c p \<longleftrightarrow> (rs = stopped_statuses \<or> rs = started_statuses) \<and> c \<and> p = Finished"

definition svc_ok :: "('s \<Rightarrow> ('l \<times> prefix \<times> addr) set) \<Rightarrow> ('l \<times> prefix \<times> addr) set \<Rightarrow> ('l, 's) service \<Rightarrow> bool" where
  "svc_ok routes R s \<longleftrightarrow> settled routes R (sv_st s) \<and> (sv_run s = Finished \<longrightarrow> en_tun (fst (sv_st s)) = None) \<and>
     (sv_run s \<noteq> Serving \<longrightarrow> sv_cancelled s) \<and> exec_ok (sv_exec s) (reported (sv_sent s)) (sv_cancelled s) (sv_run s)"

lemma teardown_settled:
  assumes "machine_documented m routes" "machine_reliable m" "settled routes R st"
  shows "settled routes R (teardown m st)"
  using assms teardown_settles [of m routes R "fst st" "snd st"] settledD [of routes R "fst st" "snd st"]
  by (simp add: machine_reliable_def)

lemma svc_step_ok:
  assumes doc: "machine_documented m routes" and rel: "machine_reliable m"
    and step: "svc_step decode m routes s s'" and ok: "svc_ok routes R s"
  shows "svc_ok routes R s'"
  using step ok
proof cases
  case (asked c)
  then show ?thesis using ok by (cases c) (auto simp: svc_ok_def)
next
  case returns
  then show ?thesis using ok by (auto simp: svc_ok_def execute_returns_def stopped_statuses_def)
next
  case ticks
  then show ?thesis using ok event_settles [OF doc rel] by (simp add: svc_ok_def del: on_event.simps)
next
  case (request line)
  have "settled routes R (on_event decode (if sv_cancelled s then cancelled_machine m else m) (Pipe line) (sv_st s))"
    using event_settles [OF doc rel] event_settles [OF cancelled_documented [OF doc] cancelled_reliable [OF rel]] ok
    by (simp add: svc_ok_def del: on_event.simps)
  moreover have "sv_run s = Finished \<Longrightarrow> en_tun (fst (on_event decode (if sv_cancelled s then cancelled_machine m else m) (Pipe line) (sv_st s))) = None"
    using late_request [of "sv_st s" decode m line] ok by (simp add: svc_ok_def del: on_event.simps)
  ultimately show ?thesis using ok request by (simp add: svc_ok_def on_request_def del: on_event.simps)
next
  case leaves
  then show ?thesis using ok teardown_settled [OF doc rel] teardown_tun [of m "sv_st s"] by (cases "sv_exec s") (auto simp: svc_ok_def)
next
  case (world e k k')
  have st: "settled routes R (e, k)" using ok world by (simp add: svc_ok_def)
  have "settled routes R (e, k')"
    by (rule settled_frame [OF st inv_world [OF conjunct2 [OF settledD [OF st]] world(3)] world(3)]) simp_all
  then show ?thesis using ok world by (simp add: svc_ok_def)
next
  case sees_done
  then show ?thesis using ok by (cases "sv_exec s") (simp_all add: svc_ok_def)
qed (use ok in \<open>simp_all add: svc_ok_def started_statuses_def\<close>)

lemma svc_reach_ok:
  assumes doc: "machine_documented m routes" and rel: "machine_reliable m"
    and reach: "svc_reach decode m routes cfg key R in_service s"
  shows "svc_ok routes R s"
  using reach
proof induction
  case (begins k)
  have "engine_reach decode m routes cfg key R (new_engine cfg key, k)"
    using engine_reach.started [of routes k R decode m cfg key] begins by simp
  from reach_settled [OF doc rel this] have "settled routes R (new_engine cfg key, k)" .
  then show ?case by (simp add: svc_ok_def service_begins_def)
next
  case (goes_on s s')
  show ?case by (rule svc_step_ok [OF doc rel goes_on.hyps(2) goes_on.IH])
qed

lemma stop_completes:
  assumes "sv_exec s = AwaitingStop" "sv_cancelled s"
  shows "\<exists>s'. (svc_step decode m routes)\<^sup>*\<^sup>* s s' \<and> Reports (plain_status Stopped) \<in> set (sv_sent s')"
proof -
  let ?step = "svc_step decode m routes"
  define s1 where "s1 = s\<lparr>sv_pipeDone := True\<rparr>"
  have 1: "?step s s1" unfolding s1_def by (rule pipe_ends)
  have e1: "sv_exec s1 = AwaitingStop" "sv_cancelled s1" "sv_pipeDone s1" using assms by (simp_all add: s1_def)
  obtain s2 where 2: "?step\<^sup>*\<^sup>* s1 s2" "sv_run s2 = Finished" "sv_exec s2 = AwaitingStop"
  proof (cases "sv_run s1")
    case Serving
    have "?step s1 (s1\<lparr>sv_run := Draining\<rparr>)" by (rule sees_done) (use Serving e1 in simp_all)
    moreover have "?step (s1\<lparr>sv_run := Draining\<rparr>) (s1\<lparr>sv_run := Draining, sv_st := teardown m (sv_st s1), sv_run := Finished\<rparr>)"
      using leaves [of "s1\<lparr>sv_run := Draining\<rparr>" decode m routes] e1 by simp
    ultimately have "?step\<^sup>*\<^sup>* s1 (s1\<lparr>sv_run := Draining, sv_st := teardown m (sv_st s1), sv_run := Finished\<rparr>)"
      by (rule converse_rtranclp_into_rtranclp [OF _ r_into_rtranclp])
    then show ?thesis by (rule that) (use e1 in simp_all)
  next
    case Draining
    then show ?thesis using that [of "s1\<lparr>sv_st := teardown m (sv_st s1), sv_run := Finished\<rparr>"] leaves [of s1 decode m routes] e1 by auto
  next
    case Finished
    then show ?thesis using that e1 by blast
  qed
  have "?step s2 (execute_returns s2)" by (rule returns) (use 2 in simp_all)
  moreover have "Reports (plain_status Stopped) \<in> set (sv_sent (execute_returns s2))" using 2 by (simp add: execute_returns_def)
  ultimately show ?thesis using 1 2(1) by (meson converse_rtranclp_into_rtranclp rtranclp.rtrancl_into_rtrancl rtranclp_trans)
qed


text \<open>A connect, a stop, and another connect that was on the pipe when the service was torn down.\<close>

definition sim_stopped where
  "sim_stopped =
     (let s0 = (service_begins (new_engine sim_config sim_key, sim_start) True)
            \<lparr>sv_sent := [Reports (plain_status StartPending), Reports running_status], sv_exec := Listening\<rparr>;
          s1 = on_control StopRequest (on_request sample_decode sim_machine (sample_line ''connect'') s0);
          s2 = s1\<lparr>sv_pipeDone := True, sv_run := Draining\<rparr>;
          s3 = s2\<lparr>sv_st := teardown sim_machine (sv_st s2), sv_run := Finished\<rparr>
      in execute_returns (on_request sample_decode sim_machine (sample_line ''connect'') s3))"

lemma sim_stopped_reached: "svc_reach sample_decode sim_machine sim_table sim_config sim_key {} True sim_stopped"
proof -
  let ?reach = "svc_reach sample_decode sim_machine sim_table sim_config sim_key {} True"
  let ?begun = "service_begins (new_engine sim_config sim_key, sim_start) True"
  let ?listening = "?begun\<lparr>sv_sent := [Reports (plain_status StartPending), Reports running_status], sv_exec := Listening\<rparr>"
  let ?c = "on_request sample_decode sim_machine (sample_line ''connect'')"
  let ?asked = "on_control StopRequest (?c ?listening)"
  let ?draining = "?asked\<lparr>sv_pipeDone := True, sv_run := Draining\<rparr>"
  let ?torn = "?draining\<lparr>sv_st := teardown sim_machine (sv_st ?draining), sv_run := Finished\<rparr>"
  let ?step = "svc_step sample_decode sim_machine sim_table"
  have r: "?reach ?begun" by (rule begins) (simp add: sim_table_def sim_start_def)
  have "?step ?begun ?listening" using announces [of ?begun] by (simp add: service_begins_def)
  from goes_on [OF goes_on [OF r this] request] have r: "?reach (?c ?listening)" .
  have "?step (?c ?listening) ?asked" by (rule asked) (simp add: on_request_def)
  from goes_on [OF goes_on [OF r this] pipe_ends] have r: "?reach (?asked\<lparr>sv_pipeDone := True\<rparr>)" .
  have "?step (?asked\<lparr>sv_pipeDone := True\<rparr>) ?draining"
    using sees_done [of "?asked\<lparr>sv_pipeDone := True\<rparr>" sample_decode sim_machine sim_table] by (simp add: on_request_def service_begins_def)
  note r = goes_on [OF r this]
  have "?step ?draining ?torn" by (rule leaves) simp_all
  from goes_on [OF goes_on [OF r this] request] have r: "?reach (?c ?torn)" .
  have "?step (?c ?torn) (execute_returns (?c ?torn))" by (rule returns) (simp_all add: on_request_def)
  from goes_on [OF r this] have "?reach (execute_returns (?c ?torn))" .
  then show ?thesis by (simp only: sim_stopped_def Let_def)
qed


text \<open>A run in the console is never told to stop: its context is cancelled only after \<open>run\<close> has returned.\<close>

theorem console_never_tears_down:
  assumes "svc_reach decode m routes cfg key R False s"
  shows "sv_run s = Serving \<and> sv_sent s = []"
proof -
  have "sv_exec s = Console \<and> \<not> sv_cancelled s \<and> sv_run s = Serving \<and> sv_sent s = []"
    using assms
  proof induction
    case (goes_on s s')
    from goes_on(2,3) show ?case by cases (simp_all add: on_request_def)
  qed (simp add: service_begins_def)
  then show ?thesis by simp
qed

end
